(* ===== verification/Kprelude.thy ===== *)
theory Kprelude
  imports Main "HOL-Library.Word"
begin

text \<open>
  The shared vocabulary of the development.

  A kernel routine is a function on an explicit state whose result is an \<open>outcome\<close>: it returns,
  it calls \<open>panic\<close>, it gives up the processor inside \<open>swtch\<close>, it spins on something only another
  processor or a device can change, it runs into behaviour C leaves undefined, or it does not leave
  a loop within the steps it was given.
  The combinators \<open>bind\<close>, \<open>seq\<close>, \<open>gets\<close>, \<open>modify\<close> and \<open>for_each\<close> compose routines in the order
  of the C statements; \<open>wp\<close> is the weakest precondition that lets an invariant be carried through
  such a composition.
  The theory also holds the little-endian byte encodings and the block and memory accessors that
  every on-disk and in-memory structure is read and written with.
\<close>

unbundle bit_operations_syntax

named_theorems kdefs \<open>the combinators, for symbolic execution of a routine\<close>
named_theorems wp_rules \<open>weakest preconditions of the combinators\<close>

type_synonym byte = "8 word"
type_synonym u16 = "16 word"
type_synonym u32 = "32 word"
type_synonym u64 = "64 word"

section \<open>Routines\<close>

datatype 'a outcome =
    Ret 'a
  | Panic string
  | Swtch
  | Spin string
  | Undef string
  | Loops

type_synonym ('a, 's) routine = "'s \<Rightarrow> 'a outcome \<times> 's"

definition ret :: "'a \<Rightarrow> ('a, 's) routine" where
  "ret x = (\<lambda>s. (Ret x, s))"

definition bind :: "('a, 's) routine \<Rightarrow> ('a \<Rightarrow> ('b, 's) routine) \<Rightarrow> ('b, 's) routine" where
  "bind m f = (\<lambda>s. case m s of
      (Ret x, s') \<Rightarrow> f x s'
    | (Panic e, s') \<Rightarrow> (Panic e, s')
    | (Swtch, s') \<Rightarrow> (Swtch, s')
    | (Spin e, s') \<Rightarrow> (Spin e, s')
    | (Undef e, s') \<Rightarrow> (Undef e, s')
    | (Loops, s') \<Rightarrow> (Loops, s'))"

definition seq :: "('a, 's) routine \<Rightarrow> ('b, 's) routine \<Rightarrow> ('b, 's) routine" where
  "seq m n = bind m (\<lambda>_. n)"

definition gets :: "('s \<Rightarrow> 'a) \<Rightarrow> ('a, 's) routine" where
  "gets f = (\<lambda>s. (Ret (f s), s))"

definition modify :: "('s \<Rightarrow> 's) \<Rightarrow> (unit, 's) routine" where
  "modify f = (\<lambda>s. (Ret (), f s))"

definition fail :: "'a outcome \<Rightarrow> ('a, 's) routine" where
  "fail e = (\<lambda>s. (e, s))"

text \<open>\<open>panic\<close> of \<open>printf.c\<close> never returns: the routine ends with the message it prints.\<close>

definition panic :: "string \<Rightarrow> ('a, 's) routine" where
  "panic msg = fail (Panic msg)"

definition undef :: "string \<Rightarrow> ('a, 's) routine" where
  "undef msg = fail (Undef msg)"

definition skip :: "(unit, 's) routine" where
  "skip = ret ()"

definition only_if :: "bool \<Rightarrow> (unit, 's) routine \<Rightarrow> (unit, 's) routine" where
  "only_if b m = (if b then m else skip)"

text \<open>A counted loop whose body runs to completion, and one whose body may leave it early with a
  result, as a \<open>return\<close>, \<open>break\<close> or \<open>goto\<close> out of the loop does.\<close>

fun for_each :: "'b list \<Rightarrow> ('b \<Rightarrow> (unit, 's) routine) \<Rightarrow> (unit, 's) routine" where
  "for_each [] body = skip"
| "for_each (x # xs) body = seq (body x) (for_each xs body)"

fun for_until :: "'b list \<Rightarrow> ('b \<Rightarrow> ('a option, 's) routine) \<Rightarrow> ('a option, 's) routine" where
  "for_until [] body = ret None"
| "for_until (x # xs) body =
     bind (body x) (\<lambda>r. case r of None \<Rightarrow> for_until xs body | Some v \<Rightarrow> ret (Some v))"

lemmas [kdefs] = ret_def bind_def seq_def gets_def modify_def fail_def panic_def undef_def
  skip_def only_if_def

lemma bind_assoc: "bind (bind m f) g = bind m (\<lambda>x. bind (f x) g)"
  by (auto simp: bind_def fun_eq_iff split: prod.splits outcome.splits)

lemma seq_assoc: "seq (seq m n) p = seq m (seq n p)"
  by (simp add: seq_def bind_assoc)

lemma bind_ret [simp]: "bind (ret x) f = f x"
  by (simp add: bind_def ret_def)

lemma bind_Ret: "m s = (Ret x, s') \<Longrightarrow> bind m f s = f x s'"
  by (simp add: bind_def)

lemma seq_Ret: "m s = (Ret x, s') \<Longrightarrow> seq m n s = n s'"
  by (simp add: seq_def bind_def)

lemma bind_Panic: "m s = (Panic e, s') \<Longrightarrow> bind m f s = (Panic e, s')"
  by (simp add: bind_def)

lemma seq_Panic: "m s = (Panic e, s') \<Longrightarrow> seq m n s = (Panic e, s')"
  by (simp add: seq_def bind_def)

lemma bind_eq_Ret:
  "bind m f s = (Ret y, t) \<longleftrightarrow> (\<exists>x s'. m s = (Ret x, s') \<and> f x s' = (Ret y, t))"
  by (auto simp: bind_def split: prod.splits outcome.splits)

lemma seq_eq_Ret:
  "seq m n s = (Ret y, t) \<longleftrightarrow> (\<exists>x s'. m s = (Ret x, s') \<and> n s' = (Ret y, t))"
  by (simp add: seq_def bind_eq_Ret)

text \<open>A search loop whose body leaves nothing behind but \<open>g\<close> on a miss.\<close>

lemma for_until_None:
  assumes "I s" and "\<And>x t. x \<in> set xs \<Longrightarrow> I t \<Longrightarrow> body x t = (Ret None, g t)"
    and "\<And>t. I t \<Longrightarrow> I (g t) \<and> g (g t) = g t"
  shows "for_until xs body s = (Ret None, if xs = [] then s else g s)"
  using assms
proof (induction xs arbitrary: s)
  case Nil
  then show ?case by (simp add: ret_def)
next
  case (Cons x xs)
  have "body x s = (Ret None, g s)" using Cons.prems by simp
  moreover have "for_until xs body (g s) = (Ret None, if xs = [] then g s else g (g s))"
    by (rule Cons.IH) (use Cons.prems in simp_all)
  ultimately show ?case using Cons.prems by (simp add: bind_Ret)
qed

lemma for_until_append:
  "for_until (xs @ ys) body =
     bind (for_until xs body) (\<lambda>r. case r of None \<Rightarrow> for_until ys body | Some v \<Rightarrow> ret (Some v))"
  by (induction xs) (auto simp: bind_assoc fun_eq_iff intro!: arg_cong [where f = "\<lambda>f. bind _ f _"] split: option.splits)

lemma for_until_hit:
  assumes "I s" and "\<And>x t. x \<in> set xs \<Longrightarrow> I t \<Longrightarrow> body x t = (Ret None, g t)"
    and "\<And>t. I t \<Longrightarrow> I (g t) \<and> g (g t) = g t"
    and "body y (if xs = [] then s else g s) = (Ret (Some v), s')"
  shows "for_until (xs @ y # ys) body s = (Ret (Some v), s')"
  using for_until_None [of I s xs body g, OF assms(1-3)] assms(4)
  by (simp add: for_until_append bind_Ret ret_def)

lemma upt_split: "j < n \<Longrightarrow> [0..<n] = [0..<j] @ j # [Suc j..<n]"
  by (metis le0 less_imp_le_nat upt_add_eq_append upt_conv_Cons le_add_diff_inverse)

subsection \<open>Weakest preconditions\<close>

text \<open>\<open>wp m Q s\<close>: if \<open>m\<close> returns from \<open>s\<close>, the result and the new state satisfy \<open>Q\<close>.
  \<open>returns m Q s\<close> says in addition that \<open>m\<close> does return.\<close>

definition wp :: "('a, 's) routine \<Rightarrow> ('a \<Rightarrow> 's \<Rightarrow> bool) \<Rightarrow> 's \<Rightarrow> bool" where
  "wp m Q s = (\<forall>x s'. m s = (Ret x, s') \<longrightarrow> Q x s')"

definition returns :: "('a, 's) routine \<Rightarrow> ('a \<Rightarrow> 's \<Rightarrow> bool) \<Rightarrow> 's \<Rightarrow> bool" where
  "returns m Q s = (\<exists>x s'. m s = (Ret x, s') \<and> Q x s')"

lemma wp_bind [wp_rules]: "wp (bind m f) Q s = wp m (\<lambda>x. wp (f x) Q) s"
  by (auto simp: wp_def bind_eq_Ret)

lemma wp_seq [wp_rules]: "wp (seq m n) Q s = wp m (\<lambda>_. wp n Q) s"
  by (simp add: seq_def wp_bind)

lemma wp_ret [wp_rules]: "wp (ret x) Q s = Q x s"
  by (simp add: wp_def ret_def)

lemma wp_gets [wp_rules]: "wp (gets f) Q s = Q (f s) s"
  by (simp add: wp_def gets_def)

lemma wp_modify [wp_rules]: "wp (modify f) Q s = Q () (f s)"
  by (simp add: wp_def modify_def)

lemma wp_panic [wp_rules]: "wp (panic e) Q s"
  by (simp add: wp_def panic_def fail_def)

lemma wp_undef [wp_rules]: "wp (undef e) Q s"
  by (simp add: wp_def undef_def fail_def)

lemma wp_skip [wp_rules]: "wp skip Q s = Q () s"
  by (simp add: skip_def wp_ret)

lemma wp_only_if [wp_rules]: "wp (only_if b m) Q s = (if b then wp m Q s else Q () s)"
  by (simp add: only_if_def wp_skip)

lemma wp_if [wp_rules]: "wp (if b then m else n) Q s = (if b then wp m Q s else wp n Q s)"
  by simp

lemma wp_mono: "wp m Q s \<Longrightarrow> (\<And>x s'. Q x s' \<Longrightarrow> R x s') \<Longrightarrow> wp m R s"
  by (auto simp: wp_def)

lemma wp_conj: "wp m Q s \<Longrightarrow> wp m R s \<Longrightarrow> wp m (\<lambda>x s'. Q x s' \<and> R x s') s"
  by (auto simp: wp_def)

lemma wp_for_each:
  assumes "I s" and "\<And>x s. x \<in> set xs \<Longrightarrow> I s \<Longrightarrow> wp (body x) (\<lambda>_. I) s"
  shows "wp (for_each xs body) (\<lambda>_. I) s"
  using assms
proof (induction xs arbitrary: s)
  case Nil
  then show ?case by (simp add: wp_skip)
next
  case (Cons x xs)
  have "wp (body x) (\<lambda>_. I) s" using Cons.prems by simp
  then have "wp (body x) (\<lambda>_. wp (for_each xs body) (\<lambda>_. I)) s"
  proof (rule wp_mono)
    fix s'
    assume "I s'"
    then show "wp (for_each xs body) (\<lambda>_. I) s'"
      by (rule Cons.IH) (use Cons.prems in simp)
  qed
  then show ?case by (simp add: wp_seq)
qed

lemma wp_for_until:
  assumes "I s"
    and "\<And>x s. x \<in> set xs \<Longrightarrow> I s \<Longrightarrow> wp (body x) (\<lambda>r s'. case r of None \<Rightarrow> I s' | Some v \<Rightarrow> Q (Some v) s') s"
    and "\<And>s. I s \<Longrightarrow> Q None s"
  shows "wp (for_until xs body) Q s"
  using assms
proof (induction xs arbitrary: s)
  case Nil
  then show ?case by (simp add: wp_ret)
next
  case (Cons x xs)
  have "wp (body x) (\<lambda>r s'. case r of None \<Rightarrow> I s' | Some v \<Rightarrow> Q (Some v) s') s"
    using Cons.prems by simp
  then have "wp (body x) (\<lambda>r. wp (case r of None \<Rightarrow> for_until xs body | Some v \<Rightarrow> ret (Some v)) Q) s"
  proof (rule wp_mono)
    fix r s'
    assume r: "case r of None \<Rightarrow> I s' | Some v \<Rightarrow> Q (Some v) s'"
    have "wp (for_until xs body) Q s'" if "I s'"
      using that by (rule Cons.IH) (use Cons.prems in simp_all)
    with r show "wp (case r of None \<Rightarrow> for_until xs body | Some v \<Rightarrow> ret (Some v)) Q s'"
      by (simp add: wp_ret split: option.splits)
  qed
  then show ?case by (simp add: wp_bind)
qed

section \<open>Words\<close>

lemma unat_less_2p64: "unat (a :: u64) < 2 ^ 64"
proof -
  have "unat a < 2 ^ LENGTH(64)" by (rule unsigned_less)
  then show ?thesis by simp
qed

lemma unat_less_2p32: "unat (a :: u32) < 2 ^ 32"
proof -
  have "unat a < 2 ^ LENGTH(32)" by (rule unsigned_less)
  then show ?thesis by simp
qed

lemma not_bit_ge:
  assumes "unat (w :: 'a::len word) < 2 ^ n" and "n \<le> k"
  shows "\<not> bit w k"
proof
  assume b: "bit w k"
  have "take_bit n (unat w) = unat w"
    using assms(1) by (rule take_bit_nat_eq_self)
  moreover have "bit (unat w) k"
    using b bit_imp_le_length [OF b] by (simp add: bit_unsigned_iff)
  ultimately show False
    using assms(2) by (metis bit_take_bit_iff not_le)
qed

lemma unat_ucast_32_64: "unat (ucast (n :: u32) :: u64) = unat n"
  using unat_less_2p32 [of n] by (simp add: unsigned_ucast_eq take_bit_nat_eq_self)

lemma unat_minus1_64: "unat (- 1 :: u64) = 2 ^ 64 - 1"
  by (simp add: unsigned_minus_1_eq_mask mask_eq_exp_minus_1)

lemma unat_add_of_nat: "unat a + j < 2 ^ 64 \<Longrightarrow> unat ((a :: u64) + of_nat j) = unat a + j"
  by (simp add: unat_word_ariths unat_of_nat)

lemma Suc_unat_minus_one: "w \<noteq> 0 \<Longrightarrow> Suc (unat (w - 1)) = unat (w :: 'a::len word)"
  by (simp add: unat_minus_one unat_gt_0)

lemma all_le_Suc2: "(\<forall>i\<le>Suc k. P i) \<longleftrightarrow> P 0 \<and> (\<forall>i\<le>k. P (Suc i))"
  by (simp add: All_less_Suc2 flip: less_Suc_eq_le)

lemma uint_inject_iff [simp]: "uint a = uint b \<longleftrightarrow> a = (b :: 'a::len word)"
  by (simp add: word_uint_eq_iff)

section \<open>Little-endian encodings\<close>

fun le_word :: "byte list \<Rightarrow> 'a::len word" where
  "le_word [] = 0"
| "le_word (b # bs) = ucast b OR push_bit 8 (le_word bs)"

fun le_bytes :: "nat \<Rightarrow> 'a::len word \<Rightarrow> byte list" where
  "le_bytes 0 w = []"
| "le_bytes (Suc n) w = ucast w # le_bytes n (drop_bit 8 w)"

lemma length_le_bytes [simp]: "length (le_bytes n w) = n"
  by (induction n arbitrary: w) auto

lemma le_word_le_bytes_take: "le_word (le_bytes n w) = take_bit (8 * n) (w :: 'a::len word)"
proof (induction n arbitrary: w)
  case 0
  then show ?case by simp
next
  case (Suc n)
  show ?case
    by (rule bit_word_eqI) (auto simp: Suc bit_simps)
qed

lemma le_word_le_bytes: "LENGTH('a) \<le> 8 * n \<Longrightarrow> le_word (le_bytes n w) = (w :: 'a::len word)"
  by (simp add: le_word_le_bytes_take take_bit_word_eq_self)

lemma le_bytes_le_word:
  "8 * length bs \<le> LENGTH('a) \<Longrightarrow> le_bytes (length bs) (le_word bs :: 'a::len word) = bs"
proof (induction bs)
  case Nil
  then show ?case by simp
next
  case (Cons b bs)
  have hd: "ucast (ucast b OR push_bit 8 (le_word bs) :: 'a word) = b"
    using Cons.prems by (intro bit_word_eqI) (auto simp: bit_simps)
  have "drop_bit 8 (ucast b OR push_bit 8 (le_word bs) :: 'a word) = take_bit (LENGTH('a) - 8) (le_word bs)"
    by (rule bit_word_eqI) (auto simp: bit_simps dest: bit_imp_le_length)
  moreover have "le_bytes n (take_bit m w) = le_bytes n w" if "8 * n \<le> m" for n m and w :: "'a word"
    using that
  proof (induction n arbitrary: m w)
    case 0
    then show ?case by simp
  next
    case (Suc n)
    have "ucast (take_bit m w) = (ucast w :: byte)"
      using Suc.prems by (intro bit_word_eqI) (auto simp: bit_simps)
    moreover have "drop_bit 8 (take_bit m w) = take_bit (m - 8) (drop_bit 8 w)"
      by (simp add: drop_bit_take_bit)
    moreover have "8 * n \<le> m - 8" using Suc.prems by simp
    ultimately show ?case by (simp add: Suc.IH)
  qed
  ultimately show ?case using Cons hd by simp
qed

section \<open>Blocks\<close>

text \<open>A disk block or buffer is a function from byte offsets to bytes; a structure inside it is read
  with \<open>blk_get\<close> and stored with \<open>blk_put\<close>.\<close>

type_synonym block = "nat \<Rightarrow> byte"

definition blk_get :: "block \<Rightarrow> nat \<Rightarrow> nat \<Rightarrow> byte list" where
  "blk_get d off n = map (\<lambda>i. d (off + i)) [0..<n]"

definition blk_put :: "block \<Rightarrow> nat \<Rightarrow> byte list \<Rightarrow> block" where
  "blk_put d off bs = (\<lambda>i. if off \<le> i \<and> i < off + length bs then bs ! (i - off) else d i)"

definition get16 :: "block \<Rightarrow> nat \<Rightarrow> u16" where
  "get16 d off = le_word (blk_get d off 2)"

definition get32 :: "block \<Rightarrow> nat \<Rightarrow> u32" where
  "get32 d off = le_word (blk_get d off 4)"

definition put16 :: "block \<Rightarrow> nat \<Rightarrow> u16 \<Rightarrow> block" where
  "put16 d off v = blk_put d off (le_bytes 2 v)"

definition put32 :: "block \<Rightarrow> nat \<Rightarrow> u32 \<Rightarrow> block" where
  "put32 d off v = blk_put d off (le_bytes 4 v)"

lemma length_blk_get [simp]: "length (blk_get d off n) = n"
  by (simp add: blk_get_def)

lemma blk_get_put_same [simp]: "length bs = n \<Longrightarrow> blk_get (blk_put d off bs) off n = bs"
  by (auto simp: blk_get_def blk_put_def intro: nth_equalityI)

lemma blk_get_put_disj:
  "off' + n \<le> off \<or> off + length bs \<le> off' \<Longrightarrow> blk_get (blk_put d off bs) off' n = blk_get d off' n"
  by (auto simp: blk_get_def blk_put_def)

lemma get32_put32 [simp]: "get32 (put32 d off v) off = v"
  by (simp add: get32_def put32_def le_word_le_bytes)

lemma get16_put16 [simp]: "get16 (put16 d off v) off = v"
  by (simp add: get16_def put16_def le_word_le_bytes)

lemma get32_put32_other:
  "off' + 4 \<le> off \<or> off + 4 \<le> off' \<Longrightarrow> get32 (put32 d off v) off' = get32 d off'"
  by (simp add: get32_def put32_def blk_get_put_disj)

lemma get32_put16_other:
  "off' + 4 \<le> off \<or> off + 2 \<le> off' \<Longrightarrow> get32 (put16 d off v) off' = get32 d off'"
  by (simp add: get32_def put16_def blk_get_put_disj)

lemma get16_put32_other:
  "off' + 2 \<le> off \<or> off + 4 \<le> off' \<Longrightarrow> get16 (put32 d off v) off' = get16 d off'"
  by (simp add: get16_def put32_def blk_get_put_disj)

lemma get16_put16_other:
  "off' + 2 \<le> off \<or> off + 2 \<le> off' \<Longrightarrow> get16 (put16 d off v) off' = get16 d off'"
  by (simp add: get16_def put16_def blk_get_put_disj)

lemmas blk_other = get32_put32_other get32_put16_other get16_put32_other get16_put16_other

section \<open>Byte-addressed memory\<close>

type_synonym memory = "u64 \<Rightarrow> byte"

definition mem_get :: "memory \<Rightarrow> u64 \<Rightarrow> nat \<Rightarrow> byte list" where
  "mem_get m a n = map (\<lambda>i. m (a + of_nat i)) [0..<n]"

definition mem_put :: "memory \<Rightarrow> u64 \<Rightarrow> byte list \<Rightarrow> memory" where
  "mem_put m a bs = (\<lambda>x. if unat (x - a) < length bs then bs ! unat (x - a) else m x)"

definition load64 :: "memory \<Rightarrow> u64 \<Rightarrow> u64" where
  "load64 m a = le_word (mem_get m a 8)"

definition store64 :: "memory \<Rightarrow> u64 \<Rightarrow> u64 \<Rightarrow> memory" where
  "store64 m a v = mem_put m a (le_bytes 8 v)"

lemma length_mem_get [simp]: "length (mem_get m a n) = n"
  by (simp add: mem_get_def)

lemma mem_get_put_same:
  assumes "length bs = n" and "n \<le> 2 ^ 64"
  shows "mem_get (mem_put m a bs) a n = bs"
proof (rule nth_equalityI)
  show "length (mem_get (mem_put m a bs) a n) = length bs"
    using assms by simp
  fix i
  assume "i < length (mem_get (mem_put m a bs) a n)"
  then have i: "i < n" by simp
  then have "unat (of_nat i :: u64) = i"
    using assms by (simp add: unat_of_nat)
  then show "mem_get (mem_put m a bs) a n ! i = bs ! i"
    using i assms by (simp add: mem_get_def mem_put_def)
qed

lemma mem_put_other: "length bs \<le> unat (x - a) \<Longrightarrow> mem_put m a bs x = m x"
  by (simp add: mem_put_def)

lemma mem_get_put_disj:
  "(\<And>i. i < n \<Longrightarrow> length bs \<le> unat (b + of_nat i - a)) \<Longrightarrow> mem_get (mem_put m a bs) b n = mem_get m b n"
  by (auto simp: mem_get_def intro!: mem_put_other)

lemma mem_get_cong: "(\<And>i. i < n \<Longrightarrow> m (a + of_nat i) = m' (a + of_nat i)) \<Longrightarrow> mem_get m a n = mem_get m' a n"
  by (simp add: mem_get_def)

lemma load64_store64 [simp]: "load64 (store64 m a v) a = v"
  by (simp add: load64_def store64_def mem_get_put_same le_word_le_bytes)

lemma load64_cong: "(\<And>i. i < 8 \<Longrightarrow> m (a + of_nat i) = m' (a + of_nat i)) \<Longrightarrow> load64 m a = load64 m' a"
  unfolding load64_def by (rule arg_cong [where f = le_word]) (rule mem_get_cong)

lemma store64_other: "8 \<le> unat (x - a) \<Longrightarrow> store64 m a v x = m x"
  by (simp add: store64_def mem_put_other)

end
