(* ===== verification/Riscv.thy ===== *)
theory Riscv
  imports Kprelude
begin

text \<open>
  The machine constants and address macros of \<open>kernel/riscv.h\<close>, \<open>kernel/memlayout.h\<close> and
  \<open>kernel/param.h\<close>: page rounding, page-table entries and the Sv39 split of a virtual address, with
  the arithmetic facts the page-table code relies on.
\<close>

abbreviation (input) NPROC :: nat where "NPROC \<equiv> 64"
abbreviation (input) NOFILE :: nat where "NOFILE \<equiv> 16"
abbreviation (input) NFILE :: nat where "NFILE \<equiv> 100"
abbreviation (input) NINODE :: nat where "NINODE \<equiv> 50"
abbreviation (input) NDEV :: nat where "NDEV \<equiv> 10"
abbreviation (input) ROOTDEV :: u32 where "ROOTDEV \<equiv> 1"
abbreviation (input) MAXOPBLOCKS :: nat where "MAXOPBLOCKS \<equiv> 10"
abbreviation (input) LOGBLOCKS :: nat where "LOGBLOCKS \<equiv> 30"
abbreviation (input) NBUF :: nat where "NBUF \<equiv> 30"

abbreviation (input) PGSIZE :: u64 where "PGSIZE \<equiv> 4096"
abbreviation (input) KERNBASE :: u64 where "KERNBASE \<equiv> 0x80000000"

text \<open>\<open>PHYSTOP\<close> is \<open>KERNBASE + 128*1024*1024\<close>, \<open>MAXVA\<close> is \<open>1L << 38\<close>, \<open>TRAMPOLINE\<close> and
  \<open>TRAPFRAME\<close> are the two topmost pages below \<open>MAXVA\<close>.\<close>

abbreviation (input) PHYSTOP :: u64 where "PHYSTOP \<equiv> 0x88000000"
abbreviation (input) MAXVA :: u64 where "MAXVA \<equiv> 0x4000000000"
abbreviation (input) TRAMPOLINE :: u64 where "TRAMPOLINE \<equiv> 0x3FFFFFF000"
abbreviation (input) TRAPFRAME :: u64 where "TRAPFRAME \<equiv> 0x3FFFFFE000"

lemma layout_values:
  "PHYSTOP = KERNBASE + 128 * 1024 * 1024" "MAXVA = push_bit 38 1"
  "TRAMPOLINE = MAXVA - PGSIZE" "TRAPFRAME = TRAMPOLINE - PGSIZE"
  by simp_all

definition PGROUNDUP :: "u64 \<Rightarrow> u64" where
  "PGROUNDUP sz = (sz + PGSIZE - 1) AND NOT (PGSIZE - 1)"

definition PGROUNDDOWN :: "u64 \<Rightarrow> u64" where
  "PGROUNDDOWN a = a AND NOT (PGSIZE - 1)"

definition KSTACK :: "nat \<Rightarrow> u64" where
  "KSTACK p = TRAMPOLINE - (of_nat p + 1) * 2 * PGSIZE"

abbreviation (input) PTE_V :: u64 where "PTE_V \<equiv> 1"
abbreviation (input) PTE_R :: u64 where "PTE_R \<equiv> 2"
abbreviation (input) PTE_W :: u64 where "PTE_W \<equiv> 4"
abbreviation (input) PTE_X :: u64 where "PTE_X \<equiv> 8"
abbreviation (input) PTE_U :: u64 where "PTE_U \<equiv> 16"

definition PA2PTE :: "u64 \<Rightarrow> u64" where
  "PA2PTE pa = push_bit 10 (drop_bit 12 pa)"

definition PTE2PA :: "u64 \<Rightarrow> u64" where
  "PTE2PA pte = push_bit 12 (drop_bit 10 pte)"

definition PTE_FLAGS :: "u64 \<Rightarrow> u64" where
  "PTE_FLAGS pte = pte AND 0x3FF"

definition PXSHIFT :: "nat \<Rightarrow> nat" where
  "PXSHIFT level = 12 + 9 * level"

definition PX :: "nat \<Rightarrow> u64 \<Rightarrow> u64" where
  "PX level va = drop_bit (PXSHIFT level) va AND 0x1FF"

subsection \<open>Page rounding\<close>

lemma mask12_eq: "(4095 :: u64) = mask 12"
  by (simp add: mask_eq_exp_minus_1)

lemma mask9_eq: "(511 :: u64) = mask 9"
  by (simp add: mask_eq_exp_minus_1)

lemma mask10_eq: "(1023 :: u64) = mask 10"
  by (simp add: mask_eq_exp_minus_1)

lemma and_not_mask12: "(a :: u64) AND NOT (mask 12) = push_bit 12 (drop_bit 12 a)"
  by (rule bit_word_eqI) (auto simp: bit_simps)

lemma unat_PGROUNDDOWN: "unat (PGROUNDDOWN a) = unat a div 4096 * 4096"
proof -
  have "PGROUNDDOWN a = push_bit 12 (drop_bit 12 a)"
    by (simp only: PGROUNDDOWN_def and_not_mask12 [symmetric] mask12_eq [symmetric]) simp
  also have "unat \<dots> = unat a div 4096 * 4096"
  proof -
    have "unat a div 4096 * 4096 \<le> unat a"
      by simp
    also have "\<dots> < 2 ^ 64"
      using unat_less_2p64 .
    finally have "unat a div 4096 * 4096 < 2 ^ 64" .
    moreover have "unat (drop_bit 12 a) = unat a div 4096"
      by (simp add: drop_bit_eq_div unat_div)
    moreover have "push_bit 12 (drop_bit 12 a) = drop_bit 12 a * 4096"
      by (simp add: push_bit_eq_mult)
    ultimately show ?thesis
      by (simp add: unat_word_ariths)
  qed
  finally show ?thesis .
qed

lemma PGROUNDDOWN_le: "PGROUNDDOWN a \<le> a"
  by (simp add: word_le_nat_alt unat_PGROUNDDOWN)

lemma PGROUNDUP_DOWN: "PGROUNDUP a = PGROUNDDOWN (a + 4095)"
proof -
  have "a + PGSIZE - 1 = a + 4095" by simp
  then show ?thesis by (simp only: PGROUNDUP_def PGROUNDDOWN_def)
qed

lemma unat_PGROUNDUP:
  assumes "unat a + 4095 < 2 ^ 64"
  shows "unat (PGROUNDUP a) = (unat a + 4095) div 4096 * 4096"
proof -
  have "unat (a + 4095) = unat a + 4095"
    using assms by (simp add: unat_word_ariths)
  then show ?thesis by (simp add: PGROUNDUP_DOWN unat_PGROUNDDOWN)
qed

definition aligned :: "u64 \<Rightarrow> bool" where
  "aligned a \<longleftrightarrow> a mod PGSIZE = 0"

lemma aligned_unat: "aligned a \<longleftrightarrow> unat a mod 4096 = 0"
  by (simp add: aligned_def unat_mod flip: unat_eq_zero)

lemma aligned_PGROUNDDOWN [simp]: "aligned (PGROUNDDOWN a)"
  by (simp add: aligned_unat unat_PGROUNDDOWN)

lemma aligned_PGROUNDUP [simp]: "aligned (PGROUNDUP a)"
  by (simp add: PGROUNDUP_DOWN)

lemma aligned_mask: "aligned a \<longleftrightarrow> take_bit 12 a = 0"
  by (simp add: aligned_def take_bit_eq_mod)

lemma PGROUNDDOWN_aligned: "aligned a \<Longrightarrow> PGROUNDDOWN a = a"
  by (simp add: aligned_unat word_unat_eq_iff unat_PGROUNDDOWN) (metis dvd_div_mult_self mod_0_imp_dvd)

subsection \<open>Page-table entries\<close>

lemma PTE2PA_PA2PTE:
  assumes "aligned pa" and "pa < 0x100000000000000" and "flags < 1024"
  shows "PTE2PA (PA2PTE pa OR flags) = pa"
proof (rule bit_word_eqI)
  fix n
  assume n: "n < LENGTH(64)"
  have lo: "\<not> bit pa k" if "k < 12" for k
  proof -
    have "bit pa k = bit (take_bit 12 pa) k"
      using that by (simp add: bit_take_bit_iff)
    then show ?thesis using assms(1) by (simp add: aligned_mask)
  qed
  have hi: "\<not> bit pa k" if "56 \<le> k" for k
    using assms(2) that by (intro not_bit_ge [of _ 56]) (simp_all add: word_less_nat_alt)
  have fl: "\<not> bit flags k" if "10 \<le> k" for k
    using assms(3) that by (intro not_bit_ge [of _ 10]) (simp_all add: word_less_nat_alt)
  show "bit (PTE2PA (PA2PTE pa OR flags)) n = bit pa n"
  proof (cases "12 \<le> n \<and> n < 56")
    case True
    then have "10 \<le> n - 2" by linarith
    with True show ?thesis using fl [of "n - 2"] by (auto simp: PTE2PA_def PA2PTE_def bit_simps)
  next
    case False
    then have "\<not> bit pa n" using lo [of n] hi [of n] by auto
    moreover have "\<not> bit (PTE2PA (PA2PTE pa OR flags)) n"
      using False n fl [of "n - 2"] hi [of n] by (auto simp: PTE2PA_def PA2PTE_def bit_simps)
    ultimately show ?thesis by simp
  qed
qed

lemma PTE_FLAGS_PA2PTE:
  assumes "flags < 1024"
  shows "PTE_FLAGS (PA2PTE pa OR flags) = flags"
proof (rule bit_word_eqI)
  fix n
  assume n: "n < LENGTH(64)"
  have fl: "\<not> bit flags k" if "10 \<le> k" for k
    using assms that by (intro not_bit_ge [of _ 10]) (simp_all add: word_less_nat_alt)
  show "bit (PTE_FLAGS (PA2PTE pa OR flags)) n = bit flags n"
    using n fl [of n] by (cases "n < 10") (auto simp: PTE_FLAGS_def PA2PTE_def bit_simps mask10_eq)
qed

subsection \<open>The Sv39 split of a virtual address\<close>

lemma PX_less: "unat (PX level va) < 512"
proof -
  have "PX level va = take_bit 9 (drop_bit (PXSHIFT level) va)"
    by (simp add: PX_def mask9_eq take_bit_eq_mask)
  then have "unat (PX level va) = take_bit 9 (unat (drop_bit (PXSHIFT level) va))"
    by (simp add: unsigned_take_bit_eq)
  then show ?thesis by (simp add: take_bit_eq_mod)
qed

lemma PX_split:
  assumes "va < MAXVA"
  shows "va = push_bit 30 (PX 2 va) OR push_bit 21 (PX 1 va) OR push_bit 12 (PX 0 va) OR take_bit 12 va"
proof (rule bit_word_eqI)
  fix n
  assume n: "n < LENGTH(64)"
  have hi: "\<not> bit va k" if "38 \<le> k" for k
    using assms that by (intro not_bit_ge [of _ 38]) (simp_all add: word_less_nat_alt)
  show "bit va n = bit (push_bit 30 (PX 2 va) OR push_bit 21 (PX 1 va) OR push_bit 12 (PX 0 va) OR take_bit 12 va) n"
  proof -
    consider "n < 12" | "12 \<le> n" "n < 21" | "21 \<le> n" "n < 30" | "30 \<le> n" "n < 39" | "39 \<le> n"
      by linarith
    then show ?thesis
      using hi [of n]
      by cases (auto simp: PX_def PXSHIFT_def mask9_eq bit_simps less_diff_conv2)
  qed
qed

text \<open>Two page-aligned user addresses with the same three indices are the same address: a leaf slot
  of the page table belongs to one virtual page.\<close>

lemma PX_inj:
  assumes "va < MAXVA" "vb < MAXVA" "aligned va" "aligned vb"
    and "PX 2 va = PX 2 vb" "PX 1 va = PX 1 vb" "PX 0 va = PX 0 vb"
  shows "va = vb"
  using PX_split [OF assms(1)] PX_split [OF assms(2)] assms(3-) by (simp add: aligned_mask)

subsection \<open>Pages\<close>

definition in_page :: "u64 \<Rightarrow> u64 \<Rightarrow> bool" where
  "in_page p x \<longleftrightarrow> unat (x - p) < 4096"

lemma aligned_0 [simp]: "aligned 0"
  by (simp add: aligned_def)

lemma aligned_uint: "aligned a \<longleftrightarrow> uint a mod 4096 = 0"
proof -
  have "aligned a \<longleftrightarrow> int (unat a mod 4096) = 0" by (simp add: aligned_unat)
  then show ?thesis by (simp add: zmod_int)
qed

lemma mod_2p64_4096: "(k mod 2 ^ 64) mod 4096 = k mod (4096 :: int)"
  by (rule mod_mod_cancel) simp

lemma aligned_diff: "aligned a \<Longrightarrow> aligned b \<Longrightarrow> aligned (a - b)"
  using mod_2p64_4096 [of "uint a - uint b"]
  by (simp add: aligned_uint uint_word_ariths) (metis mod_diff_left_eq mod_diff_right_eq diff_0 minus_zero mod_0)

lemma aligned_add: "aligned a \<Longrightarrow> aligned b \<Longrightarrow> aligned (a + b)"
  using mod_2p64_4096 [of "uint a + uint b"]
  by (simp add: aligned_uint uint_word_ariths) (metis mod_add_left_eq mod_add_right_eq add_0 mod_0)

lemma aligned_add_PGSIZE [simp]: "aligned (a + PGSIZE) = aligned a"
  using aligned_add [of a PGSIZE] aligned_diff [of "a + PGSIZE" PGSIZE] by (auto simp: aligned_unat)

lemma aligned_unat_add:
  assumes "aligned d" "i < 4096"
  shows "unat (d + of_nat i) = unat d + i"
proof -
  have "unat d mod 4096 = 0" using assms by (simp add: aligned_unat)
  then obtain k where k: "unat d = 4096 * k" by auto
  then have "unat d + i < 2 ^ 64" using unat_less_2p64 [of d] assms by simp
  then show ?thesis by (rule unat_add_of_nat)
qed

lemma pages_disjoint:
  assumes "aligned a" "aligned b" "a \<noteq> b" "in_page b x"
  shows "\<not> in_page a x"
proof -
  have d: "aligned (b - a)" using assms by (simp add: aligned_diff)
  have "b - a \<noteq> 0" using assms by simp
  then have "unat (b - a) \<noteq> 0" by (metis unat_eq_zero)
  moreover have "unat (b - a) mod 4096 = 0" using d by (simp add: aligned_unat)
  ultimately have "4096 \<le> unat (b - a)" by (auto simp: dvd_imp_le)
  moreover have "unat ((b - a) + of_nat (unat (x - b))) = unat (b - a) + unat (x - b)"
    using d assms(4) by (intro aligned_unat_add) (simp_all add: in_page_def)
  moreover have "(b - a) + of_nat (unat (x - b)) = x - a" by simp
  ultimately show ?thesis by (simp add: in_page_def)
qed

lemma in_page_offset: "i < 4096 \<Longrightarrow> in_page p (p + of_nat i)"
  by (simp add: in_page_def unat_of_nat)

lemma in_page_aligned: "aligned p \<Longrightarrow> in_page p x \<longleftrightarrow> PGROUNDDOWN x = p"
proof
  assume p: "aligned p" and "in_page p x"
  then have "unat (p + of_nat (unat (x - p))) = unat p + unat (x - p)" "unat (x - p) < 4096"
    using aligned_unat_add [OF p, of "unat (x - p)"] by (simp_all add: in_page_def)
  moreover obtain k where "unat p = 4096 * k" using p by (auto simp: aligned_unat)
  ultimately show "PGROUNDDOWN x = p" by (simp add: word_unat_eq_iff unat_PGROUNDDOWN)
next
  assume "aligned p" "PGROUNDDOWN x = p"
  then have "unat p = unat x div 4096 * 4096" using unat_PGROUNDDOWN [of x] by simp
  moreover have "p \<le> x" using \<open>PGROUNDDOWN x = p\<close> PGROUNDDOWN_le by blast
  ultimately show "in_page p x"
    by (simp add: in_page_def unat_sub word_le_nat_alt minus_div_mult_eq_mod)
qed

text \<open>Two memories that agree on the pages of a set.\<close>

definition same_on :: "u64 set \<Rightarrow> memory \<Rightarrow> memory \<Rightarrow> bool" where
  "same_on P m m' \<longleftrightarrow> (\<forall>p\<in>P. \<forall>x. in_page p x \<longrightarrow> m x = m' x)"

lemma same_on_refl [simp]: "same_on P m m"
  by (simp add: same_on_def)

lemma same_on_trans: "same_on P m m' \<Longrightarrow> same_on P m' m'' \<Longrightarrow> same_on P m m''"
  by (simp add: same_on_def)

lemma same_on_sym: "same_on P m m' \<Longrightarrow> same_on P m' m"
  by (simp add: same_on_def)

lemma same_on_mono: "same_on P m m' \<Longrightarrow> Q \<subseteq> P \<Longrightarrow> same_on Q m m'"
  by (auto simp: same_on_def)

lemma same_on_load64:
  assumes "same_on P m m'" "p \<in> P" "i \<le> 4088"
  shows "load64 m (p + of_nat i) = load64 m' (p + of_nat i)"
proof (rule load64_cong)
  fix j :: nat
  assume "j < 8"
  then have "in_page p (p + of_nat (i + j))" using assms by (intro in_page_offset) simp
  then show "m (p + of_nat i + of_nat j) = m' (p + of_nat i + of_nat j)"
    using assms by (simp add: same_on_def add.assoc)
qed

text \<open>A store that stays inside one page leaves the other pages alone.\<close>

lemma same_on_store64:
  assumes "aligned p" "i \<le> 4088" "\<forall>q\<in>P. aligned q \<and> q \<noteq> p"
  shows "same_on P m (store64 m (p + of_nat i) v)"
proof -
  have "8 \<le> unat (x - (p + of_nat i))" if "q \<in> P" "in_page q x" for q x
  proof (rule ccontr)
    assume n: "\<not> 8 \<le> unat (x - (p + of_nat i))"
    let ?j = "unat (x - (p + of_nat i))"
    have "in_page p (p + of_nat (i + ?j))" using n assms by (intro in_page_offset) linarith
    moreover have "p + of_nat (i + ?j) = x" by simp
    ultimately have "in_page p x" by (simp only:)
    with that assms show False using pages_disjoint by blast
  qed
  then show ?thesis by (auto simp: same_on_def store64_other)
qed

section \<open>Properties\<close>

text \<open>C31. A page-table entry loses nothing: from the entry made of a page-aligned physical address of 56 bits and ten flag
  bits, \<open>PTE2PA\<close> gives back the address and \<open>PTE_FLAGS\<close> the flags.\<close>

theorem pte_round_trip:
  assumes "aligned pa" "pa < 0x100000000000000" "flags < 1024"
  shows "PTE2PA (PA2PTE pa OR flags) = pa \<and> PTE_FLAGS (PA2PTE pa OR flags) = flags"
  using PTE2PA_PA2PTE [OF assms] PTE_FLAGS_PA2PTE [OF assms(3)] by (rule conjI)

theorem pte_round_trip_witness:
  "PTE2PA (PA2PTE 0x80001000 OR 0x1F) = 0x80001000 \<and> PTE_FLAGS (PA2PTE 0x80001000 OR 0x1F) = 0x1F"
  using pte_round_trip [of "0x80001000" "0x1F"] by (simp add: aligned_def)

end
