(* ===== verification/Spinlock.thy ===== *)
theory Spinlock
  imports Riscv
begin

text \<open>
  \<open>kernel/spinlock.c\<close> and the per-processor state of \<open>kernel/proc.h\<close>.

  A routine runs on one hart (\<open>hartid\<close>, the \<open>tp\<close> register); \<open>sie\<close> is the interrupt-enable bit of
  its \<open>sstatus\<close>.  Every spinlock of the kernel is named by a \<open>lock_id\<close>; the struct itself is an
  entry of \<open>locks\<close> (\<open>SlLock\<close> is the spinlock inside a sleep lock).  A lock that another hart holds makes \<open>acquire\<close> spin, which is an outcome of
  its own; a lock this hart holds makes it panic.
  The lemmas describe a critical section as a pair of functions \<open>acq\<close> and \<open>rel\<close> on the control
  state: they cancel, nest, and give the interrupt state back.
\<close>

section \<open>State\<close>

datatype sl_id = SlBuf nat | SlInode nat

datatype lock_id =
    KmemLock | PidLock | WaitLock | ProcLock nat | BcacheLock | SlLock sl_id | LogLock
  | IcacheLock | FtableLock | PipeLock u64 | ConsLock | UartTxLock | PrLock
  | VdiskLock | TicksLock

record spinlock =
  locked :: bool
  lname :: string
  lcpu :: "nat option"

record cpu =
  cproc :: "nat option"
  noff :: nat
  intena :: bool

record ctl =
  hartid :: nat
  sie :: bool
  cpus :: "nat \<Rightarrow> cpu"
  locks :: "lock_id \<Rightarrow> spinlock"

record machine =
  ctl :: ctl

section \<open>Operations\<close>

definition mycpu :: "ctl \<Rightarrow> cpu" where
  "mycpu c = cpus c (hartid c)"

definition upd_mycpu :: "(cpu \<Rightarrow> cpu) \<Rightarrow> ctl \<Rightarrow> ctl" where
  "upd_mycpu f c = c\<lparr>cpus := (cpus c)(hartid c := f (mycpu c))\<rparr>"

definition initlock :: "lock_id \<Rightarrow> string \<Rightarrow> (unit, 'a machine_scheme) routine" where
  "initlock lk name = modify (\<lambda>s. s\<lparr>ctl := (ctl s)\<lparr>locks :=
     (locks (ctl s))(lk := \<lparr>locked = False, lname = name, lcpu = None\<rparr>)\<rparr>\<rparr>)"

definition intr_on :: "(unit, 'a machine_scheme) routine" where
  "intr_on = modify (\<lambda>s. s\<lparr>ctl := (ctl s)\<lparr>sie := True\<rparr>\<rparr>)"

definition intr_off :: "(unit, 'a machine_scheme) routine" where
  "intr_off = modify (\<lambda>s. s\<lparr>ctl := (ctl s)\<lparr>sie := False\<rparr>\<rparr>)"

definition intr_get :: "(bool, 'a machine_scheme) routine" where
  "intr_get = gets (\<lambda>s. sie (ctl s))"

definition holding :: "lock_id \<Rightarrow> (bool, 'a machine_scheme) routine" where
  "holding lk = gets (\<lambda>s. locked (locks (ctl s) lk) \<and> lcpu (locks (ctl s) lk) = Some (hartid (ctl s)))"

definition push_off :: "(unit, 'a machine_scheme) routine" where
  "push_off =
     bind intr_get (\<lambda>old.
     seq intr_off (
     seq (modify (\<lambda>s. s\<lparr>ctl := (if noff (mycpu (ctl s)) = 0
                                 then upd_mycpu (intena_update (\<lambda>_. old)) (ctl s) else ctl s)\<rparr>)) (
     modify (\<lambda>s. s\<lparr>ctl := upd_mycpu (noff_update (\<lambda>n. n + 1)) (ctl s)\<rparr>))))"

definition pop_off :: "(unit, 'a machine_scheme) routine" where
  "pop_off =
     bind intr_get (\<lambda>i.
     if i then panic ''pop_off - interruptible'' else
     bind (gets (\<lambda>s. noff (mycpu (ctl s)))) (\<lambda>n.
     if n < 1 then panic ''pop_off'' else
     seq (modify (\<lambda>s. s\<lparr>ctl := upd_mycpu (noff_update (\<lambda>n. n - 1)) (ctl s)\<rparr>)) (
     bind (gets (\<lambda>s. noff (mycpu (ctl s)) = 0 \<and> intena (mycpu (ctl s)))) (\<lambda>on.
     only_if on intr_on))))"

definition acquire :: "lock_id \<Rightarrow> (unit, 'a machine_scheme) routine" where
  "acquire lk =
     seq push_off (
     bind (holding lk) (\<lambda>h.
     if h then panic ''acquire'' else
     bind (gets (\<lambda>s. locked (locks (ctl s) lk))) (\<lambda>old.
     if old then fail (Spin ''acquire'') else
     seq (modify (\<lambda>s. s\<lparr>ctl := (ctl s)\<lparr>locks :=
            (locks (ctl s))(lk := (locks (ctl s) lk)\<lparr>locked := True\<rparr>)\<rparr>\<rparr>)) (
     modify (\<lambda>s. s\<lparr>ctl := (ctl s)\<lparr>locks :=
            (locks (ctl s))(lk := (locks (ctl s) lk)\<lparr>lcpu := Some (hartid (ctl s))\<rparr>)\<rparr>\<rparr>)))))"

definition release :: "lock_id \<Rightarrow> (unit, 'a machine_scheme) routine" where
  "release lk =
     bind (holding lk) (\<lambda>h.
     if \<not> h then panic ''release'' else
     seq (modify (\<lambda>s. s\<lparr>ctl := (ctl s)\<lparr>locks :=
            (locks (ctl s))(lk := (locks (ctl s) lk)\<lparr>lcpu := None\<rparr>)\<rparr>\<rparr>)) (
     seq (modify (\<lambda>s. s\<lparr>ctl := (ctl s)\<lparr>locks :=
            (locks (ctl s))(lk := (locks (ctl s) lk)\<lparr>locked := False\<rparr>)\<rparr>\<rparr>)) (
     pop_off)))"

section \<open>Critical sections\<close>

definition lock_free :: "lock_id \<Rightarrow> ctl \<Rightarrow> bool" where
  "lock_free lk c \<longleftrightarrow> \<not> locked (locks c lk) \<and> lcpu (locks c lk) = None"

definition held :: "lock_id \<Rightarrow> ctl \<Rightarrow> bool" where
  "held lk c \<longleftrightarrow> locked (locks c lk) \<and> lcpu (locks c lk) = Some (hartid c)"

definition pushed :: "ctl \<Rightarrow> ctl" where
  "pushed c = (upd_mycpu (\<lambda>p. \<lparr>cproc = cproc p, noff = noff p + 1,
                               intena = (if noff p = 0 then sie c else intena p)\<rparr>) c)\<lparr>sie := False\<rparr>"

definition popped :: "ctl \<Rightarrow> ctl" where
  "popped c = (upd_mycpu (noff_update (\<lambda>n. n - 1)) c)
     \<lparr>sie := (noff (mycpu c) = 1 \<and> intena (mycpu c))\<rparr>"

definition acq :: "lock_id \<Rightarrow> ctl \<Rightarrow> ctl" where
  "acq lk c = (pushed c)
     \<lparr>locks := (locks c)(lk := (locks c lk)\<lparr>locked := True, lcpu := Some (hartid c)\<rparr>)\<rparr>"

definition rel :: "lock_id \<Rightarrow> ctl \<Rightarrow> ctl" where
  "rel lk c = popped (c\<lparr>locks := (locks c)(lk := (locks c lk)\<lparr>lcpu := None, locked := False\<rparr>)\<rparr>)"

text \<open>\<open>settle c\<close> is what an empty critical section leaves: only the saved interrupt state of a hart
  that held no lock changes.\<close>

definition settle :: "ctl \<Rightarrow> ctl" where
  "settle c = (if noff (mycpu c) = 0 then upd_mycpu (\<lambda>p. p\<lparr>intena := sie c\<rparr>) c else c\<lparr>sie := False\<rparr>)"

lemma push_off_eq: "push_off s = (Ret (), s\<lparr>ctl := pushed (ctl s)\<rparr>)"
  by (auto simp: push_off_def intr_get_def intr_off_def kdefs upd_mycpu_def mycpu_def pushed_def fun_eq_iff
      intro!: arg_cong [where f = "\<lambda>c. s\<lparr>ctl := c\<rparr>"] ctl.equality cpu.equality)

lemma acquire_ok: "lock_free lk (ctl s) \<Longrightarrow> acquire lk s = (Ret (), s\<lparr>ctl := acq lk (ctl s)\<rparr>)"
  by (simp add: acquire_def seq_def bind_def push_off_eq holding_def gets_def modify_def
      lock_free_def acq_def pushed_def upd_mycpu_def mycpu_def)

lemma acquire_held: "held lk (ctl s) \<Longrightarrow> fst (acquire lk s) = Panic ''acquire''"
  by (simp add: acquire_def seq_def bind_def push_off_eq holding_def gets_def panic_def fail_def
      held_def upd_mycpu_def mycpu_def pushed_def)

lemma acquire_busy:
  "locked (locks (ctl s) lk) \<Longrightarrow> lcpu (locks (ctl s) lk) \<noteq> Some (hartid (ctl s)) \<Longrightarrow>
   fst (acquire lk s) = Spin ''acquire''"
  by (simp add: acquire_def seq_def bind_def push_off_eq holding_def gets_def fail_def
      held_def upd_mycpu_def mycpu_def pushed_def)

lemma pop_off_eq:
  "\<not> sie (ctl s) \<Longrightarrow> 0 < noff (mycpu (ctl s)) \<Longrightarrow> pop_off s = (Ret (), s\<lparr>ctl := popped (ctl s)\<rparr>)"
  by (auto simp: pop_off_def kdefs intr_get_def intr_on_def upd_mycpu_def mycpu_def popped_def)

lemma pop_off_unmatched: "\<not> sie (ctl s) \<Longrightarrow> noff (mycpu (ctl s)) = 0 \<Longrightarrow> pop_off s = (Panic ''pop_off'', s)"
  by (simp add: pop_off_def kdefs intr_get_def)

lemma release_ok:
  "held lk (ctl s) \<Longrightarrow> \<not> sie (ctl s) \<Longrightarrow> 0 < noff (mycpu (ctl s)) \<Longrightarrow>
   release lk s = (Ret (), s\<lparr>ctl := rel lk (ctl s)\<rparr>)"
  by (simp add: release_def seq_def bind_def gets_def modify_def holding_def held_def pop_off_eq
      rel_def popped_def upd_mycpu_def mycpu_def)

lemma release_not_held: "\<not> held lk (ctl s) \<Longrightarrow> release lk s = (Panic ''release'', s)"
  by (simp add: release_def kdefs holding_def held_def)

lemma held_acq [simp]: "held lk (acq lk' c) = (lk = lk' \<or> held lk c)"
  by (simp add: held_def acq_def pushed_def upd_mycpu_def)

lemma lock_free_acq [simp]: "lock_free lk (acq lk' c) = (lk \<noteq> lk' \<and> lock_free lk c)"
  by (simp add: lock_free_def acq_def pushed_def upd_mycpu_def)

lemma sie_acq [simp]: "\<not> sie (acq lk c)"
  by (simp add: acq_def pushed_def)

lemma hartid_acq [simp]: "hartid (acq lk c) = hartid c"
  by (simp add: acq_def pushed_def upd_mycpu_def)

lemma noff_acq [simp]: "noff (mycpu (acq lk c)) = Suc (noff (mycpu c))"
  by (simp add: acq_def pushed_def upd_mycpu_def mycpu_def)

lemma cproc_acq [simp]: "cproc (mycpu (acq lk c)) = cproc (mycpu c)"
  by (simp add: acq_def pushed_def upd_mycpu_def mycpu_def)

lemma hartid_settle [simp]: "hartid (settle c) = hartid c"
  by (simp add: settle_def upd_mycpu_def)

lemma noff_settle [simp]: "noff (mycpu (settle c)) = noff (mycpu c)"
  by (simp add: settle_def upd_mycpu_def mycpu_def)

lemma cproc_settle [simp]: "cproc (mycpu (settle c)) = cproc (mycpu c)"
  by (simp add: settle_def upd_mycpu_def mycpu_def)

lemma locks_settle [simp]: "locks (settle c) = locks c"
  by (simp add: settle_def upd_mycpu_def)

lemma lock_free_settle [simp]: "lock_free lk (settle c) = lock_free lk c"
  by (simp add: lock_free_def)

lemma held_settle [simp]: "held lk (settle c) = held lk c"
  by (simp add: held_def)

lemma settle_settle [simp]: "settle (settle c) = settle c"
  by (simp add: settle_def upd_mycpu_def mycpu_def)

lemma acq_settle [simp]: "acq lk (settle c) = acq lk c"
  by (simp add: acq_def pushed_def settle_def upd_mycpu_def mycpu_def)

lemma settle_acq [simp]: "settle (acq lk c) = acq lk c"
  by (simp add: settle_def acq_def pushed_def mycpu_def upd_mycpu_def)

lemma popped_pushed [simp]: "popped (pushed c) = settle c"
  by (auto simp: popped_def pushed_def settle_def upd_mycpu_def mycpu_def fun_eq_iff
      intro!: ctl.equality cpu.equality)

lemma sie_pushed [simp]: "\<not> sie (pushed c)"
  by (simp add: pushed_def)

lemma noff_pushed [simp]: "noff (mycpu (pushed c)) = Suc (noff (mycpu c))"
  by (simp add: pushed_def upd_mycpu_def mycpu_def)

lemma cproc_pushed [simp]: "cproc (mycpu (pushed c)) = cproc (mycpu c)"
  by (simp add: pushed_def upd_mycpu_def mycpu_def)

lemma rel_acq [simp]:
  assumes "lock_free lk c"
  shows "rel lk (acq lk c) = settle c"
proof (rule ctl.equality)
  show "locks (rel lk (acq lk c)) = locks (settle c)"
    using assms by (auto simp: rel_def popped_def acq_def pushed_def upd_mycpu_def lock_free_def fun_eq_iff)
  show "cpus (rel lk (acq lk c)) = cpus (settle c)"
    by (auto simp: rel_def popped_def acq_def pushed_def settle_def upd_mycpu_def mycpu_def fun_eq_iff intro!: cpu.equality)
qed (simp_all add: rel_def popped_def acq_def pushed_def settle_def upd_mycpu_def mycpu_def)

text \<open>Releasing the outer of two nested locks first (as \<open>sleep\<close> does) leaves the inner one held.\<close>

lemma rel_outer [simp]:
  assumes "lock_free lk c" "lk \<noteq> lk'"
  shows "rel lk (acq lk' (acq lk c)) = acq lk' c"
proof (rule ctl.equality)
  show "locks (rel lk (acq lk' (acq lk c))) = locks (acq lk' c)"
    using assms by (auto simp: rel_def popped_def acq_def pushed_def upd_mycpu_def lock_free_def fun_eq_iff)
  show "cpus (rel lk (acq lk' (acq lk c))) = cpus (acq lk' c)"
    using assms by (simp add: rel_def popped_def acq_def pushed_def upd_mycpu_def mycpu_def)
qed (simp_all add: rel_def popped_def acq_def pushed_def upd_mycpu_def mycpu_def)

lemma ctl_self [simp]: "s\<lparr>ctl := ctl s\<rparr> = s"
  by simp

text \<open>A hart that runs process \<open>p\<close> with every lock free, for concrete states.\<close>

definition idle_ctl :: "nat \<Rightarrow> ctl" where
  "idle_ctl p = \<lparr>hartid = 0, sie = True, cpus = (\<lambda>_. \<lparr>cproc = Some p, noff = 0, intena = False\<rparr>),
     locks = (\<lambda>_. \<lparr>locked = False, lname = [], lcpu = None\<rparr>)\<rparr>"

lemma idle_ctl_simps [simp]:
  "lock_free lk (idle_ctl p)" "noff (mycpu (idle_ctl p)) = 0" "cproc (mycpu (idle_ctl p)) = Some p"
  by (simp_all add: lock_free_def idle_ctl_def mycpu_def)

section \<open>Nested critical sections\<close>

text \<open>Releasing under another held lock commutes with having taken that lock.\<close>

lemma rel_under:
  assumes "0 < noff (mycpu c)" "lk \<noteq> lk'"
  shows "rel lk (acq lk' c) = acq lk' (rel lk c)"
proof (rule ctl.equality)
  show "locks (rel lk (acq lk' c)) = locks (acq lk' (rel lk c))"
    using assms by (auto simp: rel_def popped_def acq_def pushed_def upd_mycpu_def fun_eq_iff)
  show "cpus (rel lk (acq lk' c)) = cpus (acq lk' (rel lk c))"
    using assms by (auto simp: rel_def popped_def acq_def pushed_def upd_mycpu_def mycpu_def fun_eq_iff intro!: cpu.equality)
qed (use assms in \<open>simp_all add: rel_def popped_def acq_def pushed_def upd_mycpu_def mycpu_def\<close>)

lemma fold_acq [simp]:
  "noff (mycpu (fold acq ls c)) = noff (mycpu c) + length ls"
  "held lk (fold acq ls c) = (lk \<in> set ls \<or> held lk c)"
  "lock_free lk (fold acq ls c) = (lk \<notin> set ls \<and> lock_free lk c)"
  by (induction ls arbitrary: c) auto

lemma fold_acq_off: "ls \<noteq> [] \<Longrightarrow> \<not> sie (fold acq ls c) \<and> settle (fold acq ls c) = fold acq ls c"
  by (cases ls rule: rev_cases) auto

lemma rel_fold_acq:
  "distinct ls \<Longrightarrow> \<forall>l\<in>set ls. lock_free l c \<Longrightarrow> lk \<in> set ls \<Longrightarrow>
   rel lk (fold acq ls c) = (if ls = [lk] then settle c else fold acq (remove1 lk ls) c)"
proof (induction ls rule: rev_induct)
  case (snoc x xs)
  show ?case
  proof (cases "lk = x")
    case True
    then show ?thesis using snoc.prems fold_acq_off [of xs c] by (cases "xs = []") (auto simp: remove1_append)
  next
    case False
    then have "lk \<in> set xs" "0 < length xs" using snoc.prems by auto
    then show ?thesis using snoc False rel_under [of "fold acq xs c" lk x] by (auto simp: remove1_append)
  qed
qed simp

lemma acquire_all:
  "distinct ls \<Longrightarrow> \<forall>l\<in>set ls. lock_free l (ctl s) \<Longrightarrow>
   for_each ls acquire s = (Ret (), s\<lparr>ctl := fold acq ls (ctl s)\<rparr>)"
proof (induction ls arbitrary: s)
  case (Cons l ls)
  have "\<forall>k\<in>set ls. lock_free k (ctl (s\<lparr>ctl := acq l (ctl s)\<rparr>))" using Cons.prems by auto
  then have "for_each ls acquire (s\<lparr>ctl := acq l (ctl s)\<rparr>) = (Ret (), s\<lparr>ctl := fold acq ls (acq l (ctl s))\<rparr>)"
    using Cons.IH [of "s\<lparr>ctl := acq l (ctl s)\<rparr>"] Cons.prems(1) by simp
  then show ?case using Cons.prems by (simp add: seq_def bind_def acquire_ok)
qed (simp add: skip_def ret_def)

lemma release_all:
  "distinct ls \<Longrightarrow> distinct us \<Longrightarrow> set us = set ls \<Longrightarrow> \<forall>l\<in>set ls. lock_free l c \<Longrightarrow> us \<noteq> [] \<Longrightarrow>
   ctl s = fold acq ls c \<Longrightarrow> for_each us release s = (Ret (), s\<lparr>ctl := settle c\<rparr>)"
proof (induction us arbitrary: ls s)
  case (Cons u us)
  have u: "u \<in> set ls" using Cons.prems(3) by auto
  have "release u s = (Ret (), s\<lparr>ctl := rel u (fold acq ls c)\<rparr>)"
    using release_ok [of u s] Cons.prems(6) u fold_acq_off [of ls c] by (cases "ls = []") auto
  then have r: "release u s = (Ret (), s\<lparr>ctl := if ls = [u] then settle c else fold acq (remove1 u ls) c\<rparr>)"
    using rel_fold_acq [OF Cons.prems(1,4) u] by simp
  show ?case
  proof (cases "us = []")
    case True
    then have "ls = [u]" using Cons.prems(1-3)
      by (metis distinct_card length_Suc_conv length_0_conv list.set_intros(1) singletonD empty_set list.simps(15))
    then show ?thesis using True r by (simp add: seq_def bind_def skip_def ret_def)
  next
    case False
    then have n: "ls \<noteq> [u]" using Cons.prems(2,3) by (cases us) auto
    have "set us = set (remove1 u ls)" using Cons.prems(1-3) by auto
    then have "for_each us release (s\<lparr>ctl := fold acq (remove1 u ls) c\<rparr>) = (Ret (), s\<lparr>ctl := settle c\<rparr>)"
      using Cons.IH [of "remove1 u ls" "s\<lparr>ctl := fold acq (remove1 u ls) c\<rparr>"] Cons.prems False by auto
    then show ?thesis using r n by (simp add: seq_def bind_def)
  qed
qed simp

section \<open>Properties\<close>

text \<open>C19. Critical sections nest: a hart that holds no lock takes any number of free locks, has interrupts off while it holds
  them, and when it has released them, in whatever order, every lock is free again, the nesting count is 0 and
  interrupts are as they were before the first \<open>acquire\<close>.\<close>

theorem locks_nest:
  assumes "ls \<noteq> []" "distinct ls" "\<forall>l\<in>set ls. lock_free l (ctl s)" "distinct us" "set us = set ls" "noff (mycpu (ctl s)) = 0"
  shows "\<exists>t u. for_each ls acquire s = (Ret (), t) \<and> \<not> sie (ctl t) \<and> noff (mycpu (ctl t)) = length ls \<and>
    for_each us release t = (Ret (), u) \<and> sie (ctl u) = sie (ctl s) \<and> noff (mycpu (ctl u)) = 0 \<and> locks (ctl u) = locks (ctl s)"
proof -
  let ?t = "s\<lparr>ctl := fold acq ls (ctl s)\<rparr>"
  have "for_each ls acquire s = (Ret (), ?t)" using assms by (intro acquire_all)
  moreover have "for_each us release ?t = (Ret (), s\<lparr>ctl := settle (ctl s)\<rparr>)"
    using release_all [OF assms(2,4,5,3), of ?t] assms(1,5) by (cases "us = []") auto
  moreover have "sie (settle (ctl s)) = sie (ctl s)" using assms(6) by (simp add: settle_def upd_mycpu_def)
  ultimately show ?thesis using fold_acq_off [OF assms(1), of "ctl s"] assms(6) by simp
qed

theorem locks_nest_witness:
  "\<exists>t u. for_each [KmemLock, ConsLock] acquire \<lparr>ctl = idle_ctl 0\<rparr> = (Ret (), t) \<and> noff (mycpu (ctl t)) = 2 \<and>
    for_each [KmemLock, ConsLock] release t = (Ret (), u) \<and> sie (ctl u)"
proof -
  have "sie (idle_ctl 0)" by (simp add: idle_ctl_def)
  then show ?thesis using locks_nest [of "[KmemLock, ConsLock]" "\<lparr>ctl = idle_ctl 0\<rparr>" "[KmemLock, ConsLock]"]
    by (auto simp: numeral_2_eq_2)
qed



end
