(* ===== verification/Printf.thy ===== *)
theory Printf
  imports Spinlock
begin

text \<open>
  \<open>kernel/printf.c\<close>, the polled half of \<open>kernel/uart.c\<close> and \<open>consputc\<close> of \<open>kernel/console.c\<close>.

  The 16550 is seen through its registers: \<open>uart_lsr\<close> is what the line status register shows,
  \<open>uart_rx\<close> the characters its receive FIFO holds, \<open>uart_log\<close> every register write in order.  A
  transmitter that is not idle makes \<open>uartputc_sync\<close> spin.
  The lemmas show that the digit buffer of \<open>printint\<close> is never overrun and that what it prints
  reads back as the number it was given.
\<close>

section \<open>State and device registers\<close>

record uart_state = machine +
  uart_lsr :: byte
  uart_rx :: "byte list"
  uart_log :: "(nat \<times> byte) list"
  panicking :: bool
  panicked :: bool

abbreviation (input) RHR :: nat where "RHR \<equiv> 0"
abbreviation (input) THR :: nat where "THR \<equiv> 0"
abbreviation (input) IER :: nat where "IER \<equiv> 1"
abbreviation (input) FCR :: nat where "FCR \<equiv> 2"
abbreviation (input) LCR :: nat where "LCR \<equiv> 3"
abbreviation (input) LSR :: nat where "LSR \<equiv> 5"
abbreviation (input) LSR_RX_READY :: byte where "LSR_RX_READY \<equiv> 1"
abbreviation (input) LSR_TX_IDLE :: byte where "LSR_TX_IDLE \<equiv> 32"

definition WriteReg :: "nat \<Rightarrow> byte \<Rightarrow> (unit, 'a uart_state_scheme) routine" where
  "WriteReg r v = modify (\<lambda>s. s\<lparr>uart_log := uart_log s @ [(r, v)]\<rparr>)"

text \<open>The receive-ready bit follows the FIFO; the other bits are the device's.\<close>

definition ReadLSR :: "'a uart_state_scheme \<Rightarrow> byte" where
  "ReadLSR s = (if uart_rx s = [] then uart_lsr s AND NOT LSR_RX_READY else uart_lsr s OR LSR_RX_READY)"

section \<open>uart.c, without interrupts\<close>

definition uartinit :: "(unit, 'a uart_state_scheme) routine" where
  "uartinit =
     seq (WriteReg IER 0x00) (
     seq (WriteReg LCR 0x80) (
     seq (WriteReg 0 0x03) (
     seq (WriteReg 1 0x00) (
     seq (WriteReg LCR 3) (
     seq (WriteReg FCR (1 OR 6)) (
     seq (WriteReg IER (2 OR 1)) (
     initlock UartTxLock ''uart'')))))))"

definition uartputc_sync :: "byte \<Rightarrow> (unit, 'a uart_state_scheme) routine" where
  "uartputc_sync c =
     bind (gets panicking) (\<lambda>p.
     seq (only_if (\<not> p) push_off) (
     bind (gets panicked) (\<lambda>d.
     if d then fail (Spin ''panicked'') else
     bind (gets (\<lambda>s. ReadLSR s AND LSR_TX_IDLE = 0)) (\<lambda>busy.
     if busy then fail (Spin ''uart'') else
     seq (WriteReg THR c) (
     bind (gets panicking) (\<lambda>p'. only_if (\<not> p') pop_off))))))"

definition uartgetc :: "(int, 'a uart_state_scheme) routine" where
  "uartgetc =
     bind (gets ReadLSR) (\<lambda>lsr.
     if lsr AND LSR_RX_READY \<noteq> 0
     then bind (gets uart_rx) (\<lambda>rx. seq (modify (\<lambda>s. s\<lparr>uart_rx := tl rx\<rparr>)) (ret (uint (hd rx))))
     else ret (- 1))"

section \<open>consputc\<close>

abbreviation (input) BACKSPACE :: int where "BACKSPACE \<equiv> 0x100"

definition consputc :: "int \<Rightarrow> (unit, 'a uart_state_scheme) routine" where
  "consputc c =
     (if c = BACKSPACE
      then seq (uartputc_sync 8) (seq (uartputc_sync 32) (uartputc_sync 8))
      else uartputc_sync (of_int c))"

section \<open>printf.c\<close>

definition ascii :: "char \<Rightarrow> byte" where
  "ascii c = of_char c"

definition str :: "string \<Rightarrow> byte list" where
  "str s = map ascii s"

definition digits :: "byte list" where
  "digits = str ''0123456789abcdef''"

text \<open>The digit loop of \<open>printint\<close>; \<open>room\<close> is how many of the 20 elements of \<open>buf\<close> are unused, and
  a store beyond them is undefined.\<close>

fun printint_fill :: "nat \<Rightarrow> u64 \<Rightarrow> u64 \<Rightarrow> byte list \<Rightarrow> byte list option" where
  "printint_fill 0 x base buf = None"
| "printint_fill (Suc room) x base buf =
     (let buf' = buf @ [digits ! unat (x mod base)]; x' = x div base
      in if x' \<noteq> 0 then printint_fill room x' base buf' else Some buf')"

definition printint_buf :: "u64 \<Rightarrow> u64 \<Rightarrow> bool \<Rightarrow> byte list option" where
  "printint_buf xx base sign =
     (let neg = (sign \<and> sint xx < 0); x = (if neg then - xx else xx)
      in case printint_fill 20 x base [] of
           None \<Rightarrow> None
         | Some buf \<Rightarrow> if neg then (if length buf < 20 then Some (buf @ [ascii (CHR ''-'')]) else None)
                       else Some buf)"

definition printint :: "u64 \<Rightarrow> u64 \<Rightarrow> bool \<Rightarrow> (unit, 'a uart_state_scheme) routine" where
  "printint xx base sign =
     (case printint_buf xx base sign of
        None \<Rightarrow> undef ''printint''
      | Some buf \<Rightarrow> for_each (rev buf) (\<lambda>c. consputc (uint c)))"

fun printptr_loop :: "nat \<Rightarrow> u64 \<Rightarrow> (unit, 'a uart_state_scheme) routine" where
  "printptr_loop 0 x = skip"
| "printptr_loop (Suc n) x =
     seq (consputc (uint (digits ! unat (drop_bit 60 x)))) (printptr_loop n (push_bit 4 x))"

definition printptr :: "u64 \<Rightarrow> (unit, 'a uart_state_scheme) routine" where
  "printptr x = seq (consputc 48) (seq (consputc 120) (printptr_loop 16 x))"

text \<open>The variable arguments.  Reading one at another type is undefined.\<close>

datatype va = Int32 u32 | Int64 u64 | Str "byte list option"

definition va32 :: "va list \<Rightarrow> (u32 \<times> va list) option" where
  "va32 ap = (case ap of Int32 v # ap' \<Rightarrow> Some (v, ap') | _ \<Rightarrow> None)"

definition va64 :: "va list \<Rightarrow> (u64 \<times> va list) option" where
  "va64 ap = (case ap of Int64 v # ap' \<Rightarrow> Some (v, ap') | _ \<Rightarrow> None)"

definition va_str :: "va list \<Rightarrow> (byte list option \<times> va list) option" where
  "va_str ap = (case ap of Str v # ap' \<Rightarrow> Some (v, ap') | _ \<Rightarrow> None)"

definition print_str :: "byte list \<Rightarrow> (unit, 'a uart_state_scheme) routine" where
  "print_str cs = for_each cs (\<lambda>c. consputc (uint c))"

definition fmt_at :: "byte list \<Rightarrow> nat \<Rightarrow> byte" where
  "fmt_at fmt i = (if i < length fmt then fmt ! i else 0)"

text \<open>One conversion: what follows a percent sign (\<open>fmt\<close>) and the remaining arguments give the
  output routine, the number of format characters used and the arguments left.  \<open>None\<close> is a type
  mismatch; \<open>conv_end\<close> is a percent sign at the very end.\<close>

datatype 's conv = Conv "(unit, 's) routine" nat "va list" | ConvEnd | ConvUndef

definition conv32 :: "(u32 \<Rightarrow> (unit, 's) routine) \<Rightarrow> va list \<Rightarrow> nat \<Rightarrow> 's conv" where
  "conv32 f ap n = (case va32 ap of None \<Rightarrow> ConvUndef | Some (v, ap') \<Rightarrow> Conv (f v) n ap')"

definition conv64 :: "(u64 \<Rightarrow> (unit, 's) routine) \<Rightarrow> va list \<Rightarrow> nat \<Rightarrow> 's conv" where
  "conv64 f ap n = (case va64 ap of None \<Rightarrow> ConvUndef | Some (v, ap') \<Rightarrow> Conv (f v) n ap')"

definition printf_conv :: "byte list \<Rightarrow> va list \<Rightarrow> 'a uart_state_scheme conv" where
  "printf_conv fmt ap =
     (let c0 = fmt_at fmt 0;
          c1 = (if c0 \<noteq> 0 then fmt_at fmt 1 else 0);
          c2 = (if c1 \<noteq> 0 then fmt_at fmt 2 else 0);
          d = ascii (CHR ''d''); l = ascii (CHR ''l''); u = ascii (CHR ''u''); x = ascii (CHR ''x'')
      in if c0 = d then conv32 (\<lambda>v. printint (scast v) 10 True) ap 1
         else if c0 = l \<and> c1 = d then conv64 (\<lambda>v. printint v 10 True) ap 2
         else if c0 = l \<and> c1 = l \<and> c2 = d then conv64 (\<lambda>v. printint v 10 True) ap 3
         else if c0 = u then conv32 (\<lambda>v. printint (ucast v) 10 False) ap 1
         else if c0 = l \<and> c1 = u then conv64 (\<lambda>v. printint v 10 False) ap 2
         else if c0 = l \<and> c1 = l \<and> c2 = u then conv64 (\<lambda>v. printint v 10 False) ap 3
         else if c0 = x then conv32 (\<lambda>v. printint (ucast v) 16 False) ap 1
         else if c0 = l \<and> c1 = x then conv64 (\<lambda>v. printint v 16 False) ap 2
         else if c0 = l \<and> c1 = l \<and> c2 = x then conv64 (\<lambda>v. printint v 16 False) ap 3
         else if c0 = ascii (CHR ''p'') then conv64 printptr ap 1
         else if c0 = ascii (CHR ''c'') then conv32 (\<lambda>v. consputc (sint v)) ap 1
         else if c0 = ascii (CHR ''s'') then
           (case va_str ap of
              None \<Rightarrow> ConvUndef
            | Some (None, ap') \<Rightarrow> Conv (print_str (str ''(null)'')) 1 ap'
            | Some (Some cs, ap') \<Rightarrow> Conv (print_str cs) 1 ap')
         else if c0 = ascii (CHR ''%'') then Conv (consputc 37) 1 ap
         else if c0 = 0 then ConvEnd
         else Conv (seq (consputc 37) (consputc (uint c0))) 1 ap)"

fun printf_loop :: "byte list \<Rightarrow> va list \<Rightarrow> (unit, 'a uart_state_scheme) routine" where
  "printf_loop [] ap = skip"
| "printf_loop (cx # fmt) ap =
     (if cx \<noteq> ascii (CHR ''%'') then seq (consputc (uint cx)) (printf_loop fmt ap)
      else case printf_conv fmt ap of
          ConvUndef \<Rightarrow> undef ''va_arg''
        | ConvEnd \<Rightarrow> skip
        | Conv m n ap' \<Rightarrow> seq m (printf_loop (drop n fmt) ap'))"

definition printf :: "byte list \<Rightarrow> va list \<Rightarrow> (int, 'a uart_state_scheme) routine" where
  "printf fmt ap =
     bind (gets panicking) (\<lambda>p.
     seq (only_if (\<not> p) (acquire PrLock)) (
     seq (printf_loop fmt ap) (
     bind (gets panicking) (\<lambda>p'.
     seq (only_if (\<not> p') (release PrLock)) (
     ret 0)))))"

text \<open>The body of \<open>panic\<close> itself.  Its callers use the outcome \<open>Panic\<close>, which carries the message;
  \<open>kpanic\<close> is what the processor does on the way there.\<close>

definition kpanic :: "string \<Rightarrow> ('b, 'a uart_state_scheme) routine" where
  "kpanic msg =
     seq (modify (\<lambda>s. s\<lparr>panicking := True\<rparr>)) (
     seq (printf (str ''panic: '') []) (
     seq (printf (str ''%s'' @ [10]) [Str (Some (str msg))]) (
     seq (modify (\<lambda>s. s\<lparr>panicked := True\<rparr>)) (
     panic msg))))"

definition printfinit :: "(unit, 'a uart_state_scheme) routine" where
  "printfinit = initlock PrLock ''pr''"

section \<open>Number formatting\<close>

text \<open>The value of a digit string, least significant digit first, as \<open>printint\<close> builds it.\<close>

definition digit_val :: "byte \<Rightarrow> nat" where
  "digit_val d = (if d < 58 then unat d - 48 else unat d - 87)"

fun digits_val :: "nat \<Rightarrow> byte list \<Rightarrow> nat" where
  "digits_val b [] = 0"
| "digits_val b (d # ds) = digit_val d + b * digits_val b ds"

lemma digits_eq: "digits = [48, 49, 50, 51, 52, 53, 54, 55, 56, 57, 97, 98, 99, 100, 101, 102]"
  by (simp add: digits_def str_def ascii_def)

lemma digit_val_digits: "k < 16 \<Longrightarrow> digit_val (digits ! k) = k"
  by (simp add: digits_eq digit_val_def less_Suc_eq numeral_eq_Suc) (elim disjE; simp)

lemma printint_fill_ok:
  assumes "2 \<le> base" "base \<le> 16" "unat x < unat base ^ k" "0 < k" "k \<le> room"
  shows "\<exists>ds. printint_fill room x base buf = Some (buf @ ds) \<and> length ds \<le> k \<and>
    ds \<noteq> [] \<and> digits_val (unat base) ds = unat x"
  using assms
proof (induction room x base buf arbitrary: k rule: printint_fill.induct)
  case (1 x base buf)
  then show ?case by simp
next
  case (2 room x base buf)
  define B where "B = unat base"
  have B: "2 \<le> B" "B \<le> 16" using "2.prems" by (simp_all add: B_def word_le_nat_alt)
  have div: "unat (x div base) = unat x div B" and md: "unat (x mod base) = unat x mod B"
    by (simp_all add: B_def unat_div unat_mod)
  let ?d = "digits ! unat (x mod base)"
  have "unat x mod B < B" using B by simp
  then have "unat x mod B < 16" using B(2) by (rule less_le_trans)
  then have dv: "digit_val ?d = unat x mod B" using md by (simp add: digit_val_digits)
  show ?case
  proof (cases "x div base = 0")
    case True
    then have "unat x mod B = unat x" using div by (metis mult_div_mod_eq add_0 mult_0_right unat_0)
    then show ?thesis using True dv "2.prems" by (intro exI [of _ "[?d]"]) (simp add: Let_def)
  next
    case False
    then have nz: "unat x div B \<noteq> 0" using div by (metis unat_eq_zero)
    then have k: "1 < k"
      using "2.prems"(3,4) by (cases "k = 1") (auto simp: B_def)
    have "unat x < B ^ (k - 1) * B"
      using "2.prems"(3) k by (simp add: B_def flip: power_Suc2)
    then have "unat (x div base) < unat base ^ (k - 1)"
      using B by (simp add: div less_mult_imp_div_less flip: B_def)
    moreover have "k - 1 \<le> room" using "2.prems" by simp
    ultimately obtain ds where "printint_fill room (x div base) base (buf @ [?d]) = Some ((buf @ [?d]) @ ds)"
      "length ds \<le> k - 1" "digits_val B ds = unat (x div base)"
      using "2.IH" [OF refl refl False, of "k - 1"] "2.prems" k B_def by auto
    then show ?thesis using False k dv div by (intro exI [of _ "?d # ds"]) (simp add: Let_def B_def)
  qed
qed

text \<open>The number \<open>printint\<close> is asked to print.\<close>

definition printint_value :: "u64 \<Rightarrow> bool \<Rightarrow> int" where
  "printint_value xx sign = (if sign then sint xx else uint xx)"

lemma uint_of_sint:
  fixes xx :: u64
  shows "uint xx = sint xx mod 2 ^ 64" "uint (- xx) = (- sint xx) mod 2 ^ 64"
proof -
  have e: "uint (word_of_int k :: u64) = k mod 2 ^ 64" for k
    by (simp add: uint_word_of_int)
  have "xx = word_of_int (sint xx)" "- xx = word_of_int (- sint xx)" by simp_all
  with e show "uint xx = sint xx mod 2 ^ 64" "uint (- xx) = (- sint xx) mod 2 ^ 64"
    by metis+
qed

lemma sint_bounds: "- (2 ^ 63) \<le> sint (xx :: u64)" "sint xx < 2 ^ 63"
  using sint_greater_eq [of xx] sint_less [of xx] by simp_all

lemma unat_neg:
  assumes "sint (xx :: u64) < 0"
  shows "int (unat (- xx)) = - sint xx" "unat (- xx) < 10 ^ 19"
proof -
  have "(- sint xx) mod 2 ^ 64 = - sint xx"
    using assms sint_bounds [of xx] by (intro mod_pos_pos_trivial) auto
  then show i: "int (unat (- xx)) = - sint xx"
    using uint_of_sint(2) [of xx] by simp
  have "int (unat (- xx)) < int (10 ^ 19)" unfolding i using sint_bounds [of xx] by simp
  then show "unat (- xx) < 10 ^ 19" unfolding of_nat_less_iff .
qed

lemma unat_pos: "0 \<le> sint (xx :: u64) \<Longrightarrow> int (unat xx) = sint xx"
  using uint_of_sint(1) [of xx] sint_bounds [of xx] by (simp add: mod_pos_pos_trivial)

lemma printint_buf_ok:
  assumes "base = 10 \<or> base = 16 \<and> \<not> sign"
  shows "\<exists>ds. printint_buf xx base sign =
      Some (if printint_value xx sign < 0 then ds @ [ascii (CHR ''-'')] else ds) \<and> ds \<noteq> [] \<and>
    int (digits_val (unat base) ds) = \<bar>printint_value xx sign\<bar>"
proof (cases "sign \<and> sint xx < 0")
  case True
  then have "base = 10" using assms by auto
  moreover obtain ds where "printint_fill 20 (- xx) 10 [] = Some ds" "length ds \<le> 19" "ds \<noteq> []"
    "digits_val 10 ds = unat (- xx)"
    using printint_fill_ok [of 10 "- xx" 19 20 "[]"] True unat_neg(2) [of xx] by auto
  ultimately show ?thesis
    using True unat_neg(1) [of xx] by (simp add: printint_buf_def printint_value_def)
next
  case False
  have "unat xx < unat base ^ 20"
    using assms unat_less_2p64 [of xx] by auto
  then obtain ds where "printint_fill 20 xx base [] = Some ds" "ds \<noteq> []"
    "digits_val (unat base) ds = unat xx"
    using printint_fill_ok [of base xx 20 20 "[]"] assms by auto
  moreover have "int (unat xx) = \<bar>printint_value xx sign\<bar>"
    using False unat_pos [of xx] by (auto simp: printint_value_def)
  ultimately show ?thesis
    using False by (auto simp: printint_buf_def printint_value_def)
qed

section \<open>Output\<close>

definition uart_ready :: "'a uart_state_scheme \<Rightarrow> bool" where
  "uart_ready s \<longleftrightarrow> \<not> panicked s \<and> uart_lsr s AND LSR_TX_IDLE \<noteq> 0"

text \<open>A state in which an empty critical section changes nothing: a lock is held, or the kernel is
  panicking and takes none.\<close>

definition calm :: "'a uart_state_scheme \<Rightarrow> bool" where
  "calm s \<longleftrightarrow> panicking s \<or> settle (ctl s) = ctl s"

definition emit :: "byte list \<Rightarrow> 'a uart_state_scheme \<Rightarrow> 'a uart_state_scheme" where
  "emit bs s = s\<lparr>uart_log := uart_log s @ map (Pair THR) bs\<rparr>"

lemma emit_emit [simp]: "emit bs (emit as s) = emit (as @ bs) s"
  by (simp add: emit_def)

lemma emit_Nil [simp]: "emit [] s = s"
  by (simp add: emit_def)

lemma emit_sel [simp]: "ctl (emit bs s) = ctl s" "panicking (emit bs s) = panicking s"
  "uart_ready (emit bs s) = uart_ready s" "calm (emit bs s) = calm s"
  by (simp_all add: emit_def uart_ready_def calm_def)

lemma ReadLSR_idle: "ReadLSR s AND LSR_TX_IDLE = uart_lsr s AND LSR_TX_IDLE"
proof -
  have "(1 :: byte) AND 32 = 0" "NOT (1 :: byte) AND 32 = 32" by simp_all
  then show ?thesis
    by (simp add: ReadLSR_def and.assoc bit.conj_disj_distrib2 or.left_neutral del: and_numerals)
qed

lemma uartputc_sync_ok:
  assumes "uart_ready s"
  shows "uartputc_sync c s =
    (Ret (), emit [c] (if panicking s then s else s\<lparr>ctl := settle (ctl s)\<rparr>))"
proof -
  have "ReadLSR (t :: 'a uart_state_scheme) AND 32 = uart_lsr t AND 32" for t by (rule ReadLSR_idle)
  then show ?thesis
    using assms by (simp add: uartputc_sync_def kdefs push_off_eq pop_off_eq WriteReg_def
        uart_ready_def emit_def)
qed

lemma uartputc_sync_calm:
  "uart_ready s \<Longrightarrow> calm s \<Longrightarrow> uartputc_sync c s = (Ret (), emit [c] s)"
  by (cases "panicking s") (simp_all add: uartputc_sync_ok calm_def)

lemma consputc_ok:
  assumes "uart_ready s" "calm s" "c \<noteq> BACKSPACE"
  shows "consputc c s = (Ret (), emit [of_int c] s)"
  using assms by (simp add: consputc_def uartputc_sync_calm)

lemma consputc_any: "uart_ready s \<Longrightarrow> calm s \<Longrightarrow> \<exists>bs. consputc c s = (Ret (), emit bs s)"
  by (auto simp: consputc_def uartputc_sync_calm seq_def bind_def)

lemma print_str_ok: "uart_ready s \<Longrightarrow> calm s \<Longrightarrow> print_str cs s = (Ret (), emit cs s)"
proof (induction cs arbitrary: s)
  case Nil
  then show ?case by (simp add: print_str_def kdefs)
next
  case (Cons c cs)
  have "uint c \<noteq> BACKSPACE" using uint_lt2p [of c] by simp
  then have "consputc (uint c) s = (Ret (), emit [c] s)" using Cons.prems by (simp add: consputc_ok)
  then show ?case using Cons by (simp add: print_str_def seq_def bind_def)
qed

lemma printint_ok:
  assumes "uart_ready s" "calm s" "base = 10 \<or> base = 16 \<and> \<not> sign"
  shows "\<exists>ds. printint xx base sign s =
      (Ret (), emit (if printint_value xx sign < 0 then ascii (CHR ''-'') # rev ds else rev ds) s) \<and>
    ds \<noteq> [] \<and> int (digits_val (unat base) ds) = \<bar>printint_value xx sign\<bar>"
proof -
  obtain ds where "printint_buf xx base sign =
      Some (if printint_value xx sign < 0 then ds @ [ascii (CHR ''-'')] else ds)"
    "ds \<noteq> []" "int (digits_val (unat base) ds) = \<bar>printint_value xx sign\<bar>"
    using printint_buf_ok [OF assms(3)] by blast
  then show ?thesis
    using assms by (intro exI [of _ ds]) (simp add: printint_def print_str_ok flip: print_str_def)
qed

lemma printptr_loop_any:
  "uart_ready s \<Longrightarrow> calm s \<Longrightarrow> \<exists>bs. printptr_loop n x s = (Ret (), emit bs s)"
proof (induction n arbitrary: x s)
  case 0
  then show ?case by (auto simp: kdefs intro: exI [of _ "[]"])
next
  case (Suc n)
  obtain b where b: "consputc (uint (digits ! unat (drop_bit 60 x))) s = (Ret (), emit b s)"
    using consputc_any Suc.prems by blast
  obtain bs where "printptr_loop n (push_bit 4 x) (emit b s) = (Ret (), emit bs (emit b s))"
    using Suc.IH [of "emit b s"] Suc.prems by auto
  with b show ?case by (auto simp: seq_def bind_def)
qed

lemma seq_any:
  assumes "\<And>s. uart_ready s \<Longrightarrow> calm s \<Longrightarrow> \<exists>bs. m s = (Ret (), emit bs s)"
    and "\<And>s. uart_ready s \<Longrightarrow> calm s \<Longrightarrow> \<exists>bs. n s = (Ret (), emit bs s)"
    and "uart_ready s" "calm s"
  shows "\<exists>bs. seq m n s = (Ret (), emit bs s)"
proof -
  obtain b where b: "m s = (Ret (), emit b s)" using assms by blast
  obtain c where "n (emit b s) = (Ret (), emit c (emit b s))" using assms(2) [of "emit b s"] assms by auto
  with b show ?thesis by (auto simp: seq_def bind_def)
qed

text \<open>\<open>prints c s\<close>: the conversion \<open>c\<close>, if it has its argument, prints something and returns.\<close>

definition prints :: "'a uart_state_scheme conv \<Rightarrow> 'a uart_state_scheme \<Rightarrow> bool" where
  "prints c s \<longleftrightarrow> (case c of Conv m k ap \<Rightarrow> \<exists>bs. m s = (Ret (), emit bs s) | _ \<Rightarrow> True)"

lemma prints_if: "prints c s \<Longrightarrow> prints d s \<Longrightarrow> prints (if b then c else d) s"
  by simp

lemma prints_conv32: "(\<And>v. \<exists>bs. f v s = (Ret (), emit bs s)) \<Longrightarrow> prints (conv32 f ap n) s"
  by (simp add: prints_def conv32_def split: option.splits prod.splits)

lemma prints_conv64: "(\<And>v. \<exists>bs. f v s = (Ret (), emit bs s)) \<Longrightarrow> prints (conv64 f ap n) s"
  by (simp add: prints_def conv64_def split: option.splits prod.splits)

lemma prints_Conv: "\<exists>bs. m s = (Ret (), emit bs s) \<Longrightarrow> prints (Conv m n ap) s"
  by (simp add: prints_def)

lemma prints_other: "prints ConvEnd s" "prints ConvUndef s"
  by (simp_all add: prints_def)

lemma printint_any:
  "uart_ready s \<Longrightarrow> calm s \<Longrightarrow> base = 10 \<or> base = 16 \<and> \<not> sign \<Longrightarrow>
   \<exists>bs. printint xx base sign s = (Ret (), emit bs s)"
  using printint_ok by blast

lemma printptr_any: "uart_ready s \<Longrightarrow> calm s \<Longrightarrow> \<exists>bs. printptr x s = (Ret (), emit bs s)"
  unfolding printptr_def by (intro seq_any consputc_any printptr_loop_any)

text \<open>Whatever the format asks for, a conversion that has its argument prints something and returns.\<close>

lemma printf_conv_any:
  assumes "uart_ready s" "calm s"
  shows "prints (printf_conv fmt ap) s"
proof -
  have "prints (Conv (print_str cs) n ap) s" for cs n ap
    using print_str_ok assms by (auto intro: prints_Conv)
  then have "prints (case va_str ap of None \<Rightarrow> ConvUndef
      | Some (None, ap') \<Rightarrow> Conv (print_str (str ''(null)'')) 1 ap'
      | Some (Some cs, ap') \<Rightarrow> Conv (print_str cs) 1 ap') s"
    by (auto simp: prints_other split: option.splits)
  with assms show ?thesis
    unfolding printf_conv_def Let_def
    by (intro prints_if prints_conv32 prints_conv64 prints_other) (simp_all add: printint_any printptr_any
        consputc_any prints_Conv seq_any)
qed

lemma printf_loop_any:
  fixes s :: "'a uart_state_scheme"
  assumes "uart_ready s" "calm s"
  shows "\<exists>bs r. printf_loop fmt ap s = (r, emit bs s) \<and> (r = Ret () \<or> r = Undef ''va_arg'')"
  using assms
proof (induction fmt ap arbitrary: s rule: printf_loop.induct [where ?'a = 'a])
  case (1 ap)
  then show ?case by (auto simp: kdefs intro: exI [of _ "[]"])
next
  case (2 cx fmt ap)
  show ?case
  proof (cases "cx = ascii (CHR ''%'')")
    case False
    obtain b where b: "consputc (uint cx) s = (Ret (), emit b s)"
      using consputc_any "2.prems" by blast
    obtain bs r where "printf_loop fmt ap (emit b s) = (r, emit bs (emit b s))" "r = Ret () \<or> r = Undef ''va_arg''"
      using "2.IH"(1) [OF False, of "emit b s"] "2.prems" by auto
    with b False show ?thesis by (auto simp: seq_def bind_def)
  next
    case True
    show ?thesis
    proof (cases "printf_conv fmt ap :: 'a uart_state_scheme conv")
      case (Conv m n ap')
      obtain b where b: "m s = (Ret (), emit b s)"
        using printf_conv_any [of s fmt ap] Conv "2.prems" by (auto simp: prints_def)
      obtain bs r where "printf_loop (drop n fmt) ap' (emit b s) = (r, emit bs (emit b s))"
        "r = Ret () \<or> r = Undef ''va_arg''"
        using "2.IH"(2) [OF _ Conv, of "emit b s"] True "2.prems" by auto
      with b True Conv show ?thesis by (auto simp: seq_def bind_def)
    qed (use True in \<open>auto simp: kdefs intro: exI [of _ "[]"]\<close>)
  qed
qed

text \<open>\<open>printf\<close> takes and gives back its lock, returns 0, and changes nothing but the output; the only
  way it goes wrong on a ready device is an argument of the wrong type.\<close>

lemma printf_ok:
  assumes "uart_ready s" "\<not> panicking s" "lock_free PrLock (ctl s)"
  shows "\<exists>bs. printf fmt ap s = (Ret 0, emit bs (s\<lparr>ctl := settle (ctl s)\<rparr>)) \<or>
    fst (printf fmt ap s) = Undef ''va_arg''"
proof -
  let ?t = "s\<lparr>ctl := acq PrLock (ctl s)\<rparr>"
  have "uart_ready ?t" "calm ?t" using assms by (simp_all add: uart_ready_def calm_def)
  then obtain bs r where l: "printf_loop fmt ap ?t = (r, emit bs ?t)" "r = Ret () \<or> r = Undef ''va_arg''"
    using printf_loop_any by blast
  have "emit bs ?t\<lparr>ctl := settle (ctl s)\<rparr> = emit bs (s\<lparr>ctl := settle (ctl s)\<rparr>)"
    by (simp add: emit_def)
  with l show ?thesis
    using assms by (auto simp: printf_def kdefs acquire_ok release_ok split: outcome.splits intro!: exI [of _ bs])
qed

section \<open>Properties\<close>





end
