(* ===== verification/Kstring.thy ===== *)
theory Kstring
  imports Kprelude
begin

text \<open>
  \<open>kernel/string.c\<close>.

  Routines that only read strings (\<open>memcmp\<close>, \<open>strncmp\<close>, \<open>strlen\<close>) take a pointer as the array it
  points at, a function from offsets to bytes; \<open>strncpy\<close> and \<open>safestrcpy\<close> return the destination
  array; \<open>memset\<close> and \<open>memmove\<close> work on the byte-addressed memory, where the overlap of source and
  destination matters.
  The lemmas give each loop its closed form: \<open>memset\<close> and \<open>memmove\<close> are simultaneous stores,
  \<open>strncmp\<close> compares up to the first NUL, \<open>strncpy\<close> pads, \<open>safestrcpy\<close> always terminates.
\<close>

section \<open>Definitions\<close>

type_synonym cstring = "nat \<Rightarrow> byte"

fun memset_loop :: "('p \<Rightarrow> byte) \<Rightarrow> (nat \<Rightarrow> 'p) \<Rightarrow> byte \<Rightarrow> nat \<Rightarrow> nat \<Rightarrow> 'p \<Rightarrow> byte" where
  "memset_loop m p c i 0 = m"
| "memset_loop m p c i (Suc k) = memset_loop (m(p i := c)) p c (Suc i) k"

definition memset :: "memory \<Rightarrow> u64 \<Rightarrow> byte \<Rightarrow> nat \<Rightarrow> memory" where
  "memset m dst c n = memset_loop m (\<lambda>i. dst + of_nat i) c 0 n"

definition memset_blk :: "block \<Rightarrow> byte \<Rightarrow> nat \<Rightarrow> block" where
  "memset_blk d c n = memset_loop d (\<lambda>i. i) c 0 n"

fun memcmp :: "cstring \<Rightarrow> cstring \<Rightarrow> nat \<Rightarrow> int" where
  "memcmp s1 s2 0 = 0"
| "memcmp s1 s2 (Suc n) =
     (if s1 0 \<noteq> s2 0 then uint (s1 0) - uint (s2 0)
      else memcmp (\<lambda>i. s1 (Suc i)) (\<lambda>i. s2 (Suc i)) n)"

fun memmove_back :: "memory \<Rightarrow> u64 \<Rightarrow> u64 \<Rightarrow> nat \<Rightarrow> memory" where
  "memmove_back m d s 0 = m"
| "memmove_back m d s (Suc n) = memmove_back (m(d - 1 := m (s - 1))) (d - 1) (s - 1) n"

fun memmove_fwd :: "memory \<Rightarrow> u64 \<Rightarrow> u64 \<Rightarrow> nat \<Rightarrow> memory" where
  "memmove_fwd m d s 0 = m"
| "memmove_fwd m d s (Suc n) = memmove_fwd (m(d := m s)) (d + 1) (s + 1) n"

definition memmove :: "memory \<Rightarrow> u64 \<Rightarrow> u64 \<Rightarrow> u32 \<Rightarrow> memory" where
  "memmove m dst src n =
     (if n = 0 then m
      else if src < dst \<and> src + ucast n > dst
      then memmove_back m (dst + ucast n) (src + ucast n) (unat n)
      else memmove_fwd m dst src (unat n))"

definition memcpy :: "memory \<Rightarrow> u64 \<Rightarrow> u64 \<Rightarrow> u32 \<Rightarrow> memory" where
  "memcpy m dst src n = memmove m dst src n"

fun strncmp :: "cstring \<Rightarrow> cstring \<Rightarrow> nat \<Rightarrow> int" where
  "strncmp p q 0 = 0"
| "strncmp p q (Suc n) =
     (if p 0 \<noteq> 0 \<and> p 0 = q 0 then strncmp (\<lambda>i. p (Suc i)) (\<lambda>i. q (Suc i)) n
      else uint (p 0) - uint (q 0))"

text \<open>The first loop of \<open>strncpy\<close> copies until it has stored a NUL or the count is used up and
  yields the next position and the count left; the second fills the rest with NULs.\<close>

fun strncpy_copy :: "cstring \<Rightarrow> nat \<Rightarrow> cstring \<Rightarrow> nat \<Rightarrow> nat \<Rightarrow> cstring \<times> nat \<times> nat" where
  "strncpy_copy s i t j 0 = (s, i, 0)"
| "strncpy_copy s i t j (Suc n) =
     (let s' = s(i := t j)
      in if t j \<noteq> 0 then strncpy_copy s' (Suc i) t (Suc j) n else (s', Suc i, n))"

definition strncpy :: "cstring \<Rightarrow> cstring \<Rightarrow> int \<Rightarrow> cstring" where
  "strncpy s t n =
     (case strncpy_copy s 0 t 0 (nat n) of (s', i, n') \<Rightarrow> memset_loop s' (\<lambda>i. i) 0 i n')"

fun safestrcpy_copy :: "cstring \<Rightarrow> nat \<Rightarrow> cstring \<Rightarrow> nat \<Rightarrow> cstring \<times> nat" where
  "safestrcpy_copy s i t 0 = (s, i)"
| "safestrcpy_copy s i t (Suc n) =
     (let s' = s(i := t i) in if t i \<noteq> 0 then safestrcpy_copy s' (Suc i) t n else (s', Suc i))"

definition safestrcpy :: "cstring \<Rightarrow> cstring \<Rightarrow> int \<Rightarrow> cstring" where
  "safestrcpy s t n =
     (if n \<le> 0 then s
      else case safestrcpy_copy s 0 t (nat (n - 1)) of (s', i) \<Rightarrow> s'(i := 0))"

partial_function (option) strlen_from :: "cstring \<Rightarrow> nat \<Rightarrow> nat option" where
  "strlen_from s n = (if s n = 0 then Some n else strlen_from s (Suc n))"

definition strlen :: "cstring \<Rightarrow> nat option" where
  "strlen s = strlen_from s 0"

section \<open>memset\<close>

lemma memset_loop_eq:
  assumes "inj_on p {i..<i + k}"
  shows "memset_loop m p c i k x = (if \<exists>j. i \<le> j \<and> j < i + k \<and> x = p j then c else m x)"
  using assms
proof (induction k arbitrary: m i)
  case 0
  then show ?case by auto
next
  case (Suc k)
  have "inj_on p {Suc i..<Suc i + k}"
    using Suc.prems by (rule inj_on_subset) auto
  then have "memset_loop (m(p i := c)) p c (Suc i) k x =
      (if \<exists>j. Suc i \<le> j \<and> j < Suc i + k \<and> x = p j then c else (m(p i := c)) x)"
    by (rule Suc.IH)
  moreover have "(\<exists>j. i \<le> j \<and> j < i + Suc k \<and> x = p j) \<longleftrightarrow>
      x = p i \<or> (\<exists>j. Suc i \<le> j \<and> j < Suc i + k \<and> x = p j)"
    by (metis Suc_le_eq add_Suc add_Suc_right le_add1 le_eq_less_or_eq less_Suc_eq_le)
  ultimately show ?case by auto
qed

lemma memset_blk_eq [simp]: "memset_blk d c n = (\<lambda>i. if i < n then c else d i)"
  by (auto simp: memset_blk_def memset_loop_eq)

lemma memset_eq:
  assumes "n \<le> 2 ^ 64"
  shows "memset m dst c n = (\<lambda>x. if unat (x - dst) < n then c else m x)"
proof
  fix x
  have un: "unat (of_nat i :: u64) = i" if "i < n" for i
    using that assms by (simp add: unat_of_nat)
  have "inj_on (\<lambda>i. dst + (of_nat i :: u64)) {0..<0 + n}"
    by (rule inj_onI) (metis add_left_cancel atLeastLessThan_iff add_0 un)
  then have "memset m dst c n x =
      (if \<exists>j. 0 \<le> j \<and> j < 0 + n \<and> x = dst + of_nat j then c else m x)"
    unfolding memset_def by (rule memset_loop_eq)
  moreover have "(\<exists>j. j < n \<and> x = dst + of_nat j) \<longleftrightarrow> unat (x - dst) < n"
  proof
    assume "\<exists>j. j < n \<and> x = dst + of_nat j"
    then show "unat (x - dst) < n" using un by auto
  next
    assume "unat (x - dst) < n"
    moreover have "x = dst + of_nat (unat (x - dst))" by simp
    ultimately show "\<exists>j. j < n \<and> x = dst + of_nat j" by blast
  qed
  ultimately show "memset m dst c n x = (if unat (x - dst) < n then c else m x)" by simp
qed

section \<open>memmove\<close>

lemma memmove_fwd_eq:
  assumes "n \<le> 2 ^ 64"
    and "\<And>j k. j < k \<Longrightarrow> k < n \<Longrightarrow> d + of_nat j \<noteq> s + of_nat k"
  shows "memmove_fwd m d s n x = (if unat (x - d) < n then m (s + (x - d)) else m x)"
  using assms
proof (induction n arbitrary: m d s)
  case 0
  then show ?case by simp
next
  case (Suc n)
  have IH: "memmove_fwd (m(d := m s)) (d + 1) (s + 1) n x =
      (if unat (x - (d + 1)) < n then (m(d := m s)) (s + 1 + (x - (d + 1))) else (m(d := m s)) x)"
  proof (rule Suc.IH)
    fix j k :: nat
    assume "j < k" "k < n"
    then have "d + of_nat (Suc j) \<noteq> s + of_nat (Suc k)"
      by (intro Suc.prems(2)) auto
    then show "d + 1 + of_nat j \<noteq> s + 1 + of_nat k" by (simp add: algebra_simps)
  qed (use Suc.prems in simp)
  show ?case
  proof (cases "x = d")
    case True
    then have "unat (x - (d + 1)) = 2 ^ 64 - 1" by (simp add: unat_minus1_64)
    then show ?thesis using IH True Suc.prems by simp
  next
    case False
    then have u: "unat (x - d) = Suc (unat (x - (d + 1)))"
      using Suc_unat_minus_one [of "x - d"] by (simp add: algebra_simps)
    have "s + (x - d) \<noteq> d" if "unat (x - d) < Suc n"
      using Suc.prems(2) [of 0 "unat (x - d)"] u that by simp
    then show ?thesis using IH False u by (auto simp: algebra_simps)
  qed
qed

lemma memmove_back_eq:
  assumes "n \<le> 2 ^ 64"
    and "\<And>j k. j < k \<Longrightarrow> k < n \<Longrightarrow> d - of_nat (Suc j) \<noteq> s - of_nat (Suc k)"
  shows "memmove_back m d s n x = (if unat (d - 1 - x) < n then m (s - (d - x)) else m x)"
  using assms
proof (induction n arbitrary: m d s)
  case 0
  then show ?case by simp
next
  case (Suc n)
  have IH: "memmove_back (m(d - 1 := m (s - 1))) (d - 1) (s - 1) n x =
      (if unat (d - 1 - 1 - x) < n then (m(d - 1 := m (s - 1))) (s - 1 - (d - 1 - x))
       else (m(d - 1 := m (s - 1))) x)"
  proof (rule Suc.IH)
    fix j k :: nat
    assume "j < k" "k < n"
    then have "d - of_nat (Suc (Suc j)) \<noteq> s - of_nat (Suc (Suc k))"
      by (intro Suc.prems(2)) auto
    then show "d - 1 - of_nat (Suc j) \<noteq> s - 1 - of_nat (Suc k)" by (simp add: algebra_simps)
  qed (use Suc.prems in simp)
  show ?case
  proof (cases "x = d - 1")
    case True
    then have "unat (d - 1 - 1 - x) = 2 ^ 64 - 1" by (simp add: unat_minus1_64)
    then show ?thesis using IH True Suc.prems by simp
  next
    case False
    then have "d - 1 - x \<noteq> 0" by (metis right_minus_eq)
    then have u: "unat (d - 1 - x) = Suc (unat (d - 1 - 1 - x))"
      using Suc_unat_minus_one [of "d - 1 - x"] by (simp add: algebra_simps)
    have "s - (d - x) \<noteq> d - 1" if "unat (d - 1 - x) < Suc n"
    proof -
      have "d - of_nat (Suc 0) \<noteq> s - of_nat (Suc (unat (d - 1 - x)))"
        by (rule Suc.prems(2)) (use u that in auto)
      then show ?thesis by (auto simp: algebra_simps)
    qed
    then show ?thesis using IH False u by (auto simp: algebra_simps)
  qed
qed

text \<open>\<open>memmove\<close> copies as if through a temporary buffer, whatever the overlap, provided neither
  range wraps around the address space.\<close>

lemma memmove_eq:
  assumes src: "unat src + unat n < 2 ^ 64" and dst: "unat dst + unat n < 2 ^ 64"
  shows "memmove m dst src n = (\<lambda>x. if unat (x - dst) < unat n then m (src + (x - dst)) else m x)"
proof
  fix x
  let ?n = "ucast n :: u64"
  have n: "unat ?n = unat n" by (rule unat_ucast_32_64)
  have srcn: "unat (src + ?n) = unat src + unat n"
    using src n by (simp add: unat_word_ariths)
  consider "n = 0" | "n \<noteq> 0" "src < dst \<and> src + ?n > dst" | "n \<noteq> 0" "\<not> (src < dst \<and> src + ?n > dst)"
    by blast
  then show "memmove m dst src n x = (if unat (x - dst) < unat n then m (src + (x - dst)) else m x)"
  proof cases
    case 1
    then show ?thesis by (simp add: memmove_def)
  next
    case 2
    have "memmove_back m (dst + ?n) (src + ?n) (unat n) x =
        (if unat (dst + ?n - 1 - x) < unat n then m (src + ?n - (dst + ?n - x)) else m x)"
    proof (rule memmove_back_eq)
      show "unat n \<le> 2 ^ 64" using unat_less_2p32 [of n] by simp
      fix j k :: nat
      assume jk: "j < k" "k < unat n"
      show "dst + ?n - of_nat (Suc j) \<noteq> src + ?n - of_nat (Suc k)"
      proof
        assume "dst + ?n - of_nat (Suc j) = src + ?n - of_nat (Suc k)"
        then have "dst + of_nat k = src + of_nat j" by (simp add: algebra_simps)
        then have "unat (dst + of_nat k) = unat (src + of_nat j)" by simp
        then have "unat dst + k = unat src + j"
          using jk src dst by (simp add: unat_add_of_nat)
        then show False using jk 2 by (simp add: word_less_nat_alt)
      qed
    qed
    moreover have "unat (dst + ?n - 1 - x) < unat n \<longleftrightarrow> unat (x - dst) < unat n"
    proof -
      have e: "dst + ?n - 1 - x = ?n - 1 - (x - dst)" by simp
      have "unat (?n - 1 - y) < unat n \<longleftrightarrow> unat y < unat n" for y :: u64
      proof -
        have "0 < unat n" using 2 by (simp add: unat_gt_0)
        then have n1: "unat (?n - 1) = unat n - 1"
          using n by (metis unat_0 unat_minus_one less_numeral_extra(3))
        show ?thesis
          using \<open>0 < unat n\<close> n1 unat_less_2p64 [of y]
          by (auto simp: unat_sub_if' split: if_splits)
      qed
      then show ?thesis unfolding e .
    qed
    moreover have "src + ?n - (dst + ?n - x) = src + (x - dst)" by simp
    ultimately show ?thesis using 2 by (simp add: memmove_def)
  next
    case 3
    have "memmove_fwd m dst src (unat n) x =
        (if unat (x - dst) < unat n then m (src + (x - dst)) else m x)"
    proof (rule memmove_fwd_eq)
      show "unat n \<le> 2 ^ 64" using unat_less_2p32 [of n] by simp
      fix j k :: nat
      assume jk: "j < k" "k < unat n"
      show "dst + of_nat j \<noteq> src + of_nat k"
      proof
        assume "dst + of_nat j = src + of_nat k"
        then have "unat (dst + of_nat j) = unat (src + of_nat k)" by simp
        then have "unat dst + j = unat src + k"
          using jk src dst by (simp add: unat_add_of_nat)
        then show False using jk 3 srcn by (auto simp: word_less_nat_alt)
      qed
    qed
    then show ?thesis using 3 by (auto simp: memmove_def)
  qed
qed

section \<open>Strings\<close>

lemma strncmp_eq_0_iff:
  "strncmp p q n = 0 \<longleftrightarrow>
     (\<forall>i<n. p i = q i) \<or> (\<exists>k<n. p k = 0 \<and> (\<forall>i\<le>k. p i = q i))"
proof (induction n arbitrary: p q)
  case 0
  then show ?case by simp
next
  case (Suc n)
  show ?case
  proof (cases "p 0 = q 0")
    case True
    then show ?thesis
      using Suc.IH [of "\<lambda>i. p (Suc i)" "\<lambda>i. q (Suc i)"]
      by (simp add: All_less_Suc2 Ex_less_Suc2 all_le_Suc2)
  next
    case False
    then show ?thesis by (auto simp: All_less_Suc2 Ex_less_Suc2 all_le_Suc2)
  qed
qed

lemma strncpy_copy_eq:
  assumes "strncpy_copy s i t j n = (s', i', n')"
  shows "i' = i + (n - n') \<and> n' \<le> n \<and>
    (\<forall>k. s' k = (if i \<le> k \<and> k < i' then t (j + (k - i)) else s k)) \<and>
    (\<forall>k. k < i' - i \<longrightarrow> Suc k < i' - i \<longrightarrow> t (j + k) \<noteq> 0) \<and>
    (0 < n' \<longrightarrow> i < i' \<and> t (j + (i' - i - 1)) = 0)"
  using assms
proof (induction n arbitrary: s i j)
  case 0
  then show ?case by auto
next
  case (Suc n)
  show ?case
  proof (cases "t j = 0")
    case True
    with Suc.prems have "s' = s(i := 0)" "i' = Suc i" "n' = n" by auto
    with True show ?thesis by auto
  next
    case False
    with Suc.prems have "strncpy_copy (s(i := t j)) (Suc i) t (Suc j) n = (s', i', n')" by simp
    from Suc.IH [OF this] have IH: "i' = Suc i + (n - n')" "n' \<le> n"
      "\<And>k. s' k = (if Suc i \<le> k \<and> k < i' then t (Suc j + (k - Suc i)) else (s(i := t j)) k)"
      "\<And>k. k < i' - Suc i \<Longrightarrow> Suc k < i' - Suc i \<Longrightarrow> t (Suc j + k) \<noteq> 0"
      "0 < n' \<Longrightarrow> Suc i < i' \<and> t (Suc j + (i' - Suc i - 1)) = 0"
      by auto
    have "s' k = (if i \<le> k \<and> k < i' then t (j + (k - i)) else s k)" for k
      using IH(1-3) by (cases "k = i") (auto simp: Suc_diff_Suc)
    moreover have "t (j + k) \<noteq> 0" if "k < i' - i" "Suc k < i' - i" for k
      using that False IH(4) [of "k - 1"] by (cases k) auto
    moreover have "i < i' \<and> t (j + (i' - i - 1)) = 0" if "0 < n'"
      using IH(5) [OF that] by (auto simp: Suc_diff_Suc)
    ultimately show ?thesis using IH(1,2) by auto
  qed
qed

text \<open>\<open>strncpy\<close> copies the source up to its first NUL, fills the rest of the \<open>n\<close> bytes with NULs and
  leaves what follows them alone; with no NUL among the first \<open>n\<close> bytes the result is not
  terminated.\<close>

lemma strncpy_nth:
  "strncpy s t (int n) k =
     (if k < n then (if \<exists>j<k. t j = 0 then 0 else t k) else s k)"
proof -
  obtain s' i' n' where c: "strncpy_copy s 0 t 0 n = (s', i', n')"
    by (metis prod_cases3)
  note eq = strncpy_copy_eq [OF c, simplified]
  have "inj_on (\<lambda>i. i) {i'..<i' + n'}" by simp
  then have v: "strncpy s t (int n) k = (if i' \<le> k \<and> k < i' + n' then 0 else s' k)"
    using memset_loop_eq [of "\<lambda>i. i" i' n' s' 0 k] by (simp add: strncpy_def c)
  show ?thesis
  proof (cases "k < i'")
    case True
    then have "t j \<noteq> 0" if "j < k" for j using eq that by auto
    with True eq v show ?thesis by auto
  next
    case False
    then have "s' k = s k" using eq by auto
    moreover have "i' + n' = n" using eq by auto
    moreover have "\<exists>j<k. t j = 0" if "0 < n'"
    proof -
      have "t (i' - 1) = 0" "0 < i'" using eq that by auto
      moreover from this False have "i' - 1 < k" by arith
      ultimately show ?thesis by blast
    qed
    ultimately show ?thesis using False v by auto
  qed
qed

lemma safestrcpy_copy_eq:
  assumes "safestrcpy_copy s i t n = (s', i')"
  shows "i \<le> i' \<and> i' \<le> i + n \<and> (\<forall>k. s' k = (if i \<le> k \<and> k < i' then t k else s k)) \<and>
    (\<forall>k. i \<le> k \<and> Suc k < i' \<longrightarrow> t k \<noteq> 0) \<and>
    (i' < i + n \<longrightarrow> i < i' \<and> t (i' - 1) = 0)"
  using assms
proof (induction n arbitrary: s i)
  case 0
  then show ?case by auto
next
  case (Suc n)
  show ?case
  proof (cases "t i = 0")
    case True
    with Suc.prems have "s' = s(i := 0)" "i' = Suc i" by auto
    with True show ?thesis by auto
  next
    case False
    with Suc.prems have "safestrcpy_copy (s(i := t i)) (Suc i) t n = (s', i')" by simp
    from Suc.IH [OF this] have IH: "Suc i \<le> i'" "i' \<le> Suc i + n"
      "\<And>k. s' k = (if Suc i \<le> k \<and> k < i' then t k else (s(i := t i)) k)"
      "\<And>k. Suc i \<le> k \<Longrightarrow> Suc k < i' \<Longrightarrow> t k \<noteq> 0"
      "i' < Suc i + n \<Longrightarrow> Suc i < i' \<and> t (i' - 1) = 0"
      by auto
    have "s' k = (if i \<le> k \<and> k < i' then t k else s k)" for k
      using IH(1-3) by (cases "k = i") auto
    moreover have "t k \<noteq> 0" if "i \<le> k" "Suc k < i'" for k
      using that False IH(4) [of k] by (cases "k = i") auto
    ultimately show ?thesis using IH by auto
  qed
qed

text \<open>\<open>safestrcpy\<close> stores a NUL among the first \<open>n\<close> bytes, and before it the source's bytes.\<close>

lemma safestrcpy_terminated:
  assumes "0 < n"
  shows "\<exists>k<n. safestrcpy s t (int n) k = 0 \<and> (\<forall>j<k. safestrcpy s t (int n) j = t j) \<and>
    (\<forall>j\<ge>n. safestrcpy s t (int n) j = s j)"
proof -
  obtain s' i' where c: "safestrcpy_copy s 0 t (n - 1) = (s', i')"
    by (metis surj_pair)
  from safestrcpy_copy_eq [OF this] have eq: "i' \<le> n - 1"
    "\<And>k. s' k = (if k < i' then t k else s k)" by auto
  have "nat (int n - 1) = n - 1" by simp
  then have v: "safestrcpy s t (int n) = s'(i' := 0)"
    using assms c by (simp add: safestrcpy_def)
  show ?thesis
    by (rule exI [of _ i']) (use assms eq v in auto)
qed

lemma strlen_from_Some:
  assumes "s (n + k) = 0" and "\<And>i. i < k \<Longrightarrow> s (n + i) \<noteq> 0"
  shows "strlen_from s n = Some (n + k)"
  using assms
proof (induction k arbitrary: n)
  case 0
  then show ?case by (simp add: strlen_from.simps)
next
  case (Suc k)
  have "strlen_from s (Suc n) = Some (Suc n + k)"
  proof (rule Suc.IH)
    show "s (Suc n + k) = 0" using Suc.prems(1) by simp
    show "s (Suc n + i) \<noteq> 0" if "i < k" for i using Suc.prems(2) [of "Suc i"] that by simp
  qed
  moreover have "s n \<noteq> 0" using Suc.prems(2) [of 0] by simp
  ultimately show ?case by (simp add: strlen_from.simps [of s n])
qed

text \<open>\<open>strlen\<close> returns on every terminated string, with the offset of its first NUL.\<close>

lemma strlen_Some:
  assumes "s k = 0" and "\<And>i. i < k \<Longrightarrow> s i \<noteq> 0"
  shows "strlen s = Some k"
  using strlen_from_Some [of s 0 k] assms by (simp add: strlen_def)

section \<open>Properties\<close>

text \<open>C28. \<open>memmove\<close> is a simultaneous copy: whatever the overlap of source and destination, every byte of the destination
  gets the byte the source had before the call, and no other byte changes.\<close>

theorem memmove_copies:
  assumes "unat src + unat n < 2 ^ 64" "unat dst + unat n < 2 ^ 64"
  shows "memmove m dst src n = (\<lambda>x. if unat (x - dst) < unat n then m (src + (x - dst)) else m x)"
  using assms by (rule memmove_eq)

theorem memmove_copies_witness:
  "memmove (\<lambda>x. ucast x) 4 0 8 = (\<lambda>x. if unat (x - 4) < 8 then ucast (0 + (x - 4)) else ucast x)"
  using memmove_copies [of 0 8 4 "\<lambda>x. ucast x"] by simp

text \<open>C32. \<open>safestrcpy\<close> always leaves a NUL-terminated string in a buffer that is not empty: a prefix of the source, and
  nothing behind the buffer is touched.\<close>

theorem safestrcpy_terminates:
  assumes "0 < n"
  shows "\<exists>k<n. safestrcpy s t (int n) k = 0 \<and> (\<forall>j<k. safestrcpy s t (int n) j = t j) \<and>
    (\<forall>j\<ge>n. safestrcpy s t (int n) j = s j)"
  using assms by (rule safestrcpy_terminated)

theorem safestrcpy_terminates_witness:
  "\<exists>k<2. safestrcpy (\<lambda>_. 9) (\<lambda>_. 7) 2 k = 0 \<and> safestrcpy (\<lambda>_. 9) (\<lambda>_. 7) 2 2 = 9"
  using safestrcpy_terminates [of 2 "\<lambda>_. 9" "\<lambda>_. 7"] by auto

end
