(* ===== verification/Kalloc.thy ===== *)
theory Kalloc
  imports Printf Kstring
begin

text \<open>
  \<open>kernel/kalloc.c\<close>: the physical page allocator.

  Physical memory is byte addressed; the free list runs through the first eight bytes of every free
  page, as in the code.  The invariant \<open>kmem_inv xs\<close> says that the list starting at \<open>freelist\<close> is
  exactly \<open>xs\<close>, that its pages are distinct, aligned and inside the managed range.  The allocator
  meets the contract \<open>page_allocator\<close> that its clients rely on, and \<open>kinit\<close> establishes it.
\<close>

section \<open>State and operations\<close>

record kmem_state = uart_state +
  mem :: memory
  freelist :: u64
  kend :: u64

definition kfree :: "u64 \<Rightarrow> (unit, 'a kmem_state_scheme) routine" where
  "kfree pa =
     bind (gets kend) (\<lambda>e.
     if pa mod PGSIZE \<noteq> 0 \<or> pa < e \<or> pa \<ge> PHYSTOP then panic ''kfree'' else
     seq (modify (\<lambda>s. s\<lparr>mem := memset (mem s) pa 1 4096\<rparr>)) (
     seq (acquire KmemLock) (
     seq (modify (\<lambda>s. s\<lparr>mem := store64 (mem s) pa (freelist s)\<rparr>)) (
     seq (modify (\<lambda>s. s\<lparr>freelist := pa\<rparr>)) (
     release KmemLock)))))"

definition kalloc :: "(u64, 'a kmem_state_scheme) routine" where
  "kalloc =
     seq (acquire KmemLock) (
     bind (gets freelist) (\<lambda>r.
     seq (only_if (r \<noteq> 0) (modify (\<lambda>s. s\<lparr>freelist := load64 (mem s) r\<rparr>))) (
     seq (release KmemLock) (
     seq (only_if (r \<noteq> 0) (modify (\<lambda>s. s\<lparr>mem := memset (mem s) r 5 4096\<rparr>))) (
     ret r)))))"

text \<open>A pointer increment that leaves the address space is undefined.\<close>

function freerange_loop :: "u64 \<Rightarrow> u64 \<Rightarrow> (unit, 'a kmem_state_scheme) routine" where
  "freerange_loop p pa_end =
     (if p + PGSIZE < p then undef ''freerange''
      else if p + PGSIZE \<le> pa_end then seq (kfree p) (freerange_loop (p + PGSIZE) pa_end)
      else skip)"
  by pat_completeness auto
termination
proof (relation "measure (\<lambda>(p, _). 2 ^ 64 - unat p)")
  fix p pa_end :: u64
  assume "\<not> p + PGSIZE < p"
  then have "unat p \<le> unat (p + PGSIZE)" by (simp add: word_le_nat_alt not_less)
  moreover have "unat (p + PGSIZE) \<noteq> unat p" by (simp flip: word_unat_eq_iff)
  ultimately show "((p + PGSIZE, pa_end), p, pa_end) \<in> measure (\<lambda>(p, _). 2 ^ 64 - unat p)"
    using unat_less_2p64 [of "p + PGSIZE"] by simp
qed simp

declare freerange_loop.simps [simp del]

definition freerange :: "u64 \<Rightarrow> u64 \<Rightarrow> (unit, 'a kmem_state_scheme) routine" where
  "freerange pa_start pa_end = freerange_loop (PGROUNDUP pa_start) pa_end"

definition kinit :: "(unit, 'a kmem_state_scheme) routine" where
  "kinit = seq (initlock KmemLock ''kmem'') (bind (gets kend) (\<lambda>e. freerange e PHYSTOP))"

section \<open>The free list\<close>

fun flist :: "memory \<Rightarrow> u64 \<Rightarrow> u64 list \<Rightarrow> bool" where
  "flist m h [] \<longleftrightarrow> h = 0"
| "flist m h (x # xs) \<longleftrightarrow> h = x \<and> flist m (load64 m x) xs"

definition page_ok :: "u64 \<Rightarrow> u64 \<Rightarrow> bool" where
  "page_ok e pa \<longleftrightarrow> aligned pa \<and> pa \<noteq> 0 \<and> e \<le> pa \<and> pa < PHYSTOP"

definition kmem_inv :: "u64 list \<Rightarrow> 'a kmem_state_scheme \<Rightarrow> bool" where
  "kmem_inv xs s \<longleftrightarrow> lock_free KmemLock (ctl s) \<and> flist (mem s) (freelist s) xs \<and> distinct xs \<and>
     (\<forall>x\<in>set xs. page_ok (kend s) x)"

lemma flist_cong: "same_on (set xs) m m' \<Longrightarrow> flist m h xs = flist m' h xs"
proof (induction xs arbitrary: h)
  case Nil
  then show ?case by simp
next
  case (Cons x xs)
  have "load64 m (x + of_nat 0) = load64 m' (x + of_nat 0)"
    by (rule same_on_load64 [OF Cons.prems]) simp_all
  moreover have "same_on (set xs) m m'" using Cons.prems by (rule same_on_mono) auto
  ultimately show ?case using Cons.IH by simp
qed

text \<open>A free list in memory is determined by its head.\<close>

lemma flist_unique: "flist m h xs \<Longrightarrow> flist m h ys \<Longrightarrow> 0 \<notin> set xs \<Longrightarrow> 0 \<notin> set ys \<Longrightarrow> xs = ys"
proof (induction xs arbitrary: h ys)
  case Nil
  then show ?case by (cases ys) auto
next
  case (Cons x xs)
  then show ?case by (cases ys) auto
qed

lemma memset_page: "memset m p c 4096 = (\<lambda>x. if in_page p x then c else m x)"
  by (simp add: memset_eq in_page_def)

lemma same_on_memset_page:
  "aligned p \<Longrightarrow> \<forall>q\<in>P. aligned q \<and> q \<noteq> p \<Longrightarrow> same_on P m (memset m p c 4096)"
  using pages_disjoint [of p] by (auto simp: same_on_def memset_page)

section \<open>Correctness\<close>

lemma kfree_eq:
  assumes "page_ok (kend s) pa" "lock_free KmemLock (ctl s)"
  shows "kfree pa s = (Ret (), s\<lparr>mem := store64 (memset (mem s) pa 1 4096) pa (freelist s),
    freelist := pa, ctl := settle (ctl s)\<rparr>)"
  using assms by (auto simp: kfree_def kdefs page_ok_def aligned_def acquire_ok release_ok not_less not_le)

lemma kfree_bad: "\<not> page_ok (kend s) pa \<Longrightarrow> pa \<noteq> 0 \<Longrightarrow> kfree pa s = (Panic ''kfree'', s)"
  by (auto simp: kfree_def kdefs page_ok_def aligned_def not_less not_le)

lemma kalloc_empty:
  assumes "freelist s = 0" "lock_free KmemLock (ctl s)"
  shows "kalloc s = (Ret 0, s\<lparr>ctl := settle (ctl s)\<rparr>)"
  using assms by (simp add: kalloc_def kdefs acquire_ok release_ok)

lemma kalloc_eq:
  assumes "freelist s \<noteq> 0" "lock_free KmemLock (ctl s)"
  shows "kalloc s = (Ret (freelist s), s\<lparr>freelist := load64 (mem s) (freelist s), ctl := settle (ctl s),
    mem := memset (mem s) (freelist s) 5 4096\<rparr>)"
  using assms by (simp add: kalloc_def kdefs acquire_ok release_ok)

lemma same_on_kfree:
  assumes "aligned pa" "\<forall>q\<in>P. aligned q \<and> q \<noteq> pa"
  shows "same_on P m (store64 (memset m pa 1 4096) pa v)"
proof (rule same_on_trans)
  show "same_on P m (memset m pa 1 4096)" using assms by (rule same_on_memset_page)
  show "same_on P (memset m pa 1 4096) (store64 (memset m pa 1 4096) pa v)"
    using same_on_store64 [of pa 0 P] assms by simp
qed

lemma kfree_inv:
  assumes "kmem_inv xs s" "page_ok (kend s) pa" "pa \<notin> set xs"
  shows "kmem_inv (pa # xs) (s\<lparr>mem := store64 (memset (mem s) pa 1 4096) pa (freelist s),
    freelist := pa, ctl := settle (ctl s)\<rparr>)"
proof -
  have "same_on (set xs) (mem s) (store64 (memset (mem s) pa 1 4096) pa (freelist s))"
    using assms by (intro same_on_kfree) (auto simp: kmem_inv_def page_ok_def)
  then show ?thesis using assms by (simp add: kmem_inv_def flist_cong)
qed

lemma kalloc_inv:
  assumes "kmem_inv (x # xs) s"
  shows "kmem_inv xs (s\<lparr>freelist := load64 (mem s) x, ctl := settle (ctl s),
    mem := memset (mem s) x 5 4096\<rparr>)"
proof -
  have "same_on (set xs) (mem s) (memset (mem s) x 5 4096)"
    using assms by (intro same_on_memset_page) (auto simp: kmem_inv_def page_ok_def)
  then show ?thesis using assms by (simp add: kmem_inv_def flist_cong)
qed

section \<open>The contract of a page allocator\<close>

primrec repeated :: "nat \<Rightarrow> ('a, 's) routine \<Rightarrow> ('a list, 's) routine" where
  "repeated 0 m = ret []"
| "repeated (Suc n) m = bind m (\<lambda>x. bind (repeated n m) (\<lambda>xs. ret (x # xs)))"

text \<open>\<open>inv xs s\<close>: the allocator is usable in \<open>s\<close> and its free pages are \<open>xs\<close>, in the order in which
  they will be handed out; \<open>memory_of\<close> is the memory the pages live in and \<open>owned s p\<close> says that \<open>p\<close>
  is a page it manages.\<close>

locale page_allocator =
  fixes alloc :: "(u64, 's) routine"
    and free :: "u64 \<Rightarrow> (unit, 's) routine"
    and inv :: "u64 list \<Rightarrow> 's \<Rightarrow> bool"
    and owned :: "'s \<Rightarrow> u64 \<Rightarrow> bool"
    and memory_of :: "'s \<Rightarrow> memory"
  assumes inv_pages: "inv xs s \<Longrightarrow> distinct xs \<and> 0 \<notin> set xs \<and> (\<forall>x\<in>set xs. owned s x \<and> aligned x)"
    and alloc_none: "inv [] s \<Longrightarrow> \<exists>s'. alloc s = (Ret 0, s') \<and> inv [] s' \<and> memory_of s' = memory_of s \<and>
          owned s' = owned s"
    and alloc_some: "inv (x # xs) s \<Longrightarrow> \<exists>s'. alloc s = (Ret x, s') \<and> inv xs s' \<and> owned s' = owned s \<and>
          (\<forall>P. (\<forall>q\<in>P. aligned q \<and> q \<noteq> x) \<longrightarrow> same_on P (memory_of s) (memory_of s'))"
    and free_some: "inv xs s \<Longrightarrow> owned s p \<Longrightarrow> p \<notin> set xs \<Longrightarrow>
          \<exists>s'. free p s = (Ret (), s') \<and> inv (p # xs) s' \<and> owned s' = owned s \<and>
          (\<forall>P. (\<forall>q\<in>P. aligned q \<and> q \<noteq> p) \<longrightarrow> same_on P (memory_of s) (memory_of s'))"
begin

text \<open>A sequence of allocations hands out the free list in order, and 0 when it is used up.\<close>

lemma alloc_many:
  "inv xs s \<Longrightarrow> \<exists>s'. repeated n alloc s = (Ret (take n xs @ replicate (n - length xs) 0), s') \<and> inv (drop n xs) s'"
proof (induction n arbitrary: xs s)
  case 0
  then show ?case by (simp add: ret_def)
next
  case (Suc n)
  define x where "x = (case xs of [] \<Rightarrow> 0 | y # _ \<Rightarrow> y)"
  obtain t where t: "alloc s = (Ret x, t)" "inv (tl xs) t"
    using Suc.prems alloc_none [of s] alloc_some [of "hd xs" "tl xs" s] by (cases xs) (auto simp: x_def)
  obtain s' where "repeated n alloc t = (Ret (take n (tl xs) @ replicate (n - length (tl xs)) 0), s')" "inv (drop n (tl xs)) s'"
    using Suc.IH [OF t(2)] by blast
  then show ?case using t(1) by (cases xs) (auto simp: bind_def ret_def x_def)
qed

text \<open>What is given back is handed out next, and the rest of the free list is as before.\<close>

lemma free_then_alloc:
  assumes "inv xs s" "owned s p" "p \<notin> set xs"
  shows "\<exists>s1 s2. free p s = (Ret (), s1) \<and> alloc s1 = (Ret p, s2) \<and> inv xs s2"
  using free_some [OF assms] alloc_some by meson

lemma alloc_then_free:
  assumes "inv (x # xs) s"
  shows "\<exists>s1 s2. alloc s = (Ret x, s1) \<and> free x s1 = (Ret (), s2) \<and> inv (x # xs) s2"
proof -
  obtain s1 where s1: "alloc s = (Ret x, s1)" "inv xs s1" "owned s1 = owned s"
    using alloc_some [OF assms] by blast
  have "owned s1 x" "x \<notin> set xs" using inv_pages [OF assms] s1(3) by auto
  then show ?thesis using free_some [OF s1(2)] s1(1) by blast
qed

text \<open>Pages in use (managed, but not on the free list) keep their contents across an allocation.\<close>

lemma alloc_keeps:
  assumes "inv xs s" "alloc s = (Ret p, s')" "\<forall>q\<in>P. aligned q \<and> q \<notin> set xs"
  shows "same_on P (memory_of s) (memory_of s')"
proof (cases xs)
  case Nil
  then show ?thesis using assms alloc_none [of s] by auto
next
  case (Cons x ys)
  then show ?thesis using assms alloc_some [of x ys s] by auto
qed

end

interpretation km: page_allocator kalloc kfree kmem_inv "\<lambda>s. page_ok (kend s)" mem
proof
  fix xs x p and s :: "'a kmem_state_scheme"
  show "kmem_inv xs s \<Longrightarrow> distinct xs \<and> 0 \<notin> set xs \<and> (\<forall>x\<in>set xs. page_ok (kend s) x \<and> aligned x)"
    by (auto simp: kmem_inv_def page_ok_def)
  show "\<exists>s'. kalloc s = (Ret 0, s') \<and> kmem_inv [] s' \<and> mem s' = mem s \<and>
      page_ok (kend s') = page_ok (kend s)" if "kmem_inv [] s"
    using that by (simp add: kalloc_empty kmem_inv_def)
  show "\<exists>s'. kalloc s = (Ret x, s') \<and> kmem_inv xs s' \<and> page_ok (kend s') = page_ok (kend s) \<and>
      (\<forall>P. (\<forall>q\<in>P. aligned q \<and> q \<noteq> x) \<longrightarrow> same_on P (mem s) (mem s'))" if i: "kmem_inv (x # xs) s"
  proof -
    have "freelist s = x" "x \<noteq> 0" "aligned x" "lock_free KmemLock (ctl s)"
      using i by (auto simp: kmem_inv_def page_ok_def)
    then show ?thesis
      using kalloc_inv [OF i] by (simp add: kalloc_eq same_on_memset_page)
  qed
  show "\<exists>s'. kfree p s = (Ret (), s') \<and> kmem_inv (p # xs) s' \<and> page_ok (kend s') = page_ok (kend s) \<and>
      (\<forall>P. (\<forall>q\<in>P. aligned q \<and> q \<noteq> p) \<longrightarrow> same_on P (mem s) (mem s'))"
    if i: "kmem_inv xs s" "page_ok (kend s) p" "p \<notin> set xs"
  proof -
    have "lock_free KmemLock (ctl s)" "aligned p" using i by (auto simp: kmem_inv_def page_ok_def)
    then show ?thesis
      using kfree_inv [OF i] i by (simp add: kfree_eq same_on_kfree)
  qed
qed

section \<open>Initialisation\<close>

fun page_range :: "u64 \<Rightarrow> nat \<Rightarrow> u64 list" where
  "page_range p 0 = []"
| "page_range p (Suc n) = p # page_range (p + PGSIZE) n"

lemma freerange_loop_ok:
  assumes "kmem_inv xs s" "unat p + 4096 * n \<le> unat pa_end" "unat pa_end < unat p + 4096 * n + 4096"
    and "pa_end \<le> PHYSTOP" "aligned p" "p \<noteq> 0" "kend s \<le> p" "\<forall>x\<in>set xs. x < p"
  shows "\<exists>s'. freerange_loop p pa_end s = (Ret (), s') \<and> kmem_inv (rev (page_range p n) @ xs) s'"
  using assms
proof (induction n arbitrary: p s xs)
  case 0
  have "unat pa_end \<le> 0x88000000" using "0.prems"(4) by (simp add: word_le_nat_alt)
  then have "unat (p + PGSIZE) = unat p + 4096"
    using "0.prems"(2) by (simp add: unat_word_ariths)
  then have "\<not> p + PGSIZE < p" "\<not> p + PGSIZE \<le> pa_end"
    using "0.prems"(3) by (simp_all add: word_le_nat_alt word_less_nat_alt)
  then show ?case using "0.prems"(1) by (simp add: freerange_loop.simps [of p] skip_def ret_def)
next
  case (Suc n)
  have e: "unat pa_end \<le> 0x88000000" using Suc.prems(4) by (simp add: word_le_nat_alt)
  then have u: "unat (p + PGSIZE) = unat p + 4096"
    using Suc.prems(2) by (simp add: unat_word_ariths)
  then have c: "\<not> p + PGSIZE < p" "p + PGSIZE \<le> pa_end" "p < p + PGSIZE"
    using Suc.prems(2) by (simp_all add: word_le_nat_alt word_less_nat_alt)
  have ok: "page_ok (kend s) p" "p \<notin> set xs"
    using Suc.prems e by (auto simp: page_ok_def word_less_nat_alt)
  then obtain s1 where s1: "kfree p s = (Ret (), s1)" "kmem_inv (p # xs) s1" "kend s1 = kend s"
    using kfree_inv [OF Suc.prems(1)] Suc.prems(1) by (simp add: kfree_eq kmem_inv_def)
  have "\<exists>s'. freerange_loop (p + PGSIZE) pa_end s1 = (Ret (), s') \<and>
      kmem_inv (rev (page_range (p + PGSIZE) n) @ p # xs) s'"
  proof (rule Suc.IH)
    show "p + PGSIZE \<noteq> 0" using u by auto
    show "kend s1 \<le> p + PGSIZE" using s1 Suc.prems(7) c by auto
    show "\<forall>x\<in>set (p # xs). x < p + PGSIZE" using c(3) Suc.prems(8) by auto
  qed (use s1 Suc.prems u in auto)
  then show ?case using c s1(1) by (simp add: freerange_loop.simps [of p] seq_def bind_def)
qed

text \<open>C17. The allocator is set up completely: from boot, \<open>kinit\<close> returns with every whole page between
  the end of the kernel and \<open>PHYSTOP\<close> on the free list, once, and with the allocator's invariant.\<close>

theorem kinit_all_pages:
  assumes "0 < kend s" "kend s \<le> PHYSTOP" "freelist s = 0"
  shows "\<exists>s'. kinit s = (Ret (), s') \<and>
    kmem_inv (rev (page_range (PGROUNDUP (kend s))
      ((0x88000000 - unat (PGROUNDUP (kend s))) div 4096))) s'"
proof -
  let ?p = "PGROUNDUP (kend s)"
  let ?n = "(0x88000000 - unat ?p) div 4096"
  let ?t = "s\<lparr>ctl := (ctl s)\<lparr>locks := (locks (ctl s))
    (KmemLock := \<lparr>locked = False, lname = ''kmem'', lcpu = None\<rparr>)\<rparr>\<rparr>"
  have e: "0 < unat (kend s)" "unat (kend s) \<le> 0x88000000"
    using assms by (simp_all add: word_le_nat_alt word_less_nat_alt)
  then have up: "unat ?p = (unat (kend s) + 4095) div 4096 * 4096" by (simp add: unat_PGROUNDUP)
  moreover have "(unat (kend s) + 4095) div 4096 \<le> (0x88000000 + 4095) div 4096"
    using e(2) by (intro div_le_mono) simp
  ultimately have p: "unat (kend s) \<le> unat ?p" "unat ?p \<le> 0x88000000" by simp_all
  have "\<exists>s'. freerange_loop ?p PHYSTOP ?t = (Ret (), s') \<and> kmem_inv (rev (page_range ?p ?n) @ []) s'"
  proof (rule freerange_loop_ok)
    show "kmem_inv [] ?t" using assms(3) by (simp add: kmem_inv_def lock_free_def)
    show "unat ?p + 4096 * ?n \<le> unat PHYSTOP" "unat PHYSTOP < unat ?p + 4096 * ?n + 4096"
      using p by simp_all
    show "?p \<noteq> 0" using p e by auto
    show "kend ?t \<le> ?p" using p by (simp add: word_le_nat_alt)
  qed simp_all
  then show ?thesis
    by (simp add: kinit_def freerange_def initlock_def kdefs)
qed

text \<open>A machine at boot: the kernel ends at \<open>0x80021530\<close>.\<close>

definition kboot :: kmem_state where
  "kboot = \<lparr>ctl = idle_ctl 0, uart_lsr = 32, uart_rx = [], uart_log = [], panicking = False, panicked = False,
     mem = (\<lambda>_. 0), freelist = 0, kend = 0x80021530\<rparr>"

theorem kinit_all_pages_witness:
  "kend kboot = 0x80021530 \<and> (\<exists>s'. kinit kboot = (Ret (), s') \<and>
    kmem_inv (rev (page_range (PGROUNDUP (kend kboot)) ((0x88000000 - unat (PGROUNDUP (kend kboot))) div 4096))) s')"
proof -
  have "0 < kend kboot" "kend kboot \<le> PHYSTOP" "freelist kboot = 0" by (simp_all add: kboot_def)
  from kinit_all_pages [OF this] show ?thesis by (simp add: kboot_def)
qed

text \<open>C26. The allocator never hands out a page twice: \<open>n\<close> calls in a row return the first \<open>n\<close> pages of the free list, which
  are pairwise different, and then 0; the rest stays free.\<close>

theorem kalloc_sequence:
  assumes "kmem_inv xs s"
  shows "\<exists>s'. repeated n kalloc s = (Ret (take n xs @ replicate (n - length xs) 0), s') \<and> kmem_inv (drop n xs) s' \<and>
    distinct (take n xs)"
  using km.alloc_many [OF assms, of n] km.inv_pages [OF assms] by (auto simp: distinct_take)

lemma kboot_inv: "kmem_inv [] kboot" "page_ok (kend kboot) 0x80100000"
  by (simp_all add: kmem_inv_def kboot_def page_ok_def aligned_def)

text \<open>The machine at boot with one page given to the allocator.\<close>

definition kboot1 :: kmem_state where
  "kboot1 = kboot\<lparr>freelist := 0x80100000\<rparr>"

theorem kalloc_sequence_witness:
  "\<exists>s'. repeated 2 kalloc kboot1 = (Ret [0x80100000, 0], s') \<and> kmem_inv [] s'"
proof -
  have "kmem_inv [0x80100000] kboot1"
    by (simp add: kmem_inv_def kboot1_def kboot_def page_ok_def aligned_def load64_def mem_get_def upt_rec)
  then show ?thesis using kalloc_sequence [of "[0x80100000]" kboot1 2] by (simp add: numeral_2_eq_2)
qed

text \<open>C30. A page that is given back is the next one to be handed out, and the rest of the free list is as before.\<close>

theorem kfree_kalloc:
  assumes "kmem_inv xs s" "page_ok (kend s) p" "p \<notin> set xs"
  shows "\<exists>s1 s2. kfree p s = (Ret (), s1) \<and> kalloc s1 = (Ret p, s2) \<and> kmem_inv xs s2"
  using assms by (rule km.free_then_alloc)

theorem kfree_kalloc_witness:
  "\<exists>s1 s2. kfree 0x80100000 kboot = (Ret (), s1) \<and> kalloc s1 = (Ret 0x80100000, s2) \<and> kmem_inv [] s2"
  using kfree_kalloc [of "[]" kboot "0x80100000"] kboot_inv by simp

end
