(* ===== verification/Proc.thy ===== *)
theory Proc
  imports Kalloc
begin

text \<open>
  The process table and the scheduler of \<open>kernel/proc.c\<close>, \<open>kernel/proc.h\<close>: everything that does not
  touch page tables or files.

  A process is named by its index in the table.  \<open>sched\<close> ends in the outcome \<open>Swtch\<close>: the processor
  leaves for the scheduler; what the process does when it is switched back to is a routine of its
  own (\<open>sched_resume\<close>, \<open>sleep_resume\<close>, \<open>yield_resume\<close>).
\<close>

section \<open>State\<close>

datatype procstate = UNUSED | USED | SLEEPING | RUNNABLE | RUNNING | ZOMBIE

text \<open>What a process can sleep on: the address of the object, named.\<close>

datatype chan =
    ChanProc nat | ChanTicks | ChanSl sl_id | ChanBuf nat | ChanDiskFree | ChanLog
  | ChanPipeRead u64 | ChanPipeWrite u64 | ChanConsR | ChanTx

record kcontext =
  ctx_ra :: u64
  ctx_sp :: u64
  ctx_s :: "nat \<Rightarrow> u64"

record proc =
  pstate :: procstate
  pchan :: "chan option"
  pkilled :: bool
  xstate :: int
  pid :: int
  parent :: "nat option"
  kstack :: u64
  sz :: u64
  pagetable :: u64
  trapframe :: u64
  pcontext :: kcontext
  ofile :: "nat \<Rightarrow> nat option"
  cwd :: "nat option"
  pname :: cstring

record proc_state = kmem_state +
  procs :: "nat \<Rightarrow> proc"
  nextpid :: int
  initproc :: "nat option"
  klocal :: block

definition upd_proc :: "nat \<Rightarrow> (proc \<Rightarrow> proc) \<Rightarrow> (unit, 'a proc_state_scheme) routine" where
  "upd_proc i f = modify (\<lambda>s. s\<lparr>procs := (procs s)(i := f (procs s i))\<rparr>)"

section \<open>The current process\<close>

definition cpuid :: "(nat, 'a proc_state_scheme) routine" where
  "cpuid = gets (\<lambda>s. hartid (ctl s))"

definition myproc :: "(nat option, 'a proc_state_scheme) routine" where
  "myproc =
     seq push_off (
     bind (gets (\<lambda>s. cproc (mycpu (ctl s)))) (\<lambda>p.
     seq pop_off (ret p)))"

text \<open>\<open>myproc()->...\<close>: following a null pointer is undefined.\<close>

definition this_proc :: "(nat, 'a proc_state_scheme) routine" where
  "this_proc = bind myproc (\<lambda>p. case p of None \<Rightarrow> undef ''myproc'' | Some i \<Rightarrow> ret i)"

section \<open>Operations\<close>

definition procinit :: "(unit, 'a proc_state_scheme) routine" where
  "procinit =
     seq (initlock PidLock ''nextpid'') (
     seq (initlock WaitLock ''wait_lock'') (
     for_each [0..<NPROC] (\<lambda>i.
       seq (initlock (ProcLock i) ''proc'') (
       seq (upd_proc i (pstate_update (\<lambda>_. UNUSED))) (
       upd_proc i (kstack_update (\<lambda>_. KSTACK i)))))))"

text \<open>Signed overflow of \<open>nextpid\<close> is undefined.\<close>

definition allocpid :: "(int, 'a proc_state_scheme) routine" where
  "allocpid =
     seq (acquire PidLock) (
     bind (gets nextpid) (\<lambda>pid.
     if pid = 2 ^ 31 - 1 then undef ''allocpid'' else
     seq (modify (\<lambda>s. s\<lparr>nextpid := nextpid s + 1\<rparr>)) (
     seq (release PidLock) (
     ret pid))))"

definition sched :: "('b, 'a proc_state_scheme) routine" where
  "sched =
     bind this_proc (\<lambda>p.
     bind (holding (ProcLock p)) (\<lambda>h.
     if \<not> h then panic ''sched p->lock'' else
     bind (gets (\<lambda>s. noff (mycpu (ctl s)))) (\<lambda>n.
     if n \<noteq> 1 then panic ''sched locks'' else
     bind (gets (\<lambda>s. pstate (procs s p))) (\<lambda>st.
     if st = RUNNING then panic ''sched RUNNING'' else
     bind intr_get (\<lambda>i.
     if i then panic ''sched interruptible'' else
     fail Swtch)))))"

definition sched_resume :: "bool \<Rightarrow> (unit, 'a proc_state_scheme) routine" where
  "sched_resume ena = modify (\<lambda>s. s\<lparr>ctl := upd_mycpu (intena_update (\<lambda>_. ena)) (ctl s)\<rparr>)"

definition yield :: "(unit, 'a proc_state_scheme) routine" where
  "yield =
     bind this_proc (\<lambda>p.
     seq (acquire (ProcLock p)) (
     seq (upd_proc p (pstate_update (\<lambda>_. RUNNABLE))) (
     sched)))"

definition yield_resume :: "nat \<Rightarrow> bool \<Rightarrow> (unit, 'a proc_state_scheme) routine" where
  "yield_resume p ena = seq (sched_resume ena) (release (ProcLock p))"

definition sleep :: "chan \<Rightarrow> lock_id \<Rightarrow> ('b, 'a proc_state_scheme) routine" where
  "sleep ch lk =
     bind this_proc (\<lambda>p.
     seq (acquire (ProcLock p)) (
     seq (release lk) (
     seq (upd_proc p (pchan_update (\<lambda>_. Some ch))) (
     seq (upd_proc p (pstate_update (\<lambda>_. SLEEPING))) (
     sched)))))"

definition sleep_resume :: "nat \<Rightarrow> lock_id \<Rightarrow> bool \<Rightarrow> (unit, 'a proc_state_scheme) routine" where
  "sleep_resume p lk ena =
     seq (sched_resume ena) (
     seq (upd_proc p (pchan_update (\<lambda>_. None))) (
     seq (release (ProcLock p)) (
     acquire lk)))"

definition wakeup :: "chan \<Rightarrow> (unit, 'a proc_state_scheme) routine" where
  "wakeup ch =
     for_each [0..<NPROC] (\<lambda>i.
       bind myproc (\<lambda>me.
       if Some i = me then skip else
       seq (acquire (ProcLock i)) (
       bind (gets (\<lambda>s. pstate (procs s i) = SLEEPING \<and> pchan (procs s i) = Some ch)) (\<lambda>w.
       seq (only_if w (upd_proc i (pstate_update (\<lambda>_. RUNNABLE)))) (
       release (ProcLock i))))))"

definition kkill_at :: "int \<Rightarrow> nat \<Rightarrow> (int option, 'a proc_state_scheme) routine" where
  "kkill_at k i =
     seq (acquire (ProcLock i)) (
     bind (gets (\<lambda>s. pid (procs s i) = k)) (\<lambda>hit.
     if hit then
       seq (upd_proc i (pkilled_update (\<lambda>_. True))) (
       bind (gets (\<lambda>s. pstate (procs s i) = SLEEPING)) (\<lambda>sl.
       seq (only_if sl (upd_proc i (pstate_update (\<lambda>_. RUNNABLE)))) (
       seq (release (ProcLock i)) (
       ret (Some 0)))))
     else seq (release (ProcLock i)) (ret None)))"

definition kkill :: "int \<Rightarrow> (int, 'a proc_state_scheme) routine" where
  "kkill k = bind (for_until [0..<NPROC] (kkill_at k)) (\<lambda>r. ret (case r of None \<Rightarrow> - 1 | Some v \<Rightarrow> v))"

definition setkilled :: "nat \<Rightarrow> (unit, 'a proc_state_scheme) routine" where
  "setkilled p =
     seq (acquire (ProcLock p)) (
     seq (upd_proc p (pkilled_update (\<lambda>_. True))) (
     release (ProcLock p)))"

definition killed :: "nat \<Rightarrow> (bool, 'a proc_state_scheme) routine" where
  "killed p =
     seq (acquire (ProcLock p)) (
     bind (gets (\<lambda>s. pkilled (procs s p))) (\<lambda>k.
     seq (release (ProcLock p)) (
     ret k)))"

text \<open>The children of a process without a parent of their own go to \<open>initproc\<close>; waking a null
  \<open>initproc\<close> would wake nobody, since no process sleeps on address 0.\<close>

definition reparent :: "nat \<Rightarrow> (unit, 'a proc_state_scheme) routine" where
  "reparent p =
     for_each [0..<NPROC] (\<lambda>pp.
       bind (gets (\<lambda>s. parent (procs s pp) = Some p)) (\<lambda>mine.
       only_if mine (
         bind (gets initproc) (\<lambda>ini.
         seq (upd_proc pp (parent_update (\<lambda>_. ini))) (
         case ini of None \<Rightarrow> undef ''initproc'' | Some i \<Rightarrow> wakeup (ChanProc i))))))"

text \<open>One visit of \<open>scheduler\<close> to a table slot, what it does when the process it switched to comes
  back, and one pass over the table from slot \<open>i\<close> on; the result says whether the pass ends in
  \<open>wfi\<close>.\<close>

definition scheduler_visit :: "nat \<Rightarrow> (unit, 'a proc_state_scheme) routine" where
  "scheduler_visit i =
     seq (acquire (ProcLock i)) (
     bind (gets (\<lambda>s. pstate (procs s i))) (\<lambda>st.
     if st = RUNNABLE then
       seq (upd_proc i (pstate_update (\<lambda>_. RUNNING))) (
       seq (modify (\<lambda>s. s\<lparr>ctl := upd_mycpu (cproc_update (\<lambda>_. Some i)) (ctl s)\<rparr>)) (
       fail Swtch))
     else release (ProcLock i)))"

definition scheduler_resume :: "nat \<Rightarrow> (unit, 'a proc_state_scheme) routine" where
  "scheduler_resume i =
     seq (modify (\<lambda>s. s\<lparr>ctl := upd_mycpu (cproc_update (\<lambda>_. None)) (ctl s)\<rparr>)) (
     release (ProcLock i))"

definition scheduler_pass :: "nat \<Rightarrow> bool \<Rightarrow> (bool, 'a proc_state_scheme) routine" where
  "scheduler_pass i found = seq (for_each [i..<NPROC] scheduler_visit) (ret (\<not> found))"

definition scheduler_start :: "(bool, 'a proc_state_scheme) routine" where
  "scheduler_start = seq intr_on (seq intr_off (scheduler_pass 0 False))"

definition scheduler_enter :: "(bool, 'a proc_state_scheme) routine" where
  "scheduler_enter =
     seq (modify (\<lambda>s. s\<lparr>ctl := upd_mycpu (cproc_update (\<lambda>_. None)) (ctl s)\<rparr>)) scheduler_start"

definition state_name :: "procstate \<Rightarrow> string" where
  "state_name st = (case st of UNUSED \<Rightarrow> ''unused'' | USED \<Rightarrow> ''used'' | SLEEPING \<Rightarrow> ''sleep ''
     | RUNNABLE \<Rightarrow> ''runble'' | RUNNING \<Rightarrow> ''run   '' | ZOMBIE \<Rightarrow> ''zombie'')"

text \<open>A name is printed up to its NUL; \<open>name\<close> has 16 bytes.\<close>

definition cstr_bytes :: "nat \<Rightarrow> cstring \<Rightarrow> byte list" where
  "cstr_bytes n s = takeWhile (\<lambda>b. b \<noteq> 0) (map s [0..<n])"

definition procdump :: "(unit, 'a proc_state_scheme) routine" where
  "procdump =
     seq (printf [10] []) (
     for_each [0..<NPROC] (\<lambda>i.
       bind (gets (\<lambda>s. procs s i)) (\<lambda>p.
       if pstate p = UNUSED then skip else
       seq (printf (str ''%d %s %s'' @ [10])
              [Int32 (of_int (pid p)), Str (Some (str (state_name (pstate p)))),
               Str (Some (cstr_bytes 16 (pname p)))]) skip)))"

section \<open>The current process and its table entry\<close>

lemma myproc_eq: "myproc s = (Ret (cproc (mycpu (ctl s))), s\<lparr>ctl := settle (ctl s)\<rparr>)"
  by (simp add: myproc_def kdefs push_off_eq pop_off_eq)

lemma this_proc_eq:
  "cproc (mycpu (ctl s)) = Some p \<Longrightarrow> this_proc s = (Ret p, s\<lparr>ctl := settle (ctl s)\<rparr>)"
  by (simp add: this_proc_def bind_def myproc_eq ret_def)

lemma procs_self [simp]: "s\<lparr>procs := procs s\<rparr> = s"
  by simp

text \<open>A loop over the table whose body is a critical section on one entry.\<close>

lemma for_each_procs:
  assumes body: "\<And>i t. i \<in> set xs \<Longrightarrow> locks (ctl t) = locks (ctl s) \<Longrightarrow> hartid (ctl t) = hartid (ctl s) \<Longrightarrow>
      cproc (mycpu (ctl t)) = cproc (mycpu (ctl s)) \<Longrightarrow>
      body i t = (Ret (), t\<lparr>procs := (procs t)(i := f i (procs t i)), ctl := settle (ctl t)\<rparr>)"
    and "distinct xs"
  shows "for_each xs body s = (Ret (), s\<lparr>procs := (\<lambda>i. if i \<in> set xs then f i (procs s i) else procs s i),
    ctl := (if xs = [] then ctl s else settle (ctl s))\<rparr>)"
  using assms
proof (induction xs arbitrary: s)
  case Nil
  then show ?case by (simp add: skip_def ret_def)
next
  case (Cons x xs)
  let ?t = "s\<lparr>procs := (procs s)(x := f x (procs s x)), ctl := settle (ctl s)\<rparr>"
  have b: "body x s = (Ret (), ?t)" by (intro Cons.prems(1)) simp_all
  have "for_each xs body ?t = (Ret (), ?t\<lparr>procs := (\<lambda>i. if i \<in> set xs then f i (procs ?t i) else procs ?t i),
      ctl := (if xs = [] then ctl ?t else settle (ctl ?t))\<rparr>)"
    by (rule Cons.IH) (use Cons.prems in simp_all)
  moreover have "(\<lambda>i. if i \<in> set xs then f i (procs ?t i) else procs ?t i) =
      (\<lambda>i. if i \<in> set (x # xs) then f i (procs s i) else procs s i)"
    using Cons.prems(2) by (auto simp: fun_eq_iff)
  ultimately show ?case using b by (simp add: seq_def bind_def)
qed

section \<open>Sleeping and waking\<close>

definition procs_free :: "'a proc_state_scheme \<Rightarrow> bool" where
  "procs_free s \<longleftrightarrow> (\<forall>i<NPROC. Some i \<noteq> cproc (mycpu (ctl s)) \<longrightarrow> lock_free (ProcLock i) (ctl s))"

definition woken :: "chan \<Rightarrow> proc \<Rightarrow> proc" where
  "woken ch p = (if pstate p = SLEEPING \<and> pchan p = Some ch then p\<lparr>pstate := RUNNABLE\<rparr> else p)"

definition wake_all :: "chan \<Rightarrow> nat option \<Rightarrow> (nat \<Rightarrow> proc) \<Rightarrow> nat \<Rightarrow> proc" where
  "wake_all ch me ps = (\<lambda>i. if i < NPROC \<and> Some i \<noteq> me then woken ch (ps i) else ps i)"

lemma wakeup_eq:
  assumes "procs_free s"
  shows "wakeup ch s = (Ret (), s\<lparr>procs := wake_all ch (cproc (mycpu (ctl s))) (procs s), ctl := settle (ctl s)\<rparr>)"
proof -
  let ?me = "cproc (mycpu (ctl s))"
  let ?f = "\<lambda>i p. if Some i = ?me then p else woken ch p"
  have "wakeup ch s = (Ret (), s\<lparr>procs := (\<lambda>i. if i \<in> set [0..<64] then ?f i (procs s i) else procs s i),
      ctl := (if [0..<64] = [] then ctl s else settle (ctl s))\<rparr>)"
    unfolding wakeup_def
  proof (rule for_each_procs)
    fix i and t :: "'a proc_state_scheme"
    assume i: "i \<in> set [0..<64]" and l: "locks (ctl t) = locks (ctl s)" "cproc (mycpu (ctl t)) = ?me"
    have "lock_free (ProcLock i) (ctl t)" if "Some i \<noteq> ?me"
      using assms i l that by (simp add: procs_free_def lock_free_def)
    then show "bind myproc (\<lambda>me. if Some i = me then skip else
       seq (acquire (ProcLock i)) (
       bind (gets (\<lambda>s. pstate (procs s i) = SLEEPING \<and> pchan (procs s i) = Some ch)) (\<lambda>w.
       seq (only_if w (upd_proc i (pstate_update (\<lambda>_. RUNNABLE)))) (release (ProcLock i))))) t =
      (Ret (), t\<lparr>procs := (procs t)(i := ?f i (procs t i)), ctl := settle (ctl t)\<rparr>)"
      using l by (cases "Some i = ?me") (auto simp: kdefs myproc_eq acquire_ok release_ok upd_proc_def woken_def)
  qed simp
  moreover have "(\<lambda>i. if i \<in> set [0..<64] then ?f i (procs s i) else procs s i) = wake_all ch ?me (procs s)"
    by (auto simp: wake_all_def fun_eq_iff)
  ultimately show ?thesis by simp
qed

lemma holding_eq: "holding lk s = (Ret (held lk (ctl s)), s)"
  by (simp add: holding_def held_def gets_def)

text \<open>\<open>sched\<close> switches only from a process that holds its own lock and no other, is not marked
  running, and has interrupts off.\<close>

lemma sched_eq:
  assumes "cproc (mycpu (ctl s)) = Some p" "held (ProcLock p) (ctl s)" "noff (mycpu (ctl s)) = 1"
    and "pstate (procs s p) \<noteq> RUNNING"
  shows "sched s = (Swtch, s\<lparr>ctl := settle (ctl s)\<rparr>)"
proof -
  have "\<not> sie (settle (ctl s))" using assms(3) by (simp add: settle_def)
  then show ?thesis using assms by (simp add: sched_def kdefs this_proc_eq holding_eq intr_get_def)
qed

lemma sched_locks:
  assumes "cproc (mycpu (ctl s)) = Some p" "held (ProcLock p) (ctl s)" "noff (mycpu (ctl s)) \<noteq> 1"
  shows "fst (sched s) = Panic ''sched locks''"
  using assms by (simp add: sched_def kdefs this_proc_eq holding_eq)

text \<open>Going to sleep trades the condition lock for the process lock: there is no moment at which the
  process is not yet asleep and holds neither.\<close>

lemma sleep_eq:
  assumes "ctl s = acq lk c" "lock_free lk c" "lock_free (ProcLock p) c" "lk \<noteq> ProcLock p"
    and "cproc (mycpu c) = Some p" "noff (mycpu c) = 0"
  shows "sleep ch lk s = (Swtch, s\<lparr>ctl := acq (ProcLock p) c,
    procs := (procs s)(p := (procs s p)\<lparr>pchan := Some ch, pstate := SLEEPING\<rparr>)\<rparr>)"
  using assms by (simp add: sleep_def kdefs this_proc_eq acquire_ok release_ok upd_proc_def sched_eq)

text \<open>Sleeping with another lock held panics: the other lock would stay held across the switch.\<close>

lemma sleep_nested:
  assumes "ctl s = acq lk c" "lock_free lk c" "lock_free (ProcLock p) c" "lk \<noteq> ProcLock p"
    and "cproc (mycpu c) = Some p" "noff (mycpu c) \<noteq> 0"
  shows "fst (sleep ch lk s) = Panic ''sched locks''"
  using assms by (simp add: sleep_def seq_def bind_def this_proc_eq acquire_ok release_ok upd_proc_def modify_def)
    (simp add: sched_def kdefs this_proc_eq holding_eq)

lemma yield_eq:
  assumes "lock_free (ProcLock p) (ctl s)" "cproc (mycpu (ctl s)) = Some p" "noff (mycpu (ctl s)) = 0"
  shows "yield s = (Swtch, s\<lparr>ctl := acq (ProcLock p) (ctl s),
    procs := (procs s)(p := (procs s p)\<lparr>pstate := RUNNABLE\<rparr>)\<rparr>)"
  using assms by (simp add: yield_def kdefs this_proc_eq acquire_ok upd_proc_def sched_eq)

section \<open>Killing\<close>

lemma setkilled_eq:
  "lock_free (ProcLock p) (ctl s) \<Longrightarrow> setkilled p s =
     (Ret (), s\<lparr>procs := (procs s)(p := (procs s p)\<lparr>pkilled := True\<rparr>), ctl := settle (ctl s)\<rparr>)"
  by (simp add: setkilled_def kdefs acquire_ok release_ok upd_proc_def)

lemma killed_eq:
  "lock_free (ProcLock p) (ctl s) \<Longrightarrow> killed p s = (Ret (pkilled (procs s p)), s\<lparr>ctl := settle (ctl s)\<rparr>)"
  by (simp add: killed_def kdefs acquire_ok release_ok)

definition kill_proc :: "proc \<Rightarrow> proc" where
  "kill_proc p = p\<lparr>pkilled := True, pstate := (if pstate p = SLEEPING then RUNNABLE else pstate p)\<rparr>"

definition all_procs_free :: "'a proc_state_scheme \<Rightarrow> bool" where
  "all_procs_free s \<longleftrightarrow> (\<forall>i<NPROC. lock_free (ProcLock i) (ctl s))"

lemma kkill_at_miss:
  "all_procs_free s \<Longrightarrow> i < NPROC \<Longrightarrow> pid (procs s i) \<noteq> k \<Longrightarrow>
   kkill_at k i s = (Ret None, s\<lparr>ctl := settle (ctl s)\<rparr>)"
  by (simp add: kkill_at_def kdefs acquire_ok release_ok all_procs_free_def)

lemma kkill_at_hit:
  "all_procs_free s \<Longrightarrow> i < NPROC \<Longrightarrow> pid (procs s i) = k \<Longrightarrow> kkill_at k i s =
     (Ret (Some 0), s\<lparr>procs := (procs s)(i := kill_proc (procs s i)), ctl := settle (ctl s)\<rparr>)"
  by (auto simp: kkill_at_def kdefs acquire_ok release_ok all_procs_free_def upd_proc_def kill_proc_def)

text \<open>\<open>kkill\<close> marks the first process with the given pid, and makes it runnable if it sleeps; with no
  such process nothing changes.\<close>

lemma kkill_hit:
  assumes "all_procs_free s" "i < NPROC" "pid (procs s i) = k" "\<forall>j<i. pid (procs s j) \<noteq> k"
  shows "kkill k s = (Ret 0, s\<lparr>procs := (procs s)(i := kill_proc (procs s i)), ctl := settle (ctl s)\<rparr>)"
proof -
  let ?g = "\<lambda>t :: 'a proc_state_scheme. t\<lparr>ctl := settle (ctl t)\<rparr>"
  have "for_until ([0..<i] @ i # [Suc i..<NPROC]) (kkill_at k) s =
      (Ret (Some 0), s\<lparr>procs := (procs s)(i := kill_proc (procs s i)), ctl := settle (ctl s)\<rparr>)"
  proof (rule for_until_hit [where I = "\<lambda>t. all_procs_free t \<and> procs t = procs s" and g = ?g])
    show "kkill_at k x t = (Ret None, ?g t)" if "x \<in> set [0..<i]" "all_procs_free t \<and> procs t = procs s" for x t
      using that assms by (intro kkill_at_miss) simp_all
    show "kkill_at k i (if [0..<i] = [] then s else ?g s) =
        (Ret (Some 0), s\<lparr>procs := (procs s)(i := kill_proc (procs s i)), ctl := settle (ctl s)\<rparr>)"
      using kkill_at_hit [of s i k] kkill_at_hit [of "?g s" i k] assms
      by (cases i) (simp_all add: all_procs_free_def)
  qed (use assms in \<open>simp_all add: all_procs_free_def\<close>)
  then show ?thesis using assms(2) upt_split [of i NPROC] by (simp add: kkill_def bind_Ret ret_def)
qed

lemma kkill_miss:
  assumes "all_procs_free s" "\<forall>j<NPROC. pid (procs s j) \<noteq> k"
  shows "kkill k s = (Ret (- 1), s\<lparr>ctl := settle (ctl s)\<rparr>)"
proof -
  let ?g = "\<lambda>t :: 'a proc_state_scheme. t\<lparr>ctl := settle (ctl t)\<rparr>"
  have "for_until [0..<NPROC] (kkill_at k) s = (Ret None, if [0..<NPROC] = [] then s else ?g s)"
    by (rule for_until_None [where I = "\<lambda>t. all_procs_free t \<and> procs t = procs s"])
      (use assms in \<open>simp_all add: kkill_at_miss all_procs_free_def\<close>)
  then show ?thesis by (auto simp: kkill_def bind_Ret ret_def)
qed

end
