(* ===== verification/Sleeplock.thy ===== *)
theory Sleeplock
  imports Proc
begin

text \<open>
  \<open>kernel/sleeplock.c\<close>: locks that are held across disk waits.

  A sleep lock is named by what it protects (a buffer or an in-memory inode); its spinlock is
  \<open>SlLock\<close> of that name.  A process that finds the lock taken goes to sleep (outcome \<open>Swtch\<close>);
  when it is woken it runs \<open>sleep_resume\<close> and then \<open>acquiresleep_loop\<close> again.
\<close>

record sleeplock =
  sl_locked :: bool
  sl_name :: string
  sl_pid :: int

record sl_state = proc_state +
  slocks :: "sl_id \<Rightarrow> sleeplock"

definition upd_slock :: "sl_id \<Rightarrow> (sleeplock \<Rightarrow> sleeplock) \<Rightarrow> (unit, 'a sl_state_scheme) routine" where
  "upd_slock l f = modify (\<lambda>s. s\<lparr>slocks := (slocks s)(l := f (slocks s l))\<rparr>)"

definition initsleeplock :: "sl_id \<Rightarrow> string \<Rightarrow> (unit, 'a sl_state_scheme) routine" where
  "initsleeplock l name =
     seq (initlock (SlLock l) ''sleep lock'') (
     seq (upd_slock l (sl_name_update (\<lambda>_. name))) (
     seq (upd_slock l (sl_locked_update (\<lambda>_. False))) (
     upd_slock l (sl_pid_update (\<lambda>_. 0)))))"

definition acquiresleep_loop :: "sl_id \<Rightarrow> (unit, 'a sl_state_scheme) routine" where
  "acquiresleep_loop l =
     bind (gets (\<lambda>s. sl_locked (slocks s l))) (\<lambda>taken.
     if taken then sleep (ChanSl l) (SlLock l) else
     seq (upd_slock l (sl_locked_update (\<lambda>_. True))) (
     bind this_proc (\<lambda>p.
     bind (gets (\<lambda>s. pid (procs s p))) (\<lambda>k.
     seq (upd_slock l (sl_pid_update (\<lambda>_. k))) (
     release (SlLock l))))))"

definition acquiresleep :: "sl_id \<Rightarrow> (unit, 'a sl_state_scheme) routine" where
  "acquiresleep l = seq (acquire (SlLock l)) (acquiresleep_loop l)"

definition releasesleep :: "sl_id \<Rightarrow> (unit, 'a sl_state_scheme) routine" where
  "releasesleep l =
     seq (acquire (SlLock l)) (
     seq (upd_slock l (sl_locked_update (\<lambda>_. False))) (
     seq (upd_slock l (sl_pid_update (\<lambda>_. 0))) (
     seq (wakeup (ChanSl l)) (
     release (SlLock l)))))"

definition holdingsleep :: "sl_id \<Rightarrow> (bool, 'a sl_state_scheme) routine" where
  "holdingsleep l =
     seq (acquire (SlLock l)) (
     bind (gets (\<lambda>s. slocks s l)) (\<lambda>sl.
     bind (if sl_locked sl
           then bind this_proc (\<lambda>p. gets (\<lambda>s. sl_pid sl = pid (procs s p)))
           else ret False) (\<lambda>r.
     seq (release (SlLock l)) (
     ret r))))"

section \<open>Correctness\<close>

text \<open>The process \<open>p\<close> runs on this hart, holds no spinlock, and all the spinlocks it will take are
  free.\<close>

definition running :: "nat \<Rightarrow> 'a sl_state_scheme \<Rightarrow> bool" where
  "running p s \<longleftrightarrow> cproc (mycpu (ctl s)) = Some p \<and> noff (mycpu (ctl s)) = 0 \<and>
     (\<forall>lk. lock_free lk (ctl s))"

definition sl_held :: "sl_id \<Rightarrow> 'a sl_state_scheme \<Rightarrow> bool" where
  "sl_held l s \<longleftrightarrow> sl_locked (slocks s l) \<and>
     (\<exists>p. cproc (mycpu (ctl s)) = Some p \<and> sl_pid (slocks s l) = pid (procs s p))"

lemma running_settle [simp]: "running p (s\<lparr>ctl := settle c\<rparr>) = running p (s\<lparr>ctl := c\<rparr>)"
  by (simp add: running_def)

lemma running_cproc: "running p s \<Longrightarrow> cproc (mycpu (ctl s)) = Some p"
  by (simp add: running_def)

lemma acquiresleep_free:
  assumes "running p s" "\<not> sl_locked (slocks s l)"
  shows "acquiresleep l s = (Ret (), s\<lparr>slocks := (slocks s)(l := (slocks s l)\<lparr>sl_locked := True,
    sl_pid := pid (procs s p)\<rparr>), ctl := settle (ctl s)\<rparr>)"
  using assms by (simp add: acquiresleep_def acquiresleep_loop_def running_def kdefs acquire_ok release_ok
      this_proc_eq upd_slock_def)

lemma acquiresleep_taken:
  assumes "running p s" "sl_locked (slocks s l)"
  shows "acquiresleep l s = (Swtch, s\<lparr>ctl := acq (ProcLock p) (ctl s),
    procs := (procs s)(p := (procs s p)\<lparr>pchan := Some (ChanSl l), pstate := SLEEPING\<rparr>)\<rparr>)"
proof -
  let ?t = "s\<lparr>ctl := acq (SlLock l) (ctl s)\<rparr>"
  have "acquire (SlLock l) s = (Ret (), ?t)" using assms by (simp add: running_def acquire_ok)
  moreover have "acquiresleep_loop l ?t = sleep (ChanSl l) (SlLock l) ?t"
    using assms by (simp add: acquiresleep_loop_def kdefs)
  moreover have "sleep (ChanSl l) (SlLock l) ?t = (Swtch, ?t\<lparr>ctl := acq (ProcLock p) (ctl s),
    procs := (procs ?t)(p := (procs ?t p)\<lparr>pchan := Some (ChanSl l), pstate := SLEEPING\<rparr>)\<rparr>)"
    using assms by (intro sleep_eq) (simp_all add: running_def)
  ultimately show ?thesis by (simp add: acquiresleep_def seq_Ret)
qed

lemma holdingsleep_eq:
  assumes "running p s"
  shows "holdingsleep l s = (Ret (sl_held l s), s\<lparr>ctl := settle (ctl s)\<rparr>)"
  using assms by (auto simp: holdingsleep_def sl_held_def running_def kdefs acquire_ok release_ok this_proc_eq)

lemma releasesleep_eq:
  assumes "running p s"
  shows "releasesleep l s = (Ret (), s\<lparr>slocks := (slocks s)(l := (slocks s l)\<lparr>sl_locked := False, sl_pid := 0\<rparr>),
    procs := wake_all (ChanSl l) (Some p) (procs s), ctl := settle (ctl s)\<rparr>)"
  using assms by (simp add: releasesleep_def running_def kdefs acquire_ok release_ok upd_slock_def
      wakeup_eq procs_free_def)

section \<open>A process running by itself\<close>

text \<open>No process sleeps, so that a wakeup finds nobody.\<close>

definition nobody_sleeps :: "'a proc_state_scheme \<Rightarrow> bool" where
  "nobody_sleeps s \<longleftrightarrow> (\<forall>i<NPROC. pstate (procs s i) \<noteq> SLEEPING)"

definition solo :: "nat \<Rightarrow> 'a sl_state_scheme \<Rightarrow> bool" where
  "solo p s \<longleftrightarrow> running p s \<and> nobody_sleeps s"

lemma wake_all_none [simp]: "\<forall>i<NPROC. pstate (ps i) \<noteq> SLEEPING \<Longrightarrow> wake_all ch me ps = ps"
  by (auto simp: wake_all_def woken_def fun_eq_iff)

lemma wakeup_none:
  "procs_free s \<Longrightarrow> nobody_sleeps s \<Longrightarrow> wakeup ch s = (Ret (), s\<lparr>ctl := settle (ctl s)\<rparr>)"
  by (simp add: wakeup_eq nobody_sleeps_def)

lemma solo_running [simp]: "solo p s \<Longrightarrow> running p s"
  by (simp add: solo_def)

end
