(* ===== verification/Vm.thy ===== *)
theory Vm
  imports Sleeplock
begin

text \<open>
  \<open>kernel/vm.c\<close>: Sv39 page tables, user address spaces, and copies between kernel and user space.

  A page table is the physical address of its root page; entries are read and written in the byte
  memory of \<open>Kalloc\<close>.  A null pointer is address 0, as in the code.  Loops that step through an
  address range carry the number of pages left; running out of it is the outcome \<open>Loops\<close>, which the
  lemmas show cannot happen.  \<open>copyout\<close> takes the kernel bytes to copy, \<open>copyin\<close> and \<open>copyinstr\<close>
  return the bytes they stored.
\<close>

section \<open>State\<close>

record vm_state = sl_state +
  kernel_pagetable :: u64
  satp :: u64
  etext :: u64
  trampoline :: u64

abbreviation (input) UART0 :: u64 where "UART0 \<equiv> 0x10000000"
abbreviation (input) VIRTIO0 :: u64 where "VIRTIO0 \<equiv> 0x10001000"
abbreviation (input) PLIC :: u64 where "PLIC \<equiv> 0x0c000000"

definition MAKE_SATP :: "u64 \<Rightarrow> u64" where
  "MAKE_SATP pt = push_bit 60 8 OR drop_bit 12 pt"

definition pte_at :: "u64 \<Rightarrow> nat \<Rightarrow> u64 \<Rightarrow> u64" where
  "pte_at pt level va = pt + 8 * PX level va"

definition ldw :: "u64 \<Rightarrow> (u64, 'a kmem_state_scheme) routine" where
  "ldw a = gets (\<lambda>s. load64 (mem s) a)"

definition stw :: "u64 \<Rightarrow> u64 \<Rightarrow> (unit, 'a kmem_state_scheme) routine" where
  "stw a v = modify (\<lambda>s. s\<lparr>mem := store64 (mem s) a v\<rparr>)"

definition zero_page :: "u64 \<Rightarrow> (unit, 'a kmem_state_scheme) routine" where
  "zero_page p = modify (\<lambda>s. s\<lparr>mem := memset (mem s) p 0 4096\<rparr>)"

section \<open>Walking and mapping\<close>

fun walk_loop :: "nat \<Rightarrow> u64 \<Rightarrow> u64 \<Rightarrow> bool \<Rightarrow> (u64, 'a kmem_state_scheme) routine" where
  "walk_loop 0 pt va alloc = ret (pte_at pt 0 va)"
| "walk_loop (Suc l) pt va alloc =
     bind (ldw (pte_at pt (Suc l) va)) (\<lambda>pte.
     if pte AND PTE_V \<noteq> 0 then walk_loop l (PTE2PA pte) va alloc
     else if \<not> alloc then ret 0
     else bind kalloc (\<lambda>new.
          if new = 0 then ret 0 else
          seq (zero_page new) (
          seq (stw (pte_at pt (Suc l) va) (PA2PTE new OR PTE_V)) (
          walk_loop l new va alloc))))"

definition walk :: "u64 \<Rightarrow> u64 \<Rightarrow> bool \<Rightarrow> (u64, 'a kmem_state_scheme) routine" where
  "walk pt va alloc = (if va \<ge> MAXVA then panic ''walk'' else walk_loop 2 pt va alloc)"

definition walkaddr :: "u64 \<Rightarrow> u64 \<Rightarrow> (u64, 'a kmem_state_scheme) routine" where
  "walkaddr pt va =
     (if va \<ge> MAXVA then ret 0 else
      bind (walk pt va False) (\<lambda>pte.
      if pte = 0 then ret 0 else
      bind (ldw pte) (\<lambda>e.
      if e AND PTE_V = 0 then ret 0
      else if e AND PTE_U = 0 then ret 0
      else ret (PTE2PA e))))"

fun mappages_loop :: "nat \<Rightarrow> u64 \<Rightarrow> u64 \<Rightarrow> u64 \<Rightarrow> u64 \<Rightarrow> u64 \<Rightarrow> (int, 'a kmem_state_scheme) routine" where
  "mappages_loop 0 pt a lst pa perm = fail Loops"
| "mappages_loop (Suc n) pt a lst pa perm =
     bind (walk pt a True) (\<lambda>pte.
     if pte = 0 then ret (- 1) else
     bind (ldw pte) (\<lambda>e.
     if e AND PTE_V \<noteq> 0 then panic ''mappages: remap'' else
     seq (stw pte (PA2PTE pa OR perm OR PTE_V)) (
     if a = lst then ret 0
     else mappages_loop n pt (a + PGSIZE) lst (pa + PGSIZE) perm)))"

definition mappages :: "u64 \<Rightarrow> u64 \<Rightarrow> u64 \<Rightarrow> u64 \<Rightarrow> u64 \<Rightarrow> (int, 'a kmem_state_scheme) routine" where
  "mappages pt va len pa perm =
     (if va mod PGSIZE \<noteq> 0 then panic ''mappages: va not aligned''
      else if len mod PGSIZE \<noteq> 0 then panic ''mappages: size not aligned''
      else if len = 0 then panic ''mappages: size''
      else mappages_loop (unat len div 4096) pt va (va + len - PGSIZE) pa perm)"

definition ismapped :: "u64 \<Rightarrow> u64 \<Rightarrow> (bool, 'a kmem_state_scheme) routine" where
  "ismapped pt va =
     bind (walk pt va False) (\<lambda>pte.
     if pte = 0 then ret False else
     bind (ldw pte) (\<lambda>e. ret (e AND PTE_V \<noteq> 0)))"

section \<open>The kernel's page table\<close>

definition kvmmap :: "u64 \<Rightarrow> u64 \<Rightarrow> u64 \<Rightarrow> u64 \<Rightarrow> u64 \<Rightarrow> (unit, 'a kmem_state_scheme) routine" where
  "kvmmap kpgtbl va pa len perm =
     bind (mappages kpgtbl va len pa perm) (\<lambda>r. if r \<noteq> 0 then panic ''kvmmap'' else skip)"

definition proc_mapstacks :: "u64 \<Rightarrow> (unit, 'a kmem_state_scheme) routine" where
  "proc_mapstacks kpgtbl =
     for_each [0..<NPROC] (\<lambda>p.
       bind kalloc (\<lambda>pa.
       if pa = 0 then panic ''kalloc'' else
       kvmmap kpgtbl (KSTACK p) pa PGSIZE (PTE_R OR PTE_W)))"

definition kvmmake :: "(u64, 'a vm_state_scheme) routine" where
  "kvmmake =
     bind kalloc (\<lambda>kpgtbl.
     if kpgtbl = 0 then undef ''kvmmake'' else
     seq (zero_page kpgtbl) (
     seq (kvmmap kpgtbl UART0 UART0 PGSIZE (PTE_R OR PTE_W)) (
     seq (kvmmap kpgtbl VIRTIO0 VIRTIO0 PGSIZE (PTE_R OR PTE_W)) (
     seq (kvmmap kpgtbl PLIC PLIC 0x4000000 (PTE_R OR PTE_W)) (
     bind (gets etext) (\<lambda>et.
     seq (kvmmap kpgtbl KERNBASE KERNBASE (et - KERNBASE) (PTE_R OR PTE_X)) (
     seq (kvmmap kpgtbl et et (PHYSTOP - et) (PTE_R OR PTE_W)) (
     bind (gets trampoline) (\<lambda>tr.
     seq (kvmmap kpgtbl TRAMPOLINE tr PGSIZE (PTE_R OR PTE_X)) (
     seq (proc_mapstacks kpgtbl) (
     ret kpgtbl)))))))))))"

definition kvminit :: "(unit, 'a vm_state_scheme) routine" where
  "kvminit = bind kvmmake (\<lambda>pt. modify (\<lambda>s. s\<lparr>kernel_pagetable := pt\<rparr>))"

definition kvminithart :: "(unit, 'a vm_state_scheme) routine" where
  "kvminithart = modify (\<lambda>s. s\<lparr>satp := MAKE_SATP (kernel_pagetable s)\<rparr>)"

section \<open>User address spaces\<close>

definition uvmcreate :: "(u64, 'a kmem_state_scheme) routine" where
  "uvmcreate =
     bind kalloc (\<lambda>pt.
     if pt = 0 then ret 0 else
     seq (zero_page pt) (ret pt))"

fun uvmunmap_loop :: "nat \<Rightarrow> u64 \<Rightarrow> u64 \<Rightarrow> u64 \<Rightarrow> bool \<Rightarrow> (unit, 'a kmem_state_scheme) routine" where
  "uvmunmap_loop n pt a stop do_free =
     (if \<not> a < stop then skip else
      case n of 0 \<Rightarrow> fail Loops | Suc m \<Rightarrow>
      seq (bind (walk pt a False) (\<lambda>pte.
           if pte = 0 then skip else
           bind (ldw pte) (\<lambda>e.
           if e AND PTE_V = 0 then skip else
           seq (only_if do_free (kfree (PTE2PA e))) (stw pte 0))))
      (uvmunmap_loop m pt (a + PGSIZE) stop do_free))"

definition uvmunmap :: "u64 \<Rightarrow> u64 \<Rightarrow> u64 \<Rightarrow> bool \<Rightarrow> (unit, 'a kmem_state_scheme) routine" where
  "uvmunmap pt va npages do_free =
     (if va mod PGSIZE \<noteq> 0 then panic ''uvmunmap: not aligned''
      else uvmunmap_loop (unat npages) pt va (va + npages * PGSIZE) do_free)"

text \<open>\<open>npages\<close> is an \<open>int\<close> in \<open>uvmdealloc\<close>: the quotient is truncated to 32 bits and sign
  extended.\<close>

definition uvmdealloc :: "u64 \<Rightarrow> u64 \<Rightarrow> u64 \<Rightarrow> (u64, 'a kmem_state_scheme) routine" where
  "uvmdealloc pt oldsz newsz =
     (if newsz \<ge> oldsz then ret oldsz else
      seq (only_if (PGROUNDUP newsz < PGROUNDUP oldsz)
             (uvmunmap pt (PGROUNDUP newsz)
               (scast (ucast ((PGROUNDUP oldsz - PGROUNDUP newsz) div PGSIZE) :: u32)) True)) (
      ret newsz))"

fun uvmalloc_loop :: "nat \<Rightarrow> u64 \<Rightarrow> u64 \<Rightarrow> u64 \<Rightarrow> u64 \<Rightarrow> u64 \<Rightarrow> (u64, 'a kmem_state_scheme) routine" where
  "uvmalloc_loop n pt a oldsz newsz xperm =
     (if \<not> a < newsz then ret newsz else
      case n of 0 \<Rightarrow> fail Loops | Suc m \<Rightarrow>
      bind kalloc (\<lambda>pa.
      if pa = 0 then seq (uvmdealloc pt a oldsz) (ret 0) else
      seq (zero_page pa) (
      bind (mappages pt a PGSIZE pa (PTE_R OR PTE_U OR xperm)) (\<lambda>r.
      if r \<noteq> 0 then seq (kfree pa) (seq (uvmdealloc pt a oldsz) (ret 0)) else
      uvmalloc_loop m pt (a + PGSIZE) oldsz newsz xperm))))"

declare uvmunmap_loop.simps [simp del] uvmalloc_loop.simps [simp del]

definition uvmalloc :: "u64 \<Rightarrow> u64 \<Rightarrow> u64 \<Rightarrow> u64 \<Rightarrow> (u64, 'a kmem_state_scheme) routine" where
  "uvmalloc pt oldsz newsz xperm =
     (if newsz < oldsz then ret oldsz else
      uvmalloc_loop ((unat newsz - unat (PGROUNDUP oldsz) + 4095) div 4096)
        pt (PGROUNDUP oldsz) (PGROUNDUP oldsz) newsz xperm)"

text \<open>The recursion of \<open>freewalk\<close> is bounded by the depth of the table.\<close>

fun freewalk :: "nat \<Rightarrow> u64 \<Rightarrow> (unit, 'a kmem_state_scheme) routine" where
  "freewalk 0 pt = fail Loops"
| "freewalk (Suc d) pt =
     seq (for_each [0..<512] (\<lambda>i.
       bind (ldw (pt + 8 * of_nat i)) (\<lambda>pte.
       if pte AND PTE_V \<noteq> 0 \<and> pte AND (PTE_R OR PTE_W OR PTE_X) = 0 then
         seq (freewalk d (PTE2PA pte)) (stw (pt + 8 * of_nat i) 0)
       else if pte AND PTE_V \<noteq> 0 then panic ''freewalk: leaf''
       else skip)))
     (kfree pt)"

definition uvmfree :: "u64 \<Rightarrow> u64 \<Rightarrow> (unit, 'a kmem_state_scheme) routine" where
  "uvmfree pt nb =
     seq (only_if (nb > 0) (uvmunmap pt 0 (PGROUNDUP nb div PGSIZE) True)) (
     freewalk 3 pt)"

fun uvmcopy_loop :: "nat \<Rightarrow> u64 \<Rightarrow> u64 \<Rightarrow> u64 \<Rightarrow> u64 \<Rightarrow> (int, 'a kmem_state_scheme) routine" where
  "uvmcopy_loop n old new i nb =
     (if \<not> i < nb then ret 0 else
      case n of 0 \<Rightarrow> fail Loops | Suc m \<Rightarrow>
      bind (walk old i False) (\<lambda>pte.
      if pte = 0 then uvmcopy_loop m old new (i + PGSIZE) nb else
      bind (ldw pte) (\<lambda>e.
      if e AND PTE_V = 0 then uvmcopy_loop m old new (i + PGSIZE) nb else
      bind kalloc (\<lambda>pa.
      if pa = 0 then seq (uvmunmap new 0 (i div PGSIZE) True) (ret (- 1)) else
      seq (modify (\<lambda>s. s\<lparr>mem := memmove (mem s) pa (PTE2PA e) 4096\<rparr>)) (
      bind (mappages new i PGSIZE pa (PTE_FLAGS e)) (\<lambda>r.
      if r \<noteq> 0 then seq (kfree pa) (seq (uvmunmap new 0 (i div PGSIZE) True) (ret (- 1)))
      else uvmcopy_loop m old new (i + PGSIZE) nb))))))"

declare uvmcopy_loop.simps [simp del]

definition uvmcopy :: "u64 \<Rightarrow> u64 \<Rightarrow> u64 \<Rightarrow> (int, 'a kmem_state_scheme) routine" where
  "uvmcopy old new nb = uvmcopy_loop ((unat nb + 4095) div 4096) old new 0 nb"

definition uvmclear :: "u64 \<Rightarrow> u64 \<Rightarrow> (unit, 'a kmem_state_scheme) routine" where
  "uvmclear pt va =
     bind (walk pt va False) (\<lambda>pte.
     if pte = 0 then panic ''uvmclear'' else
     bind (ldw pte) (\<lambda>e. stw pte (e AND NOT PTE_U)))"

section \<open>Page faults and copies\<close>

definition vmfault :: "u64 \<Rightarrow> u64 \<Rightarrow> (u64, 'a proc_state_scheme) routine" where
  "vmfault pt va =
     bind this_proc (\<lambda>p.
     bind (gets (\<lambda>s. procs s p)) (\<lambda>pr.
     if va \<ge> sz pr then ret 0 else
     bind (ismapped pt (PGROUNDDOWN va)) (\<lambda>mapped.
     if mapped then ret 0 else
     bind kalloc (\<lambda>pa.
     if pa = 0 then ret 0 else
     seq (zero_page pa) (
     bind (mappages (pagetable pr) (PGROUNDDOWN va) PGSIZE pa (PTE_W OR PTE_U OR PTE_R)) (\<lambda>r.
     if r \<noteq> 0 then seq (kfree pa) (ret 0) else ret pa))))))"

text \<open>The physical address behind a user page, faulting it in if need be.\<close>

definition user_page :: "u64 \<Rightarrow> u64 \<Rightarrow> (u64, 'a proc_state_scheme) routine" where
  "user_page pt va0 =
     bind (walkaddr pt va0) (\<lambda>pa0. if pa0 \<noteq> 0 then ret pa0 else vmfault pt va0)"

definition in_page_room :: "u64 \<Rightarrow> nat" where
  "in_page_room va = 4096 - unat (va - PGROUNDDOWN va)"

lemma in_page_room_pos: "0 < in_page_room va"
  using in_page_aligned [of "PGROUNDDOWN va" va] by (simp add: in_page_room_def in_page_def)

function copyout :: "u64 \<Rightarrow> u64 \<Rightarrow> byte list \<Rightarrow> (int, 'a proc_state_scheme) routine" where
  "copyout pt dstva src =
     (if src = [] then ret 0 else
      if PGROUNDDOWN dstva \<ge> MAXVA then ret (- 1) else
      bind (user_page pt (PGROUNDDOWN dstva)) (\<lambda>pa0.
      if pa0 = 0 then ret (- 1) else
      bind (walk pt (PGROUNDDOWN dstva) False) (\<lambda>pte.
      if pte = 0 then undef ''copyout'' else
      bind (ldw pte) (\<lambda>e.
      if e AND PTE_W = 0 then ret (- 1) else
      seq (modify (\<lambda>s. s\<lparr>mem := mem_put (mem s) (pa0 + (dstva - PGROUNDDOWN dstva))
                                  (take (in_page_room dstva) src)\<rparr>)) (
      copyout pt (PGROUNDDOWN dstva + PGSIZE) (drop (in_page_room dstva) src))))))"
  by pat_completeness auto
termination
  by (relation "measure (\<lambda>(_, _, src). length src)") (simp_all add: in_page_room_pos)

function copyin :: "u64 \<Rightarrow> u64 \<Rightarrow> nat \<Rightarrow> (byte list \<times> int, 'a proc_state_scheme) routine" where
  "copyin pt srcva len =
     (if len = 0 then ret ([], 0) else
      bind (user_page pt (PGROUNDDOWN srcva)) (\<lambda>pa0.
      if pa0 = 0 then ret ([], - 1) else
      bind (gets (\<lambda>s. mem_get (mem s) (pa0 + (srcva - PGROUNDDOWN srcva)) (min (in_page_room srcva) len))) (\<lambda>bs.
      bind (copyin pt (PGROUNDDOWN srcva + PGSIZE) (len - min (in_page_room srcva) len)) (\<lambda>(bs', r).
      ret (bs @ bs', r)))))"
  by pat_completeness auto
termination
  by (relation "measure (\<lambda>(_, _, len). len)") (simp_all add: in_page_room_pos)

declare copyout.simps [simp del] copyin.simps [simp del]

text \<open>The bytes \<open>copyinstr\<close> stores from one page: up to \<open>n\<close>, ending with the first NUL.\<close>

fun copyinstr_page :: "memory \<Rightarrow> u64 \<Rightarrow> nat \<Rightarrow> byte list \<times> bool" where
  "copyinstr_page m p 0 = ([], False)"
| "copyinstr_page m p (Suc n) =
     (if m p = 0 then ([0], True)
      else case copyinstr_page m (p + 1) n of (bs, z) \<Rightarrow> (m p # bs, z))"

function copyinstr :: "u64 \<Rightarrow> u64 \<Rightarrow> nat \<Rightarrow> (byte list \<times> int, 'a kmem_state_scheme) routine" where
  "copyinstr pt srcva mx =
     (if mx = 0 then ret ([], - 1) else
      bind (walkaddr pt (PGROUNDDOWN srcva)) (\<lambda>pa0.
      if pa0 = 0 then ret ([], - 1) else
      bind (gets (\<lambda>s. copyinstr_page (mem s) (pa0 + (srcva - PGROUNDDOWN srcva)) (min (in_page_room srcva) mx))) (\<lambda>(bs, got_null).
      if got_null then ret (bs, 0) else
      bind (copyinstr pt (PGROUNDDOWN srcva + PGSIZE) (mx - min (in_page_room srcva) mx)) (\<lambda>(bs', r).
      ret (bs @ bs', r)))))"
  by pat_completeness auto
termination
  by (relation "measure (\<lambda>(_, _, mx). mx)") (simp_all add: in_page_room_pos)

declare copyinstr.simps [simp del]

section \<open>Copies that may stay in the kernel\<close>

text \<open>\<open>either_copyout\<close> writes to a user address, to kernel memory at an address, or to the local object
  whose address the calling routine passed (\<open>klocal\<close>, from the given offset on).\<close>

datatype copy_dst = ToUser u64 | ToKernel u64 | ToLocal nat
datatype copy_src = FromUser u64 | FromKernel "byte list"

fun dst_add :: "copy_dst \<Rightarrow> nat \<Rightarrow> copy_dst" where
  "dst_add (ToUser a) n = ToUser (a + of_nat n)"
| "dst_add (ToKernel a) n = ToKernel (a + of_nat n)"
| "dst_add (ToLocal k) n = ToLocal (k + n)"

fun src_add :: "copy_src \<Rightarrow> nat \<Rightarrow> copy_src" where
  "src_add (FromUser a) n = FromUser (a + of_nat n)"
| "src_add (FromKernel bs) n = FromKernel (drop n bs)"

definition either_copyout :: "copy_dst \<Rightarrow> byte list \<Rightarrow> (int, 'a proc_state_scheme) routine" where
  "either_copyout dst src =
     bind myproc (\<lambda>me.
     case dst of
       ToUser va \<Rightarrow> (case me of None \<Rightarrow> undef ''either_copyout'' | Some p \<Rightarrow>
         bind (gets (\<lambda>s. pagetable (procs s p))) (\<lambda>pt. copyout pt va src))
     | ToKernel a \<Rightarrow> seq (modify (\<lambda>s. s\<lparr>mem := mem_put (mem s) a src\<rparr>)) (ret 0)
     | ToLocal k \<Rightarrow> seq (modify (\<lambda>s. s\<lparr>klocal := blk_put (klocal s) k src\<rparr>)) (ret 0))"

definition either_copyin :: "copy_src \<Rightarrow> nat \<Rightarrow> (byte list \<times> int, 'a proc_state_scheme) routine" where
  "either_copyin src len =
     bind myproc (\<lambda>me.
     case src of
       FromUser va \<Rightarrow> (case me of None \<Rightarrow> undef ''either_copyin'' | Some p \<Rightarrow>
         bind (gets (\<lambda>s. pagetable (procs s p))) (\<lambda>pt. copyin pt va len))
     | FromKernel bs \<Rightarrow> ret (take len bs, 0))"

end
