(* ===== verification/Virtio.thy ===== *)
theory Virtio
  imports Vm
begin

text \<open>
  \<open>kernel/virtio_disk.c\<close>: the driver of the virtio block device.

  \<open>vio\<close> is the memory the driver shares with the device: the descriptor table, the two rings, the
  request headers, the status bytes, the data of the block buffers, and the medium itself in sectors
  of 512 bytes.  The device is not part of the kernel; it is the parameter \<open>device\<close>, a function on
  that shared memory, and \<open>mmio\<close>, the value of a control register after a history of writes.
  \<open>conforming\<close> is what the virtio specification promises of it for a request of the driver's form.

  A process that waits for its request sleeps; \<open>virtio_wait\<close> is the whole wait as the waiting
  process sees it: the lock is given up, the device works, the interrupt handler runs, the lock is
  taken again.
\<close>

section \<open>Shared memory and driver state\<close>

abbreviation (input) NUM :: nat where "NUM \<equiv> 8"

datatype dptr = PNull | POps nat | PData nat | PStatus nat

record virtq_desc =
  daddr :: dptr
  dlen :: u32
  dflags :: u16
  dnext :: u16

abbreviation (input) VRING_DESC_F_NEXT :: u16 where "VRING_DESC_F_NEXT \<equiv> 1"
abbreviation (input) VRING_DESC_F_WRITE :: u16 where "VRING_DESC_F_WRITE \<equiv> 2"

record virtio_blk_req =
  rtype :: u32
  rreserved :: u32
  rsector :: u64

abbreviation (input) VIRTIO_BLK_T_IN :: u32 where "VIRTIO_BLK_T_IN \<equiv> 0"
abbreviation (input) VIRTIO_BLK_T_OUT :: u32 where "VIRTIO_BLK_T_OUT \<equiv> 1"

record vio =
  desc :: "nat \<Rightarrow> virtq_desc"
  avail_idx :: u16
  avail_ring :: "nat \<Rightarrow> u16"
  used_didx :: u16
  used_ring :: "nat \<Rightarrow> u32"
  vops :: "nat \<Rightarrow> virtio_blk_req"
  vstatus :: "nat \<Rightarrow> byte"
  bdata :: "nat \<Rightarrow> block"
  media :: "nat \<Rightarrow> block"

record buf =
  bvalid :: bool
  bdisk :: bool
  bdev :: u32
  blockno :: u32
  refcnt :: u32
  bprev :: nat
  bnext :: nat

record vdisk_state = vm_state +
  vio :: vio
  bufs :: "nat \<Rightarrow> buf"
  vfree :: "nat \<Rightarrow> bool"
  used_idx :: u16
  info_b :: "nat \<Rightarrow> nat option"
  vdesc_pa :: u64
  vavail_pa :: u64
  vused_pa :: u64
  mmio_log :: "(u64 \<times> u32) list"
  mmio :: "(u64 \<times> u32) list \<Rightarrow> u64 \<Rightarrow> u32"
  device :: "vio \<Rightarrow> vio"

definition upd_vio :: "(vio \<Rightarrow> vio) \<Rightarrow> (unit, 'a vdisk_state_scheme) routine" where
  "upd_vio f = modify (\<lambda>s. s\<lparr>vio := f (vio s)\<rparr>)"

definition upd_buf :: "nat \<Rightarrow> (buf \<Rightarrow> buf) \<Rightarrow> (unit, 'a vdisk_state_scheme) routine" where
  "upd_buf b f = modify (\<lambda>s. s\<lparr>bufs := (bufs s)(b := f (bufs s b))\<rparr>)"

definition set_desc :: "nat \<Rightarrow> virtq_desc \<Rightarrow> (unit, 'a vdisk_state_scheme) routine" where
  "set_desc i d = upd_vio (\<lambda>v. v\<lparr>desc := (desc v)(i := d)\<rparr>)"

definition null_desc :: virtq_desc where
  "null_desc = \<lparr>daddr = PNull, dlen = 0, dflags = 0, dnext = 0\<rparr>"

section \<open>Initialisation\<close>

definition Rd :: "u64 \<Rightarrow> (u32, 'a vdisk_state_scheme) routine" where
  "Rd r = gets (\<lambda>s. mmio s (mmio_log s) r)"

definition Wr :: "u64 \<Rightarrow> u32 \<Rightarrow> (unit, 'a vdisk_state_scheme) routine" where
  "Wr r v = modify (\<lambda>s. s\<lparr>mmio_log := mmio_log s @ [(r, v)]\<rparr>)"

definition drop_features :: "u32 \<Rightarrow> u32" where
  "drop_features f = f AND NOT (push_bit 5 1) AND NOT (push_bit 7 1) AND NOT (push_bit 11 1)
     AND NOT (push_bit 12 1) AND NOT (push_bit 27 1) AND NOT (push_bit 29 1) AND NOT (push_bit 28 1)"

definition virtio_negotiate :: "(u32, 'a vdisk_state_scheme) routine" where
  "virtio_negotiate =
     seq (Wr 0x070 0) (
     seq (Wr 0x070 1) (
     seq (Wr 0x070 (1 OR 2)) (
     bind (Rd 0x010) (\<lambda>features.
     seq (Wr 0x020 (drop_features features)) (
     seq (Wr 0x070 (1 OR 2 OR 8)) (
     bind (Rd 0x070) (\<lambda>status.
     if status AND 8 = 0 then panic ''virtio disk FEATURES_OK unset'' else
     ret status)))))))"

definition virtio_queue :: "(unit, 'a vdisk_state_scheme) routine" where
  "virtio_queue =
     seq (Wr 0x030 0) (
     bind (Rd 0x044) (\<lambda>ready.
     if ready \<noteq> 0 then panic ''virtio disk should not be ready'' else
     bind (Rd 0x034) (\<lambda>mx.
     if mx = 0 then panic ''virtio disk has no queue 0''
     else if mx < 8 then panic ''virtio disk max queue too short'' else
     bind kalloc (\<lambda>d. bind kalloc (\<lambda>a. bind kalloc (\<lambda>u.
     seq (modify (\<lambda>s. s\<lparr>vdesc_pa := d, vavail_pa := a, vused_pa := u\<rparr>)) (
     if d = 0 \<or> a = 0 \<or> u = 0 then panic ''virtio disk kalloc'' else
     seq (zero_page d) (seq (zero_page a) (seq (zero_page u) (
     seq (upd_vio (\<lambda>v. v\<lparr>desc := (\<lambda>_. null_desc), avail_idx := 0, avail_ring := (\<lambda>_. 0),
                        used_didx := 0, used_ring := (\<lambda>_. 0)\<rparr>)) (
     seq (Wr 0x038 8) (
     seq (Wr 0x080 (ucast d)) (seq (Wr 0x084 (ucast (drop_bit 32 d))) (
     seq (Wr 0x090 (ucast a)) (seq (Wr 0x094 (ucast (drop_bit 32 a))) (
     seq (Wr 0x0a0 (ucast u)) (seq (Wr 0x0a4 (ucast (drop_bit 32 u))) (
     Wr 0x044 1))))))))))))))))))"

definition virtio_disk_init :: "(unit, 'a vdisk_state_scheme) routine" where
  "virtio_disk_init =
     seq (initlock VdiskLock ''virtio_disk'') (
     bind (Rd 0x000) (\<lambda>magic. bind (Rd 0x004) (\<lambda>version.
     bind (Rd 0x008) (\<lambda>device_id. bind (Rd 0x00c) (\<lambda>vendor.
     if magic \<noteq> 0x74726976 \<or> version \<noteq> 2 \<or> device_id \<noteq> 2 \<or> vendor \<noteq> 0x554d4551
     then panic ''could not find virtio disk'' else
     bind virtio_negotiate (\<lambda>status.
     seq virtio_queue (
     seq (for_each [0..<NUM] (\<lambda>i. modify (\<lambda>s. s\<lparr>vfree := (vfree s)(i := True)\<rparr>))) (
     Wr 0x070 (status OR 4)))))))))"

section \<open>Descriptors\<close>

definition alloc_desc :: "(nat option, 'a vdisk_state_scheme) routine" where
  "alloc_desc =
     for_until [0..<NUM] (\<lambda>i.
       bind (gets (\<lambda>s. vfree s i)) (\<lambda>f.
       if f then seq (modify (\<lambda>s. s\<lparr>vfree := (vfree s)(i := False)\<rparr>)) (ret (Some i)) else ret None))"

definition free_desc :: "nat \<Rightarrow> (unit, 'a vdisk_state_scheme) routine" where
  "free_desc i =
     (if i \<ge> NUM then panic ''free_desc 1'' else
      bind (gets (\<lambda>s. vfree s i)) (\<lambda>f.
      if f then panic ''free_desc 2'' else
      seq (set_desc i null_desc) (
      seq (modify (\<lambda>s. s\<lparr>vfree := (vfree s)(i := True)\<rparr>)) (
      wakeup ChanDiskFree))))"

text \<open>Every round of \<open>free_chain\<close> frees a descriptor or panics, so more than \<open>NUM\<close> rounds are
  impossible.\<close>

fun free_chain_loop :: "nat \<Rightarrow> nat \<Rightarrow> (unit, 'a vdisk_state_scheme) routine" where
  "free_chain_loop 0 i = fail Loops"
| "free_chain_loop (Suc n) i =
     bind (gets (\<lambda>s. desc (vio s) i)) (\<lambda>d.
     seq (free_desc i) (
     if dflags d AND VRING_DESC_F_NEXT \<noteq> 0 then free_chain_loop n (unat (dnext d)) else skip))"

definition free_chain :: "nat \<Rightarrow> (unit, 'a vdisk_state_scheme) routine" where
  "free_chain i = free_chain_loop (Suc NUM) i"

text \<open>On failure the descriptors already taken are given back, in order.\<close>

fun alloc3_loop :: "nat \<Rightarrow> nat list \<Rightarrow> (nat list option, 'a vdisk_state_scheme) routine" where
  "alloc3_loop 0 idx = ret (Some idx)"
| "alloc3_loop (Suc n) idx =
     bind alloc_desc (\<lambda>r.
     case r of
       None \<Rightarrow> seq (for_each idx free_desc) (ret None)
     | Some i \<Rightarrow> alloc3_loop n (idx @ [i]))"

definition alloc3_desc :: "(nat list option, 'a vdisk_state_scheme) routine" where
  "alloc3_desc = alloc3_loop 3 []"

section \<open>Requests\<close>

definition fill_request :: "nat \<Rightarrow> bool \<Rightarrow> u64 \<Rightarrow> nat \<Rightarrow> nat \<Rightarrow> nat \<Rightarrow> (unit, 'a vdisk_state_scheme) routine" where
  "fill_request b wr sector i0 i1 i2 =
     seq (upd_vio (\<lambda>v. v\<lparr>vops := (vops v)(i0 := \<lparr>rtype = (if wr then VIRTIO_BLK_T_OUT else VIRTIO_BLK_T_IN),
            rreserved = 0, rsector = sector\<rparr>)\<rparr>)) (
     seq (set_desc i0 \<lparr>daddr = POps i0, dlen = 16, dflags = VRING_DESC_F_NEXT, dnext = of_nat i1\<rparr>) (
     seq (set_desc i1 \<lparr>daddr = PData b, dlen = 1024,
            dflags = (if wr then 0 else VRING_DESC_F_WRITE) OR VRING_DESC_F_NEXT, dnext = of_nat i2\<rparr>) (
     seq (upd_vio (\<lambda>v. v\<lparr>vstatus := (vstatus v)(i0 := 0xff)\<rparr>)) (
     set_desc i2 \<lparr>daddr = PStatus i0, dlen = 1, dflags = VRING_DESC_F_WRITE, dnext = 0\<rparr>))))"

definition intr_one :: "(unit, 'a vdisk_state_scheme) routine" where
  "intr_one =
     bind (gets (\<lambda>s. unat (used_ring (vio s) (unat (used_idx s) mod NUM)))) (\<lambda>id.
     if id \<ge> NUM then undef ''virtio_disk_intr'' else
     bind (gets (\<lambda>s. vstatus (vio s) id)) (\<lambda>st.
     if st \<noteq> 0 then panic ''virtio_disk_intr status'' else
     bind (gets (\<lambda>s. info_b s id)) (\<lambda>ob.
     case ob of None \<Rightarrow> undef ''virtio_disk_intr'' | Some b \<Rightarrow>
     seq (upd_buf b (bdisk_update (\<lambda>_. False))) (
     seq (wakeup (ChanBuf b)) (
     modify (\<lambda>s. s\<lparr>used_idx := used_idx s + 1\<rparr>))))))"

fun virtio_intr_loop :: "nat \<Rightarrow> (unit, 'a vdisk_state_scheme) routine" where
  "virtio_intr_loop 0 = skip"
| "virtio_intr_loop (Suc n) = seq intr_one (virtio_intr_loop n)"

text \<open>The loop runs until \<open>used_idx\<close> has caught up with the device's 16-bit index.\<close>

definition virtio_disk_intr :: "(unit, 'a vdisk_state_scheme) routine" where
  "virtio_disk_intr =
     seq (acquire VdiskLock) (
     bind (Rd 0x060) (\<lambda>st.
     seq (Wr 0x064 (st AND 3)) (
     bind (gets (\<lambda>s. unat (used_didx (vio s) - used_idx s))) (\<lambda>n.
     seq (virtio_intr_loop n) (
     release VdiskLock)))))"

definition device_runs :: "(unit, 'a vdisk_state_scheme) routine" where
  "device_runs = modify (\<lambda>s. s\<lparr>vio := device s (vio s)\<rparr>)"

definition virtio_wait :: "nat \<Rightarrow> (unit, 'a vdisk_state_scheme) routine" where
  "virtio_wait b =
     bind (gets (\<lambda>s. bdisk (bufs s b))) (\<lambda>d.
     if \<not> d then skip else
     seq (release VdiskLock) (
     seq device_runs (
     seq virtio_disk_intr (
     seq (acquire VdiskLock) (
     bind (gets (\<lambda>s. bdisk (bufs s b))) (\<lambda>d'.
     if d' then fail (Spin ''virtio_disk_rw'') else skip))))))"

definition virtio_submit :: "nat \<Rightarrow> bool \<Rightarrow> u64 \<Rightarrow> nat \<Rightarrow> nat \<Rightarrow> nat \<Rightarrow> (unit, 'a vdisk_state_scheme) routine" where
  "virtio_submit b wr sector i0 i1 i2 =
     seq (fill_request b wr sector i0 i1 i2) (
     seq (upd_buf b (bdisk_update (\<lambda>_. True))) (
     seq (modify (\<lambda>s. s\<lparr>info_b := (info_b s)(i0 := Some b)\<rparr>)) (
     seq (upd_vio (\<lambda>v. v\<lparr>avail_ring := (avail_ring v)(unat (avail_idx v) mod NUM := of_nat i0)\<rparr>)) (
     seq (upd_vio (\<lambda>v. v\<lparr>avail_idx := avail_idx v + 1\<rparr>)) (
     Wr 0x050 0)))))"

definition virtio_disk_rw :: "nat \<Rightarrow> bool \<Rightarrow> (unit, 'a vdisk_state_scheme) routine" where
  "virtio_disk_rw b wr =
     bind (gets (\<lambda>s. ucast (blockno (bufs s b) * 2) :: u64)) (\<lambda>sector.
     seq (acquire VdiskLock) (
     bind alloc3_desc (\<lambda>r.
     case r of None \<Rightarrow> sleep ChanDiskFree VdiskLock | Some idx \<Rightarrow>
     seq (virtio_submit b wr sector (idx ! 0) (idx ! 1) (idx ! 2)) (
     seq (virtio_wait b) (
     seq (modify (\<lambda>s. s\<lparr>info_b := (info_b s)(idx ! 0 := None)\<rparr>)) (
     seq (free_chain (idx ! 0)) (
     release VdiskLock)))))))"

section \<open>What the device promises\<close>

text \<open>Block \<open>n\<close> of the medium: two sectors of 512 bytes.\<close>

definition sectors :: "(nat \<Rightarrow> block) \<Rightarrow> nat \<Rightarrow> block" where
  "sectors m n = (\<lambda>i. if i < 1024 then m (n + i div 512) (i mod 512) else 0)"

definition put_sectors :: "(nat \<Rightarrow> block) \<Rightarrow> nat \<Rightarrow> block \<Rightarrow> nat \<Rightarrow> block" where
  "put_sectors m n d = (\<lambda>k i. if n \<le> k \<and> k < n + 2 \<and> i < 512 then d ((k - n) * 512 + i) else m k i)"

text \<open>Serving the oldest unserved request, of header, 1024 bytes of data, and status byte.\<close>

definition serve :: "vio \<Rightarrow> vio" where
  "serve v =
     (let h = avail_ring v (unat (used_didx v) mod NUM);
          d0 = desc v (unat h); d1 = desc v (unat (dnext d0)); d2 = desc v (unat (dnext d1))
      in case (daddr d0, daddr d1, daddr d2) of
           (POps r, PData b, PStatus t) \<Rightarrow>
             (let n = unat (rsector (vops v r)); w = (rtype (vops v r) = VIRTIO_BLK_T_OUT)
              in v\<lparr>used_didx := used_didx v + 1,
                   used_ring := (used_ring v)(unat (used_didx v) mod NUM := ucast h),
                   vstatus := (vstatus v)(t := 0),
                   bdata := (if w then bdata v else (bdata v)(b := sectors (media v) n)),
                   media := (if w then put_sectors (media v) n (bdata v b) else media v)\<rparr>)
         | _ \<Rightarrow> v)"

definition well_formed_request :: "vio \<Rightarrow> bool" where
  "well_formed_request v \<longleftrightarrow>
     (let d0 = desc v (unat (avail_ring v (unat (used_didx v) mod NUM)));
          d1 = desc v (unat (dnext d0)); d2 = desc v (unat (dnext d1))
      in (\<exists>r b t. daddr d0 = POps r \<and> daddr d1 = PData b \<and> daddr d2 = PStatus t \<and>
            rtype (vops v r) \<in> {VIRTIO_BLK_T_IN, VIRTIO_BLK_T_OUT} \<and>
            dflags d1 = (if rtype (vops v r) = VIRTIO_BLK_T_OUT then 0 else VRING_DESC_F_WRITE) OR VRING_DESC_F_NEXT) \<and>
         dlen d0 = 16 \<and> dlen d1 = 1024 \<and> dlen d2 = 1 \<and>
         dflags d0 = VRING_DESC_F_NEXT \<and> dflags d2 = VRING_DESC_F_WRITE)"

text \<open>One outstanding, well-formed request is served.\<close>

definition conforming :: "(vio \<Rightarrow> vio) \<Rightarrow> bool" where
  "conforming dev \<longleftrightarrow> (\<forall>v. avail_idx v = used_didx v + 1 \<longrightarrow> well_formed_request v \<longrightarrow> dev v = serve v)"

lemma sectors_put [simp]: "sectors (put_sectors m n d) n = (\<lambda>i. if i < 1024 then d i else 0)"
proof
  fix i :: nat
  have "i < 1024 \<Longrightarrow> i div 512 < 2" by simp
  moreover have "i div 512 * 512 + i mod 512 = i" by simp
  ultimately show "sectors (put_sectors m n d) n i = (if i < 1024 then d i else 0)"
    by (auto simp: sectors_def put_sectors_def)
qed

lemma sectors_put_other: "n' + 2 \<le> n \<or> n + 2 \<le> n' \<Longrightarrow> sectors (put_sectors m n d) n' = sectors m n'"
proof
  fix i :: nat
  assume d: "n' + 2 \<le> n \<or> n + 2 \<le> n'"
  have "i < 1024 \<Longrightarrow> i div 512 < 2" by simp
  with d show "sectors (put_sectors m n d) n' i = sectors m n' i"
    by (auto simp: sectors_def put_sectors_def)
qed

section \<open>Correctness of a transfer\<close>

definition vq_idle :: "'a vdisk_state_scheme \<Rightarrow> bool" where
  "vq_idle s \<longleftrightarrow> (\<forall>i<NUM. vfree s i) \<and> avail_idx (vio s) = used_didx (vio s) \<and>
     used_idx s = used_didx (vio s) \<and> conforming (device s)"

lemma alloc_desc_eq:
  assumes "i < NUM" "vfree s i" "\<forall>j<i. \<not> vfree s j"
  shows "alloc_desc s = (Ret (Some i), s\<lparr>vfree := (vfree s)(i := False)\<rparr>)"
proof -
  have "alloc_desc s = for_until ([0..<i] @ i # [Suc i..<NUM]) (\<lambda>i.
       bind (gets (\<lambda>s. vfree s i)) (\<lambda>f.
       if f then seq (modify (\<lambda>s. s\<lparr>vfree := (vfree s)(i := False)\<rparr>)) (ret (Some i)) else ret None)) s"
    using upt_split [OF assms(1)] by (simp add: alloc_desc_def)
  also have "\<dots> = (Ret (Some i), s\<lparr>vfree := (vfree s)(i := False)\<rparr>)"
    by (rule for_until_hit [where I = "\<lambda>t. t = s" and g = "\<lambda>t. t"]) (use assms in \<open>auto simp: kdefs\<close>)
  finally show ?thesis .
qed

lemma alloc3_idle:
  assumes "\<forall>i<NUM. vfree s i"
  shows "alloc3_desc s = (Ret (Some [0, 1, 2]), s\<lparr>vfree := (vfree s)(0 := False, 1 := False, 2 := False)\<rparr>)"
  using assms by (simp add: alloc3_desc_def numeral_3_eq_3 bind_Ret alloc_desc_eq [of 0]
      alloc_desc_eq [of 1] alloc_desc_eq [of 2] less_Suc_eq numeral_2_eq_2 ret_def)

lemma free_desc_eq:
  assumes "i < NUM" "\<not> vfree s i" "procs_free s" "nobody_sleeps s"
  shows "free_desc i s = (Ret (), s\<lparr>vio := (vio s)\<lparr>desc := (desc (vio s))(i := null_desc)\<rparr>,
    vfree := (vfree s)(i := True), ctl := settle (ctl s)\<rparr>)"
proof -
  let ?t = "s\<lparr>vio := (vio s)\<lparr>desc := (desc (vio s))(i := null_desc)\<rparr>, vfree := (vfree s)(i := True)\<rparr>"
  have "wakeup ChanDiskFree ?t = (Ret (), ?t\<lparr>ctl := settle (ctl ?t)\<rparr>)"
    using assms by (intro wakeup_none) (simp_all add: procs_free_def nobody_sleeps_def)
  then show ?thesis
    using assms by (simp add: free_desc_def bind_def seq_def gets_def modify_def set_desc_def upd_vio_def)
qed

text \<open>The state in which the request for \<open>b\<close> has been handed to the device.\<close>

definition submitted :: "nat \<Rightarrow> bool \<Rightarrow> u64 \<Rightarrow> vio \<Rightarrow> vio" where
  "submitted b wr sector v = v\<lparr>
     desc := (desc v)(
       0 := \<lparr>daddr = POps 0, dlen = 16, dflags = 1, dnext = 1\<rparr>,
       1 := \<lparr>daddr = PData b, dlen = 1024, dflags = (if wr then 0 else 2) OR 1, dnext = 2\<rparr>,
       2 := \<lparr>daddr = PStatus 0, dlen = 1, dflags = 2, dnext = 0\<rparr>),
     avail_idx := avail_idx v + 1,
     avail_ring := (avail_ring v)(unat (avail_idx v) mod NUM := 0),
     vops := (vops v)(0 := \<lparr>rtype = (if wr then 1 else 0), rreserved = 0, rsector = sector\<rparr>),
     vstatus := (vstatus v)(0 := 0xff)\<rparr>"

lemma submitted_served:
  assumes "conforming dev" "avail_idx v = used_didx v"
  shows "dev (submitted b wr sector v) =
    (let v' = submitted b wr sector v in v'\<lparr>used_didx := used_didx v + 1,
       used_ring := (used_ring v)(unat (used_didx v) mod NUM := 0),
       vstatus := (vstatus v)(0 := 0),
       bdata := (if wr then bdata v else (bdata v)(b := sectors (media v) (unat sector))),
       media := (if wr then put_sectors (media v) (unat sector) (bdata v b) else media v)\<rparr>)"
proof -
  have "well_formed_request (submitted b wr sector v)"
    using assms(2) by (simp add: well_formed_request_def submitted_def Let_def)
  then have "dev (submitted b wr sector v) = serve (submitted b wr sector v)"
    using assms by (simp add: conforming_def submitted_def)
  also have "\<dots> = (let v' = submitted b wr sector v in v'\<lparr>used_didx := used_didx v + 1,
       used_ring := (used_ring v)(unat (used_didx v) mod NUM := 0),
       vstatus := (vstatus v)(0 := 0),
       bdata := (if wr then bdata v else (bdata v)(b := sectors (media v) (unat sector))),
       media := (if wr then put_sectors (media v) (unat sector) (bdata v b) else media v)\<rparr>)"
    using assms(2) by (simp add: serve_def submitted_def Let_def)
  finally show ?thesis .
qed

lemma virtio_intr_eq:
  assumes "lock_free VdiskLock (ctl s)" "procs_free s" "nobody_sleeps s"
    and "used_didx (vio s) = used_idx s + 1" "used_ring (vio s) (unat (used_idx s) mod NUM) = 0"
    and "vstatus (vio s) 0 = 0" "info_b s 0 = Some b"
  shows "\<exists>ml. virtio_disk_intr s = (Ret (), s\<lparr>mmio_log := ml, bufs := (bufs s)(b := (bufs s b)\<lparr>bdisk := False\<rparr>),
    used_idx := used_idx s + 1, ctl := settle (ctl s)\<rparr>)"
proof -
  let ?ml = "mmio_log s @ [(0x064, mmio s (mmio_log s) 0x060 AND 3)]"
  let ?t = "s\<lparr>ctl := acq VdiskLock (ctl s), mmio_log := ?ml\<rparr>"
  let ?u = "?t\<lparr>bufs := (bufs s)(b := (bufs s b)\<lparr>bdisk := False\<rparr>)\<rparr>"
  have "wakeup (ChanBuf b) ?u = (Ret (), ?u\<lparr>ctl := settle (ctl ?u)\<rparr>)"
    using assms by (intro wakeup_none) (simp_all add: procs_free_def nobody_sleeps_def)
  then have "intr_one ?t = (Ret (), ?u\<lparr>used_idx := used_idx s + 1\<rparr>)"
    using assms by (simp add: intr_one_def bind_def seq_def gets_def modify_def upd_buf_def)
  moreover have "unat (used_didx (vio s) - used_idx s) = Suc 0" using assms by simp
  ultimately have "virtio_disk_intr s = (Ret (), s\<lparr>mmio_log := ?ml,
      bufs := (bufs s)(b := (bufs s b)\<lparr>bdisk := False\<rparr>), used_idx := used_idx s + 1, ctl := settle (ctl s)\<rparr>)"
    using assms(1) by (simp add: virtio_disk_intr_def bind_def seq_def Rd_def Wr_def gets_def modify_def
        acquire_ok release_ok skip_def ret_def)
  then show ?thesis by blast
qed

text \<open>\<open>transferred\<close>: the effect of a request on the shared memory, once its descriptors are free again.\<close>

definition transferred :: "nat \<Rightarrow> bool \<Rightarrow> nat \<Rightarrow> vio \<Rightarrow> vio \<Rightarrow> bool" where
  "transferred b wr n v v' \<longleftrightarrow> avail_idx v' = avail_idx v + 1 \<and> used_didx v' = used_didx v + 1 \<and>
     bdata v' = (if wr then bdata v else (bdata v)(b := sectors (media v) n)) \<and>
     media v' = (if wr then put_sectors (media v) n (bdata v b) else media v)"

lemma virtio_wait_eq:
  assumes "ctl s = acq VdiskLock c" "\<forall>lk. lock_free lk c"
    and "nobody_sleeps s"
    and "vio s = submitted b wr sector v" "avail_idx v = used_didx v" "used_idx s = used_didx v"
    and "conforming (device s)" "info_b s 0 = Some b" "bdisk (bufs s b)"
  shows "\<exists>ml. virtio_wait b s = (Ret (), s\<lparr>mmio_log := ml, vio := device s (vio s),
    bufs := (bufs s)(b := (bufs s b)\<lparr>bdisk := False\<rparr>), used_idx := used_idx s + 1\<rparr>)"
proof -
  let ?t = "s\<lparr>ctl := settle c, vio := device s (vio s)\<rparr>"
  have srv: "device s (vio s) = (let v' = submitted b wr sector v in v'\<lparr>used_didx := used_didx v + 1,
       used_ring := (used_ring v)(unat (used_didx v) mod NUM := 0),
       vstatus := (vstatus v)(0 := 0),
       bdata := (if wr then bdata v else (bdata v)(b := sectors (media v) (unat sector))),
       media := (if wr then put_sectors (media v) (unat sector) (bdata v b) else media v)\<rparr>)"
    unfolding assms(4) using submitted_served [OF assms(7,5)] .
  have "\<exists>ml. virtio_disk_intr ?t = (Ret (), ?t\<lparr>mmio_log := ml,
      bufs := (bufs ?t)(b := (bufs ?t b)\<lparr>bdisk := False\<rparr>), used_idx := used_idx ?t + 1, ctl := settle (ctl ?t)\<rparr>)"
  proof (rule virtio_intr_eq)
    show "used_didx (vio ?t) = used_idx ?t + 1" "vstatus (vio ?t) 0 = 0"
      "used_ring (vio ?t) (unat (used_idx ?t) mod NUM) = 0"
      using assms(6) by (simp_all add: srv Let_def)
  qed (use assms in \<open>simp_all add: procs_free_def nobody_sleeps_def\<close>)
  then obtain ml where i: "virtio_disk_intr ?t = (Ret (), ?t\<lparr>mmio_log := ml,
      bufs := (bufs ?t)(b := (bufs ?t b)\<lparr>bdisk := False\<rparr>), used_idx := used_idx ?t + 1, ctl := settle (ctl ?t)\<rparr>)"
    by blast
  have "release VdiskLock s = (Ret (), s\<lparr>ctl := settle c\<rparr>)"
    using assms(1,2) by (simp add: release_ok)
  then have "virtio_wait b s = (Ret (), s\<lparr>vio := device s (vio s), mmio_log := ml,
      bufs := (bufs s)(b := (bufs s b)\<lparr>bdisk := False\<rparr>), used_idx := used_idx s + 1, ctl := acq VdiskLock c\<rparr>)"
    using assms(2,9) i by (simp add: virtio_wait_def bind_def seq_def gets_def device_runs_def modify_def
        acquire_ok skip_def ret_def)
  moreover have "s\<lparr>vio := device s (vio s), mmio_log := ml, bufs := (bufs s)(b := (bufs s b)\<lparr>bdisk := False\<rparr>),
      used_idx := used_idx s + 1, ctl := acq VdiskLock c\<rparr> =
    s\<lparr>mmio_log := ml, vio := device s (vio s), bufs := (bufs s)(b := (bufs s b)\<lparr>bdisk := False\<rparr>),
      used_idx := used_idx s + 1\<rparr>"
    using assms(1) by (cases s) simp
  ultimately show ?thesis by auto
qed

lemma free_chain_step:
  assumes "i < NUM" "\<not> vfree s i" "procs_free s" "nobody_sleeps s"
  shows "free_chain_loop (Suc n) i s =
    (if dflags (desc (vio s) i) AND 1 \<noteq> 0 then free_chain_loop n (unat (dnext (desc (vio s) i))) else skip)
    (s\<lparr>vio := (vio s)\<lparr>desc := (desc (vio s))(i := null_desc)\<rparr>, vfree := (vfree s)(i := True),
       ctl := settle (ctl s)\<rparr>)"
  using free_desc_eq [OF assms] by (simp add: bind_def seq_def gets_def)

lemma free_chain3:
  fixes s :: "'a vdisk_state_scheme"
  assumes "\<not> vfree s 0" "\<not> vfree s 1" "\<not> vfree s 2" "procs_free s" "nobody_sleeps s"
    and "dflags (desc (vio s) 0) = 1" "dnext (desc (vio s) 0) = 1"
    and "dflags (desc (vio s) 1) AND 1 \<noteq> 0" "dnext (desc (vio s) 1) = 2" "dflags (desc (vio s) 2) = 2"
  shows "free_chain_loop (Suc (Suc (Suc n))) 0 s =
    (Ret (), s\<lparr>vio := (vio s)\<lparr>desc := (desc (vio s))(0 := null_desc, 1 := null_desc, 2 := null_desc)\<rparr>,
    vfree := (vfree s)(0 := True, 1 := True, 2 := True), ctl := settle (ctl s)\<rparr>)"
proof -
  have pf: "procs_free (t\<lparr>vio := v, vfree := f, ctl := settle (ctl t)\<rparr>) = procs_free t"
    "nobody_sleeps (t\<lparr>vio := v, vfree := f, ctl := settle (ctl t)\<rparr>) = nobody_sleeps t"
    for t :: "'a vdisk_state_scheme" and v f
    by (simp_all add: procs_free_def nobody_sleeps_def)
  show ?thesis
    using assms by (simp add: free_chain_step pf skip_def ret_def del: free_chain_loop.simps)
qed

lemma free_chain_is: "free_chain i = free_chain_loop (Suc (Suc (Suc 6))) i"
  by (simp add: free_chain_def)

lemma virtio_submit_eq:
  "virtio_submit b wr sector 0 1 2 s = (Ret (), s\<lparr>bufs := (bufs s)(b := (bufs s b)\<lparr>bdisk := True\<rparr>),
     info_b := (info_b s)(0 := Some b), vio := submitted b wr sector (vio s),
     mmio_log := mmio_log s @ [(0x050, 0)]\<rparr>)"
proof -
  have v: "(vio s)\<lparr>vops := (vops (vio s))(0 := \<lparr>rtype = (if wr then 1 else 0), rreserved = 0, rsector = sector\<rparr>),
      vstatus := (vstatus (vio s))(0 := 0xff),
      desc := (desc (vio s))(0 := \<lparr>daddr = POps 0, dlen = 16, dflags = 1, dnext = 1\<rparr>,
       1 := \<lparr>daddr = PData b, dlen = 1024, dflags = (if wr then 0 else 2) OR 1, dnext = 2\<rparr>,
       2 := \<lparr>daddr = PStatus 0, dlen = 1, dflags = 2, dnext = 0\<rparr>),
      avail_ring := (avail_ring (vio s))(unat (avail_idx (vio s)) mod NUM := 0),
      avail_idx := avail_idx (vio s) + 1\<rparr> = submitted b wr sector (vio s)"
    by (simp add: submitted_def)
  show ?thesis
    unfolding v [symmetric]
    by (simp add: virtio_submit_def fill_request_def set_desc_def upd_vio_def upd_buf_def Wr_def
        seq_def bind_def modify_def)
qed

text \<open>A transfer moves exactly one block between the buffer and the medium, leaves the queue idle again
  and gives up the buffer.\<close>

lemma virtio_disk_rw_eq:
  fixes s :: "'a vdisk_state_scheme"
  assumes "solo p s" "vq_idle s"
  shows "\<exists>v' ml. virtio_disk_rw b wr s = (Ret (), s\<lparr>vio := v', info_b := (info_b s)(0 := None), mmio_log := ml,
      bufs := (bufs s)(b := (bufs s b)\<lparr>bdisk := False\<rparr>), used_idx := used_didx v', ctl := settle (ctl s)\<rparr>) \<and>
    transferred b wr (unat (ucast (blockno (bufs s b) * 2) :: u64)) (vio s) v'"
proof -
  have lk: "lock_free l (ctl s)" for l using assms(1) by (simp add: solo_def running_def)
  have idle: "\<forall>i<8. vfree s i" "avail_idx (vio s) = used_didx (vio s)" "used_idx s = used_didx (vio s)"
    "conforming (device s)" using assms(2) by (auto simp: vq_idle_def)
  have ns: "nobody_sleeps s" using assms(1) by (simp add: solo_def)
  define sec where "sec = (ucast (blockno (bufs s b) * 2) :: u64)"
  define v where "v = submitted b wr sec (vio s)"
  define t1 where "t1 = s\<lparr>ctl := acq VdiskLock (ctl s)\<rparr>"
  have a1: "acquire VdiskLock s = (Ret (), t1)" using lk by (simp add: t1_def acquire_ok)
  define t2 where "t2 = t1\<lparr>vfree := (vfree s)(0 := False, 1 := False, 2 := False)\<rparr>"
  have a2: "alloc3_desc t1 = (Ret (Some [0, 1, 2]), t2)" using alloc3_idle [of t1] idle(1) by (simp add: t1_def t2_def)
  define t3 where "t3 = t2\<lparr>bufs := (bufs s)(b := (bufs s b)\<lparr>bdisk := True\<rparr>),
     info_b := (info_b s)(0 := Some b), vio := v, mmio_log := mmio_log s @ [(0x050, 0)]\<rparr>"
  have a3: "virtio_submit b wr sec 0 1 2 t2 = (Ret (), t3)"
    using virtio_submit_eq [of b wr sec t2] by (simp add: t3_def t2_def t1_def v_def)
  have "\<exists>ml. virtio_wait b t3 = (Ret (), t3\<lparr>mmio_log := ml, vio := device t3 (vio t3),
      bufs := (bufs t3)(b := (bufs t3 b)\<lparr>bdisk := False\<rparr>), used_idx := used_idx t3 + 1\<rparr>)"
    by (rule virtio_wait_eq [of t3 "ctl s" b wr sec "vio s"])
      (use lk idle ns in \<open>simp_all add: t3_def t2_def t1_def v_def nobody_sleeps_def\<close>)
  then obtain ml where a4: "virtio_wait b t3 = (Ret (), t3\<lparr>mmio_log := ml, vio := device s v,
      bufs := (bufs s)(b := (bufs s b)\<lparr>bdisk := False\<rparr>), used_idx := used_didx (vio s) + 1\<rparr>)"
    using idle(3) by (auto simp: t3_def t2_def t1_def)
  have srv: "device s v = v\<lparr>used_didx := used_didx (vio s) + 1,
       used_ring := (used_ring (vio s))(unat (used_didx (vio s)) mod NUM := 0),
       vstatus := (vstatus (vio s))(0 := 0),
       bdata := (if wr then bdata (vio s) else (bdata (vio s))(b := sectors (media (vio s)) (unat sec))),
       media := (if wr then put_sectors (media (vio s)) (unat sec) (bdata (vio s) b) else media (vio s))\<rparr>"
    using submitted_served [OF idle(4,2)] by (simp add: Let_def v_def)
  have "desc (device s v) = desc v" by (simp add: srv)
  then have dv: "desc (device s v) = (desc (vio s))(
       0 := \<lparr>daddr = POps 0, dlen = 16, dflags = 1, dnext = 1\<rparr>,
       1 := \<lparr>daddr = PData b, dlen = 1024, dflags = (if wr then 0 else 2) OR 1, dnext = 2\<rparr>,
       2 := \<lparr>daddr = PStatus 0, dlen = 1, dflags = 2, dnext = 0\<rparr>)"
    by (simp add: v_def submitted_def)
  define t5 where "t5 = t3\<lparr>mmio_log := ml, vio := device s v, bufs := (bufs s)(b := (bufs s b)\<lparr>bdisk := False\<rparr>),
    used_idx := used_didx (vio s) + 1, info_b := (info_b s)(0 := None)\<rparr>"
  define v' where "v' = (device s v)\<lparr>desc := (desc (vio s))(0 := null_desc, 1 := null_desc, 2 := null_desc)\<rparr>"
  define t6 where "t6 = t5\<lparr>vio := v', vfree := vfree s\<rparr>"
  have fr: "(vfree t5)(0 := True, 1 := True, 2 := True) = vfree s"
    using idle(1) by (auto simp: t5_def t3_def t2_def fun_eq_iff)
  have cs: "ctl t5 = acq VdiskLock (ctl s)" by (simp add: t5_def t3_def t2_def t1_def)
  have "free_chain 0 t5 = (Ret (), t5\<lparr>vio := (vio t5)\<lparr>desc := (desc (vio t5))(0 := null_desc, 1 := null_desc, 2 := null_desc)\<rparr>,
    vfree := (vfree t5)(0 := True, 1 := True, 2 := True), ctl := settle (ctl t5)\<rparr>)"
    unfolding free_chain_is
    by (rule free_chain3) (use lk ns in \<open>simp_all add: t5_def t3_def t2_def t1_def dv
        procs_free_def nobody_sleeps_def\<close>)
  moreover have "(vio t5)\<lparr>desc := (desc (vio t5))(0 := null_desc, 1 := null_desc, 2 := null_desc)\<rparr> = v'"
    by (auto simp: v'_def t5_def dv fun_eq_iff intro!: arg_cong [where f = "\<lambda>d. device s v\<lparr>desc := d\<rparr>"])
  ultimately have a6: "free_chain 0 t5 = (Ret (), t6)"
    unfolding fr cs by (simp add: t6_def t5_def t3_def t2_def t1_def)
  have "release VdiskLock t6 = (Ret (), t6\<lparr>ctl := settle (ctl s)\<rparr>)"
    using lk cs by (simp add: t6_def release_ok)
  then have "virtio_disk_rw b wr s = (Ret (), t6\<lparr>ctl := settle (ctl s)\<rparr>)"
    using a1 a2 a3 a4 a6 by (simp add: virtio_disk_rw_def bind_def seq_def gets_def modify_def t5_def t3_def t2_def t1_def flip: sec_def)
  moreover have "t6\<lparr>ctl := settle (ctl s)\<rparr> = s\<lparr>vio := v', info_b := (info_b s)(0 := None), mmio_log := ml,
      bufs := (bufs s)(b := (bufs s b)\<lparr>bdisk := False\<rparr>), used_idx := used_didx v', ctl := settle (ctl s)\<rparr>"
    by (simp add: t6_def t5_def t3_def t2_def t1_def v'_def srv)
  moreover have "transferred b wr (unat sec) (vio s) v'"
    by (simp add: transferred_def v'_def srv) (simp add: v_def submitted_def)
  ultimately show ?thesis by (intro exI [of _ v'] exI [of _ ml]) (simp add: sec_def)
qed

end
