(* ===== verification/Bio.thy ===== *)
theory Bio
  imports Virtio
begin

text \<open>
  \<open>kernel/bio.c\<close>: the buffer cache.

  A buffer is an index below \<open>NBUF\<close>; the list head of the LRU list is the extra index \<open>NBUF\<close>, and
  \<open>bprev\<close>, \<open>bnext\<close> are the pointers of the doubly linked list.  A search walks at most \<open>NBUF + 1\<close>
  nodes; more would mean that the list is not a ring through the head, and is the outcome \<open>Loops\<close>.
  \<open>ring bs xs\<close> says that the list, from most to least recently used, is \<open>xs\<close>.
\<close>

section \<open>Operations\<close>

abbreviation (input) HEAD :: nat where "HEAD \<equiv> NBUF"

definition binit_one :: "nat \<Rightarrow> (unit, 'a vdisk_state_scheme) routine" where
  "binit_one b =
     bind (gets (\<lambda>s. bnext (bufs s HEAD))) (\<lambda>first.
     seq (upd_buf b (bnext_update (\<lambda>_. first))) (
     seq (upd_buf b (bprev_update (\<lambda>_. HEAD))) (
     seq (initsleeplock (SlBuf b) ''buffer'') (
     seq (upd_buf first (bprev_update (\<lambda>_. b))) (
     upd_buf HEAD (bnext_update (\<lambda>_. b)))))))"

definition binit :: "(unit, 'a vdisk_state_scheme) routine" where
  "binit =
     seq (initlock BcacheLock ''bcache'') (
     seq (upd_buf HEAD (bprev_update (\<lambda>_. HEAD))) (
     seq (upd_buf HEAD (bnext_update (\<lambda>_. HEAD))) (
     for_each [0..<NBUF] binit_one)))"

fun find_cached :: "nat \<Rightarrow> nat \<Rightarrow> u32 \<Rightarrow> u32 \<Rightarrow> (nat option, 'a vdisk_state_scheme) routine" where
  "find_cached 0 b dev bn = fail Loops"
| "find_cached (Suc n) b dev bn =
     (if b = HEAD then ret None else
      bind (gets (\<lambda>s. bufs s b)) (\<lambda>x.
      if bdev x = dev \<and> blockno x = bn then ret (Some b) else find_cached n (bnext x) dev bn))"

fun find_lru :: "nat \<Rightarrow> nat \<Rightarrow> (nat option, 'a vdisk_state_scheme) routine" where
  "find_lru 0 b = fail Loops"
| "find_lru (Suc n) b =
     (if b = HEAD then ret None else
      bind (gets (\<lambda>s. bufs s b)) (\<lambda>x.
      if refcnt x = 0 then ret (Some b) else find_lru n (bprev x)))"

definition bget :: "u32 \<Rightarrow> u32 \<Rightarrow> (nat, 'a vdisk_state_scheme) routine" where
  "bget dev bn =
     seq (acquire BcacheLock) (
     bind (gets (\<lambda>s. bnext (bufs s HEAD))) (\<lambda>first.
     bind (find_cached (Suc NBUF) first dev bn) (\<lambda>hit.
     case hit of
       Some b \<Rightarrow>
         seq (upd_buf b (refcnt_update (\<lambda>r. r + 1))) (
         seq (release BcacheLock) (
         seq (acquiresleep (SlBuf b)) (
         ret b)))
     | None \<Rightarrow>
         bind (gets (\<lambda>s. bprev (bufs s HEAD))) (\<lambda>lst.
         bind (find_lru (Suc NBUF) lst) (\<lambda>old.
         case old of
           Some b \<Rightarrow>
             seq (upd_buf b (\<lambda>x. x\<lparr>bdev := dev, blockno := bn, bvalid := False, refcnt := 1\<rparr>)) (
             seq (release BcacheLock) (
             seq (acquiresleep (SlBuf b)) (
             ret b)))
         | None \<Rightarrow> panic ''bget: no buffers'')))))"

definition bread :: "u32 \<Rightarrow> u32 \<Rightarrow> (nat, 'a vdisk_state_scheme) routine" where
  "bread dev bn =
     bind (bget dev bn) (\<lambda>b.
     bind (gets (\<lambda>s. bvalid (bufs s b))) (\<lambda>v.
     seq (only_if (\<not> v) (
       seq (virtio_disk_rw b False) (
       upd_buf b (bvalid_update (\<lambda>_. True))))) (
     ret b)))"

definition bwrite :: "nat \<Rightarrow> (unit, 'a vdisk_state_scheme) routine" where
  "bwrite b =
     bind (holdingsleep (SlBuf b)) (\<lambda>h.
     if \<not> h then panic ''bwrite'' else virtio_disk_rw b True)"

definition move_front :: "nat \<Rightarrow> (unit, 'a vdisk_state_scheme) routine" where
  "move_front b =
     bind (gets (\<lambda>s. bufs s b)) (\<lambda>x.
     seq (upd_buf (bnext x) (bprev_update (\<lambda>_. bprev x))) (
     bind (gets (\<lambda>s. bufs s b)) (\<lambda>x.
     seq (upd_buf (bprev x) (bnext_update (\<lambda>_. bnext x))) (
     bind (gets (\<lambda>s. bnext (bufs s HEAD))) (\<lambda>first.
     seq (upd_buf b (bnext_update (\<lambda>_. first))) (
     seq (upd_buf b (bprev_update (\<lambda>_. HEAD))) (
     bind (gets (\<lambda>s. bnext (bufs s HEAD))) (\<lambda>first.
     seq (upd_buf first (bprev_update (\<lambda>_. b))) (
     upd_buf HEAD (bnext_update (\<lambda>_. b)))))))))))"

definition brelse :: "nat \<Rightarrow> (unit, 'a vdisk_state_scheme) routine" where
  "brelse b =
     bind (holdingsleep (SlBuf b)) (\<lambda>h.
     if \<not> h then panic ''brelse'' else
     seq (releasesleep (SlBuf b)) (
     seq (acquire BcacheLock) (
     seq (upd_buf b (refcnt_update (\<lambda>r. r - 1))) (
     bind (gets (\<lambda>s. refcnt (bufs s b))) (\<lambda>r.
     seq (only_if (r = 0) (move_front b)) (
     release BcacheLock))))))"

definition bpin :: "nat \<Rightarrow> (unit, 'a vdisk_state_scheme) routine" where
  "bpin b =
     seq (acquire BcacheLock) (
     seq (upd_buf b (refcnt_update (\<lambda>r. r + 1))) (
     release BcacheLock))"

definition bunpin :: "nat \<Rightarrow> (unit, 'a vdisk_state_scheme) routine" where
  "bunpin b =
     seq (acquire BcacheLock) (
     seq (upd_buf b (refcnt_update (\<lambda>r. r - 1))) (
     release BcacheLock))"

text \<open>The data of a buffer, read and modified through its pointer.\<close>

definition buf_data :: "nat \<Rightarrow> 'a vdisk_state_scheme \<Rightarrow> block" where
  "buf_data b s = bdata (vio s) b"

definition set_data :: "nat \<Rightarrow> (block \<Rightarrow> block) \<Rightarrow> (unit, 'a vdisk_state_scheme) routine" where
  "set_data b f = upd_vio (\<lambda>v. v\<lparr>bdata := (bdata v)(b := f (bdata v b))\<rparr>)"

section \<open>The LRU list\<close>

definition linked :: "(nat \<Rightarrow> buf) \<Rightarrow> nat \<Rightarrow> nat \<Rightarrow> bool" where
  "linked bs a b \<longleftrightarrow> bnext (bs a) = b \<and> bprev (bs b) = a"

fun chain :: "(nat \<Rightarrow> buf) \<Rightarrow> nat \<Rightarrow> nat list \<Rightarrow> nat \<Rightarrow> bool" where
  "chain bs a [] z \<longleftrightarrow> linked bs a z"
| "chain bs a (x # xs) z \<longleftrightarrow> linked bs a x \<and> chain bs x xs z"

definition ring :: "(nat \<Rightarrow> buf) \<Rightarrow> nat list \<Rightarrow> bool" where
  "ring bs xs \<longleftrightarrow> chain bs HEAD xs HEAD \<and> distinct xs \<and> set xs = {0..<NBUF}"

lemma chain_append: "chain bs a (xs @ y # ys) z \<longleftrightarrow> chain bs a xs y \<and> chain bs y ys z"
  by (induction xs arbitrary: a) auto

lemma chain_cong:
  "(\<And>x. x \<in> insert a (set xs) \<Longrightarrow> bnext (bs x) = bnext (bs' x)) \<Longrightarrow>
   (\<And>x. x \<in> insert z (set xs) \<Longrightarrow> bprev (bs x) = bprev (bs' x)) \<Longrightarrow>
   chain bs a xs z = chain bs' a xs z"
  by (induction xs arbitrary: a) (auto simp: linked_def)

lemma chain_first: "chain bs a xs z \<Longrightarrow> bnext (bs a) = hd (xs @ [z])"
  by (cases xs) (auto simp: linked_def)

lemma chain_last: "chain bs a xs z \<Longrightarrow> bprev (bs z) = last (a # xs)"
  by (induction xs arbitrary: a) (auto simp: linked_def)

lemma find_cached_eq:
  "chain (bufs s) a ys HEAD \<Longrightarrow> HEAD \<notin> set ys \<Longrightarrow> length ys < n \<Longrightarrow>
   find_cached n (hd (ys @ [HEAD])) dev bn s =
     (Ret (find (\<lambda>b. bdev (bufs s b) = dev \<and> blockno (bufs s b) = bn) ys), s)"
proof (induction ys arbitrary: a n)
  case Nil
  then show ?case by (cases n) (auto simp: ret_def)
next
  case (Cons y ys)
  then obtain m where n: "n = Suc m" "length ys < m" by (cases n) auto
  have c: "chain (bufs s) y ys HEAD" using Cons.prems by simp
  then show ?case
    using Cons.IH [OF c _ n(2)] Cons.prems n chain_first [OF c] by (simp add: kdefs)
qed

lemma find_lru_eq:
  "chain (bufs s) HEAD ys z \<Longrightarrow> HEAD \<notin> set ys \<Longrightarrow> length ys < n \<Longrightarrow>
   find_lru n (last (HEAD # ys)) s = (Ret (find (\<lambda>b. refcnt (bufs s b) = 0) (rev ys)), s)"
proof (induction ys arbitrary: z n rule: rev_induct)
  case Nil
  then show ?case by (cases n) (auto simp: ret_def)
next
  case (snoc y ys)
  then obtain m where n: "n = Suc m" "length ys < m" by (cases n) auto
  have c: "chain (bufs s) HEAD ys y" using snoc.prems by (simp add: chain_append)
  then show ?case
    using snoc.IH [OF c _ n(2)] snoc.prems n chain_last [OF c] by (simp add: kdefs)
qed

text \<open>Unlinking a node, and linking it in behind the head.\<close>

definition set_prev :: "nat \<Rightarrow> nat \<Rightarrow> (nat \<Rightarrow> buf) \<Rightarrow> nat \<Rightarrow> buf" where
  "set_prev a v bs = bs(a := (bs a)\<lparr>bprev := v\<rparr>)"

definition set_next :: "nat \<Rightarrow> nat \<Rightarrow> (nat \<Rightarrow> buf) \<Rightarrow> nat \<Rightarrow> buf" where
  "set_next a v bs = bs(a := (bs a)\<lparr>bnext := v\<rparr>)"

lemma set_prev_sel [simp]: "bprev (set_prev a v bs x) = (if x = a then v else bprev (bs x))"
  "bnext (set_prev a v bs x) = bnext (bs x)"
  by (simp_all add: set_prev_def)

lemma set_next_sel [simp]: "bnext (set_next a v bs x) = (if x = a then v else bnext (bs x))"
  "bprev (set_next a v bs x) = bprev (bs x)"
  by (simp_all add: set_next_def)

lemma upd_buf_link:
  "upd_buf a (bprev_update (\<lambda>_. v)) s = (Ret (), s\<lparr>bufs := set_prev a v (bufs s)\<rparr>)"
  "upd_buf a (bnext_update (\<lambda>_. v)) s = (Ret (), s\<lparr>bufs := set_next a v (bufs s)\<rparr>)"
  by (simp_all add: upd_buf_def modify_def set_prev_def set_next_def)

lemma chain_unlink:
  assumes "chain bs a (ys @ b # zs) z" "b \<notin> set ys" "b \<notin> set zs" "b \<noteq> a" "b \<noteq> z"
    and "distinct (ys @ zs)" "a \<notin> set (ys @ zs)" "z \<notin> set (ys @ zs)"
  shows "chain (set_next (bprev (bs b)) (bnext (bs b)) (set_prev (bnext (bs b)) (bprev (bs b)) bs)) a (ys @ zs) z"
proof -
  let ?p = "bprev (bs b)" and ?q = "bnext (bs b)"
  let ?bs = "set_next ?p ?q (set_prev ?q ?p bs)"
  have c: "chain bs a ys b" "chain bs b zs z" using assms(1) by (simp_all add: chain_append)
  have p: "?p = last (a # ys)" and q: "?q = hd (zs @ [z])" using chain_last [OF c(1)] chain_first [OF c(2)] by simp_all
  have pin: "?p \<in> insert a (set ys)" using p last_in_set [of "a # ys"] by simp
  have qin: "?q \<in> insert z (set zs)" using q by (cases zs) auto
  have tail: "chain ?bs (last (a # ys)) zs z"
  proof (cases zs)
    case Nil
    then show ?thesis using p q by (simp add: linked_def)
  next
    case (Cons x xs)
    have "chain bs x xs z" using c(2) Cons by simp
    moreover have "chain bs x xs z = chain ?bs x xs z"
      by (rule chain_cong) (use pin q Cons assms(6-8) in \<open>auto split: if_splits\<close>)
    ultimately show ?thesis using Cons p q by (simp add: linked_def)
  qed
  show ?thesis
  proof (cases ys rule: rev_cases)
    case Nil
    then show ?thesis using tail by simp
  next
    case (snoc xs y)
    have "chain bs a xs y" using c(1) snoc by (simp add: chain_append)
    moreover have "chain bs a xs y = chain ?bs a xs y"
      by (rule chain_cong) (use p qin snoc assms(6-8) in \<open>auto split: if_splits\<close>)
    ultimately show ?thesis using snoc tail by (simp add: chain_append)
  qed
qed

lemma chain_link_front:
  assumes "chain bs h xs h" "b \<notin> set xs" "b \<noteq> h" "h \<notin> set xs" "distinct xs"
  shows "chain (set_next h b (set_prev (bnext (bs h)) b (set_prev b h (set_next b (bnext (bs h)) bs)))) h (b # xs) h"
proof -
  let ?f = "bnext (bs h)"
  have f: "?f = hd (xs @ [h])" using chain_first [OF assms(1)] .
  let ?bs = "set_next h b (set_prev ?f b (set_prev b h (set_next b ?f bs)))"
  have "chain ?bs b xs h"
  proof (cases xs)
    case Nil
    then show ?thesis using f assms by (simp add: linked_def)
  next
    case (Cons x ys)
    have "chain bs x ys h" using assms(1) Cons by simp
    moreover have "chain bs x ys h = chain ?bs x ys h"
      by (rule chain_cong) (use f Cons assms in \<open>auto split: if_splits\<close>)
    ultimately show ?thesis using Cons f assms by (auto simp: linked_def)
  qed
  moreover have "linked ?bs h b" using f assms by (cases xs) (auto simp: linked_def)
  ultimately show ?thesis by simp
qed

definition front :: "nat \<Rightarrow> (nat \<Rightarrow> buf) \<Rightarrow> nat \<Rightarrow> buf" where
  "front b bs =
     (let bs1 = set_next (bprev (bs b)) (bnext (bs b)) (set_prev (bnext (bs b)) (bprev (bs b)) bs)
      in set_next HEAD b (set_prev (bnext (bs1 HEAD)) b (set_prev b HEAD (set_next b (bnext (bs1 HEAD)) bs1))))"

lemma ring_front:
  assumes "ring bs xs" "b < NBUF"
  shows "ring (front b bs) (b # remove1 b xs)"
proof -
  have r: "chain bs HEAD xs HEAD" "distinct xs" "set xs = {0..<NBUF}" using assms(1) by (simp_all add: ring_def)
  then have "b \<in> set xs" using assms(2) by simp
  then obtain ys zs where xs: "xs = ys @ b # zs" "b \<notin> set ys" by (meson split_list_first)
  have b: "b \<notin> set zs" "distinct (ys @ zs)" using r(2) xs by auto
  have h: "HEAD \<notin> set (ys @ zs)" "b \<noteq> HEAD" using r(3) xs assms(2) by auto
  let ?bs = "set_next (bprev (bs b)) (bnext (bs b)) (set_prev (bnext (bs b)) (bprev (bs b)) bs)"
  have "chain ?bs HEAD (ys @ zs) HEAD"
    by (rule chain_unlink) (use r xs b h in auto)
  then have "chain (front b bs) HEAD (b # (ys @ zs)) HEAD"
    unfolding front_def Let_def by (rule chain_link_front) (use xs b h in auto)
  moreover have "remove1 b xs = ys @ zs" using xs by (simp add: remove1_append)
  moreover have "set (b # (ys @ zs)) = {0..<NBUF}" using r(3) xs by auto
  ultimately show ?thesis using xs b by (simp add: ring_def)
qed

lemma move_front_eq:
  assumes "ring (bufs s) xs" "b < NBUF"
  shows "move_front b s = (Ret (), s\<lparr>bufs := front b (bufs s)\<rparr>)"
proof -
  have "b \<noteq> HEAD" using assms by simp
  have r: "chain (bufs s) HEAD xs HEAD" "distinct xs" "set xs = {0..<NBUF}" using assms(1) by (simp_all add: ring_def)
  then have "b \<in> set xs" using assms(2) by simp
  then obtain ys zs where xs: "xs = ys @ b # zs" by (meson split_list_first)
  then have c: "chain (bufs s) HEAD ys b" "chain (bufs s) b zs HEAD" using r(1) by (simp_all add: chain_append)
  have "bnext (bufs s b) = hd (zs @ [HEAD])" using chain_first [OF c(2)] .
  then have n: "bnext (bufs s b) \<noteq> b" using r(2,3) xs assms(2) by (cases zs) auto
  show ?thesis
    using n \<open>b \<noteq> HEAD\<close>
    by (simp add: move_front_def bind_def seq_def gets_def upd_buf_link front_def Let_def)
qed

section \<open>Initialisation\<close>

text \<open>\<open>binit\<close> builds the ring of all buffers, the last one first.\<close>

lemma binit_one_eq:
  "binit_one b s = (Ret (), s\<lparr>
     ctl := (ctl s)\<lparr>locks := (locks (ctl s))(SlLock (SlBuf b) := \<lparr>locked = False, lname = ''sleep lock'', lcpu = None\<rparr>)\<rparr>,
     slocks := (slocks s)(SlBuf b := (slocks s (SlBuf b))\<lparr>sl_name := ''buffer'', sl_locked := False, sl_pid := 0\<rparr>),
     bufs := set_next HEAD b (set_prev (bnext (bufs s HEAD)) b (set_prev b HEAD (set_next b (bnext (bufs s HEAD)) (bufs s))))\<rparr>)"
  by (simp add: binit_one_def bind_def seq_def gets_def modify_def upd_buf_link initsleeplock_def
      initlock_def upd_slock_def)

lemma binit_loop:
  assumes "chain (bufs s) HEAD ys HEAD" "distinct (xs @ ys)" "HEAD \<notin> set (xs @ ys)"
    and "\<forall>b\<in>set ys. \<not> sl_locked (slocks s (SlBuf b)) \<and> lock_free (SlLock (SlBuf b)) (ctl s)"
  shows "\<exists>s'. for_each xs binit_one s = (Ret (), s') \<and> chain (bufs s') HEAD (rev xs @ ys) HEAD \<and>
    (\<forall>b\<in>set xs \<union> set ys. \<not> sl_locked (slocks s' (SlBuf b)) \<and> lock_free (SlLock (SlBuf b)) (ctl s'))"
  using assms
proof (induction xs arbitrary: s ys)
  case Nil
  then show ?case by (simp add: skip_def ret_def)
next
  case (Cons b xs)
  obtain t where t: "binit_one b s = (Ret (), t)" "chain (bufs t) HEAD (b # ys) HEAD"
    "\<forall>c\<in>set (b # ys). \<not> sl_locked (slocks t (SlBuf c)) \<and> lock_free (SlLock (SlBuf c)) (ctl t)"
    using chain_link_front [OF Cons.prems(1), of b] Cons.prems by (auto simp: binit_one_eq lock_free_def)
  have "\<exists>s'. for_each xs binit_one t = (Ret (), s') \<and> chain (bufs s') HEAD (rev xs @ b # ys) HEAD \<and>
    (\<forall>c\<in>set xs \<union> set (b # ys). \<not> sl_locked (slocks s' (SlBuf c)) \<and> lock_free (SlLock (SlBuf c)) (ctl s'))"
    by (rule Cons.IH) (use t Cons.prems in auto)
  then show ?case using t(1) by (auto simp: seq_Ret)
qed

lemma binit_ring:
  "\<exists>s'. binit s = (Ret (), s') \<and> ring (bufs s') (rev [0..<NBUF]) \<and>
    (\<forall>b<NBUF. \<not> sl_locked (slocks s' (SlBuf b)) \<and> lock_free (SlLock (SlBuf b)) (ctl s'))"
proof -
  let ?t = "s\<lparr>ctl := (ctl s)\<lparr>locks := (locks (ctl s))(BcacheLock := \<lparr>locked = False, lname = ''bcache'', lcpu = None\<rparr>)\<rparr>,
    bufs := set_next HEAD HEAD (set_prev HEAD HEAD (bufs s))\<rparr>"
  have "binit s = for_each [0..<NBUF] binit_one ?t"
    by (simp add: binit_def seq_def bind_def initlock_def modify_def upd_buf_link)
  moreover have "\<exists>s'. for_each [0..<NBUF] binit_one ?t = (Ret (), s') \<and> chain (bufs s') HEAD (rev [0..<NBUF] @ []) HEAD \<and>
    (\<forall>b\<in>set [0..<NBUF] \<union> set []. \<not> sl_locked (slocks s' (SlBuf b)) \<and> lock_free (SlLock (SlBuf b)) (ctl s'))"
    by (rule binit_loop) (simp_all add: linked_def)
  ultimately show ?thesis by (auto simp: ring_def)
qed

section \<open>The cache as a store of blocks\<close>

text \<open>Block \<open>bn\<close> as it is on the disk; the buffer that caches it; and its contents as a reader of the
  cache sees them.\<close>

definition disk_blk :: "'a vdisk_state_scheme \<Rightarrow> u32 \<Rightarrow> block" where
  "disk_blk s bn = sectors (media (vio s)) (2 * unat bn)"

definition slot :: "u32 \<Rightarrow> 'a vdisk_state_scheme \<Rightarrow> u32 \<Rightarrow> nat option" where
  "slot d s bn = find (\<lambda>b. bdev (bufs s b) = d \<and> blockno (bufs s b) = bn) [0..<NBUF]"

definition view :: "u32 \<Rightarrow> 'a vdisk_state_scheme \<Rightarrow> u32 \<Rightarrow> block" where
  "view d s bn = (case slot d s bn of
       None \<Rightarrow> disk_blk s bn
     | Some b \<Rightarrow> if bvalid (bufs s b) then buf_data b s else disk_blk s bn)"

definition refs :: "u32 \<Rightarrow> 'a vdisk_state_scheme \<Rightarrow> u32 \<Rightarrow> nat" where
  "refs d s bn = (case slot d s bn of None \<Rightarrow> 0 | Some b \<Rightarrow> unat (refcnt (bufs s b)))"

definition in_use :: "u32 \<Rightarrow> 'a vdisk_state_scheme \<Rightarrow> u32 \<Rightarrow> bool" where
  "in_use d s bn = (case slot d s bn of None \<Rightarrow> False | Some b \<Rightarrow> sl_locked (slocks s (SlBuf b)))"

definition uniq :: "u32 \<Rightarrow> (nat \<Rightarrow> buf) \<Rightarrow> bool" where
  "uniq d bs \<longleftrightarrow> (\<forall>b<NBUF. \<forall>c<NBUF. bdev (bs b) = d \<longrightarrow> bdev (bs c) = d \<longrightarrow>
     blockno (bs b) = blockno (bs c) \<longrightarrow> b = c)"

definition buf_ok :: "nat \<Rightarrow> u32 \<Rightarrow> 'a vdisk_state_scheme \<Rightarrow> nat \<Rightarrow> bool" where
  "buf_ok p d s b \<longleftrightarrow>
     (bdev (bufs s b) = d \<or> refcnt (bufs s b) = 0) \<and>
     (refcnt (bufs s b) = 0 \<longrightarrow> \<not> sl_locked (slocks s (SlBuf b))) \<and>
     (refcnt (bufs s b) = 0 \<longrightarrow> bdev (bufs s b) = d \<longrightarrow> bvalid (bufs s b) \<longrightarrow>
        buf_data b s = disk_blk s (blockno (bufs s b))) \<and>
     (sl_locked (slocks s (SlBuf b)) \<longrightarrow> sl_pid (slocks s (SlBuf b)) = pid (procs s p)) \<and>
     (\<forall>i\<ge>1024. buf_data b s i = 0) \<and>
     (bdev (bufs s b) = d \<longrightarrow> unat (blockno (bufs s b)) < 2 ^ 31)"

definition binv :: "nat \<Rightarrow> u32 \<Rightarrow> 'a vdisk_state_scheme \<Rightarrow> bool" where
  "binv p d s \<longleftrightarrow> solo p s \<and> vq_idle s \<and> (\<exists>xs. ring (bufs s) xs) \<and> uniq d (bufs s) \<and>
     (\<forall>b<NBUF. buf_ok p d s b)"

lemma slot_None: "slot d s bn = None \<longleftrightarrow> (\<forall>b<NBUF. \<not> (bdev (bufs s b) = d \<and> blockno (bufs s b) = bn))"
  by (auto simp: slot_def find_None_iff)

lemma find_unique:
  assumes "uniq d (bufs s)" "set xs = {0..<NBUF}"
  shows "find (\<lambda>b. bdev (bufs s b) = d \<and> blockno (bufs s b) = bn) xs = Some b \<longleftrightarrow>
    b < NBUF \<and> bdev (bufs s b) = d \<and> blockno (bufs s b) = bn"
proof
  assume "find (\<lambda>b. bdev (bufs s b) = d \<and> blockno (bufs s b) = bn) xs = Some b"
  then have "b \<in> set xs" "bdev (bufs s b) = d" "blockno (bufs s b) = bn" by (auto simp: find_Some_iff)
  then show "b < NBUF \<and> bdev (bufs s b) = d \<and> blockno (bufs s b) = bn" using assms(2) by simp
next
  assume b: "b < NBUF \<and> bdev (bufs s b) = d \<and> blockno (bufs s b) = bn"
  then have "\<exists>x. x \<in> set xs \<and> bdev (bufs s x) = d \<and> blockno (bufs s x) = bn" using assms(2) by auto
  then have "find (\<lambda>b. bdev (bufs s b) = d \<and> blockno (bufs s b) = bn) xs \<noteq> None"
    unfolding find_None_iff by blast
  then obtain c where c: "find (\<lambda>b. bdev (bufs s b) = d \<and> blockno (bufs s b) = bn) xs = Some c"
    by blast
  then have "c \<in> set xs" "bdev (bufs s c) = d" "blockno (bufs s c) = bn" by (auto simp: find_Some_iff)
  then show "find (\<lambda>b. bdev (bufs s b) = d \<and> blockno (bufs s b) = bn) xs = Some b"
    using c b assms by (auto simp: uniq_def)
qed

lemma slot_Some: "uniq d (bufs s) \<Longrightarrow> slot d s bn = Some b \<longleftrightarrow>
    b < NBUF \<and> bdev (bufs s b) = d \<and> blockno (bufs s b) = bn"
  unfolding slot_def by (rule find_unique) auto

lemma find_any_order:
  assumes "uniq d (bufs s)" "set xs = {0..<NBUF}"
  shows "find (\<lambda>b. bdev (bufs s b) = d \<and> blockno (bufs s b) = bn) xs = slot d s bn"
  using find_unique [OF assms, of bn] slot_Some [OF assms(1), of bn]
  by (metis (no_types, lifting) option.exhaust)

lemma ring_find:
  assumes "ring (bufs s) xs"
  shows "find_cached (Suc NBUF) (bnext (bufs s HEAD)) dev bn s =
      (Ret (find (\<lambda>b. bdev (bufs s b) = dev \<and> blockno (bufs s b) = bn) xs), s)"
    and "find_lru (Suc NBUF) (bprev (bufs s HEAD)) s = (Ret (find (\<lambda>b. refcnt (bufs s b) = 0) (rev xs)), s)"
proof -
  have c: "chain (bufs s) HEAD xs HEAD" "HEAD \<notin> set xs" "distinct xs" "set xs = {0..<NBUF}"
    using assms by (auto simp: ring_def)
  then have "length xs < Suc NBUF" using distinct_card [of xs] by simp
  then show "find_cached (Suc NBUF) (bnext (bufs s HEAD)) dev bn s =
      (Ret (find (\<lambda>b. bdev (bufs s b) = dev \<and> blockno (bufs s b) = bn) xs), s)"
    "find_lru (Suc NBUF) (bprev (bufs s HEAD)) s = (Ret (find (\<lambda>b. refcnt (bufs s b) = 0) (rev xs)), s)"
    using find_cached_eq [OF c(1,2)] find_lru_eq [OF c(1,2)] chain_first [OF c(1)] chain_last [OF c(1)] by simp_all
qed

lemma running_upd:
  "running p (s\<lparr>bufs := x\<rparr>) = running p s" "running p (s\<lparr>slocks := y\<rparr>) = running p s"
  "running p (s\<lparr>vio := v\<rparr>) = running p s" "running p (s\<lparr>ctl := settle (ctl s)\<rparr>) = running p s"
  by (simp_all add: running_def)

text \<open>What \<open>bget\<close> does to the buffer it returns: another reference to a cached block, or a recycled
  buffer with the new identity.\<close>

definition regot :: "u32 \<Rightarrow> u32 \<Rightarrow> bool \<Rightarrow> buf \<Rightarrow> buf" where
  "regot d bn hit x = (if hit then refcnt_update (\<lambda>r. r + 1) x
     else x\<lparr>bdev := d, blockno := bn, bvalid := False, refcnt := 1\<rparr>)"

lemma bget_hit:
  assumes "running p s" "ring (bufs s) xs" "uniq d (bufs s)" "slot d s bn = Some b"
    and "\<not> sl_locked (slocks s (SlBuf b))"
  shows "bget d bn s = (Ret b, s\<lparr>bufs := (bufs s)(b := regot d bn True (bufs s b)),
    slocks := (slocks s)(SlBuf b := (slocks s (SlBuf b))\<lparr>sl_locked := True, sl_pid := pid (procs s p)\<rparr>),
    ctl := settle (ctl s)\<rparr>)"
proof -
  let ?t = "s\<lparr>ctl := acq BcacheLock (ctl s)\<rparr>"
  have lk: "lock_free BcacheLock (ctl s)" using assms(1) by (simp add: running_def)
  have "set xs = {0..<NBUF}" using assms(2) by (simp add: ring_def)
  then have f: "find_cached (Suc NBUF) (bnext (bufs ?t HEAD)) d bn ?t = (Ret (Some b), ?t)"
    using ring_find(1) [of ?t xs d bn] find_any_order [OF assms(3)] assms(2,4) by simp
  let ?u = "s\<lparr>bufs := (bufs s)(b := regot d bn True (bufs s b)), ctl := settle (ctl s)\<rparr>"
  have "acquiresleep (SlBuf b) ?u = (Ret (), ?u\<lparr>slocks := (slocks ?u)(SlBuf b := (slocks ?u (SlBuf b))\<lparr>sl_locked := True,
    sl_pid := pid (procs ?u p)\<rparr>), ctl := settle (ctl ?u)\<rparr>)"
    using assms(1,5) by (intro acquiresleep_free) (simp_all add: running_def)
  then show ?thesis
    using lk f by (simp add: bget_def bind_def seq_def gets_def acquire_ok release_ok upd_buf_def modify_def
        regot_def ret_def)
qed

lemma bget_recycle:
  assumes "running p s" "ring (bufs s) xs" "uniq d (bufs s)" "slot d s bn = None"
    and "find (\<lambda>b. refcnt (bufs s b) = 0) (rev xs) = Some b" "\<not> sl_locked (slocks s (SlBuf b))"
  shows "bget d bn s = (Ret b, s\<lparr>bufs := (bufs s)(b := regot d bn False (bufs s b)),
    slocks := (slocks s)(SlBuf b := (slocks s (SlBuf b))\<lparr>sl_locked := True, sl_pid := pid (procs s p)\<rparr>),
    ctl := settle (ctl s)\<rparr>)"
proof -
  let ?t = "s\<lparr>ctl := acq BcacheLock (ctl s)\<rparr>"
  have lk: "lock_free BcacheLock (ctl s)" using assms(1) by (simp add: running_def)
  have "set xs = {0..<NBUF}" using assms(2) by (simp add: ring_def)
  then have f: "find_cached (Suc NBUF) (bnext (bufs ?t HEAD)) d bn ?t = (Ret None, ?t)"
    using ring_find(1) [of ?t xs d bn] find_any_order [OF assms(3)] assms(2,4) by simp
  have g: "find_lru (Suc NBUF) (bprev (bufs ?t HEAD)) ?t = (Ret (Some b), ?t)"
    using ring_find(2) [of ?t xs] assms(2,5) by simp
  let ?u = "s\<lparr>bufs := (bufs s)(b := regot d bn False (bufs s b)), ctl := settle (ctl s)\<rparr>"
  have "acquiresleep (SlBuf b) ?u = (Ret (), ?u\<lparr>slocks := (slocks ?u)(SlBuf b := (slocks ?u (SlBuf b))\<lparr>sl_locked := True,
    sl_pid := pid (procs ?u p)\<rparr>), ctl := settle (ctl ?u)\<rparr>)"
    using assms(1,6) by (intro acquiresleep_free) (simp_all add: running_def)
  then show ?thesis
    using lk f g by (simp add: bget_def bind_def seq_def gets_def acquire_ok release_ok upd_buf_def modify_def
        regot_def ret_def)
qed

lemma bget_exhausted:
  assumes "running p s" "ring (bufs s) xs" "uniq d (bufs s)" "slot d s bn = None"
    and "\<forall>b<NBUF. refcnt (bufs s b) \<noteq> 0"
  shows "fst (bget d bn s) = Panic ''bget: no buffers''"
proof -
  let ?t = "s\<lparr>ctl := acq BcacheLock (ctl s)\<rparr>"
  have lk: "lock_free BcacheLock (ctl s)" using assms(1) by (simp add: running_def)
  have xs: "set xs = {0..<NBUF}" using assms(2) by (simp add: ring_def)
  then have f: "find_cached (Suc NBUF) (bnext (bufs ?t HEAD)) d bn ?t = (Ret None, ?t)"
    using ring_find(1) [of ?t xs d bn] find_any_order [OF assms(3)] assms(2,4) by simp
  have "find (\<lambda>b. refcnt (bufs s b) = 0) (rev xs) = None"
    using xs assms(5) by (auto simp: find_None_iff)
  then have g: "find_lru (Suc NBUF) (bprev (bufs ?t HEAD)) ?t = (Ret None, ?t)"
    using ring_find(2) [of ?t xs] assms(2) by simp
  show ?thesis
    using lk f g by (simp add: bget_def bind_def seq_def gets_def acquire_ok panic_def fail_def)
qed

section \<open>The contract of a block store\<close>

text \<open>What the clients of the cache rely on, in terms of blocks only: \<open>vw\<close> is the contents a reader
  sees, \<open>dk\<close> what is on the disk, \<open>rf\<close> how often a block is referenced, \<open>lk\<close> whether somebody is
  using it, and \<open>hold s bn b\<close> that the caller holds block \<open>bn\<close> through the buffer \<open>b\<close>.  \<open>frame\<close>
  relates states that differ in the store only.\<close>

definition keeps_size :: "(block \<Rightarrow> block) \<Rightarrow> bool" where
  "keeps_size f \<longleftrightarrow> (\<forall>d. (\<forall>i\<ge>1024. d i = 0) \<longrightarrow> (\<forall>i\<ge>1024. f d i = 0))"

locale block_store =
  fixes rd :: "u32 \<Rightarrow> (nat, 's) routine"
    and wr :: "nat \<Rightarrow> (unit, 's) routine"
    and rl :: "nat \<Rightarrow> (unit, 's) routine"
    and put :: "nat \<Rightarrow> (block \<Rightarrow> block) \<Rightarrow> (unit, 's) routine"
    and pin :: "nat \<Rightarrow> (unit, 's) routine"
    and unpin :: "nat \<Rightarrow> (unit, 's) routine"
    and ok :: "'s \<Rightarrow> bool"
    and frame :: "'s \<Rightarrow> 's \<Rightarrow> bool"
    and vw :: "'s \<Rightarrow> u32 \<Rightarrow> block"
    and dk :: "'s \<Rightarrow> u32 \<Rightarrow> block"
    and rf :: "'s \<Rightarrow> u32 \<Rightarrow> nat"
    and lk :: "'s \<Rightarrow> u32 \<Rightarrow> bool"
    and hold :: "'s \<Rightarrow> u32 \<Rightarrow> nat \<Rightarrow> bool"
    and dat :: "'s \<Rightarrow> nat \<Rightarrow> block"
  assumes frame_refl: "frame s s"
    and frame_trans: "frame s t \<Longrightarrow> frame t u \<Longrightarrow> frame s u"
    and hold_lk: "ok s \<Longrightarrow> hold s bn b \<Longrightarrow> lk s bn \<and> 0 < rf s bn \<and> dat s b = vw s bn"
    and vw_tail: "ok s \<Longrightarrow> 1024 \<le> i \<Longrightarrow> vw s bn i = 0"
    and hold_inj: "ok s \<Longrightarrow> hold s bn b \<Longrightarrow> hold s bn' b' \<Longrightarrow> b = b' \<longleftrightarrow> bn = bn'"
    and rd_law: "ok s \<Longrightarrow> unat bn < 2 ^ 31 \<Longrightarrow> \<not> lk s bn \<Longrightarrow> rf s bn + 1 < 2 ^ 32 \<Longrightarrow>
      0 < rf s bn \<or> card {k. 0 < rf s k} < NBUF \<Longrightarrow>
      \<exists>b s'. rd bn s = (Ret b, s') \<and> ok s' \<and> frame s s' \<and> hold s' bn b \<and> vw s' = vw s \<and> dk s' = dk s \<and>
        rf s' = (rf s)(bn := rf s bn + 1) \<and> lk s' = (lk s)(bn := True) \<and>
        (\<forall>k c. k \<noteq> bn \<longrightarrow> hold s k c \<longrightarrow> hold s' k c)"
    and put_law: "ok s \<Longrightarrow> hold s bn b \<Longrightarrow> keeps_size f \<Longrightarrow>
      \<exists>s'. put b f s = (Ret (), s') \<and> ok s' \<and> frame s s' \<and> vw s' = (vw s)(bn := f (vw s bn)) \<and> dk s' = dk s \<and>
        rf s' = rf s \<and> lk s' = lk s \<and> hold s' = hold s"
    and wr_law: "ok s \<Longrightarrow> hold s bn b \<Longrightarrow>
      \<exists>s'. wr b s = (Ret (), s') \<and> ok s' \<and> frame s s' \<and> vw s' = vw s \<and> dk s' = (dk s)(bn := vw s bn) \<and>
        rf s' = rf s \<and> lk s' = lk s \<and> hold s' = hold s"
    and rl_law: "ok s \<Longrightarrow> hold s bn b \<Longrightarrow> 1 < rf s bn \<or> vw s bn = dk s bn \<Longrightarrow>
      \<exists>s'. rl b s = (Ret (), s') \<and> ok s' \<and> frame s s' \<and> vw s' = vw s \<and> dk s' = dk s \<and>
        rf s' = (rf s)(bn := rf s bn - 1) \<and> lk s' = (lk s)(bn := False) \<and>
        (\<forall>k c. k \<noteq> bn \<longrightarrow> hold s k c \<longrightarrow> hold s' k c)"
    and pin_law: "ok s \<Longrightarrow> hold s bn b \<Longrightarrow> rf s bn + 1 < 2 ^ 32 \<Longrightarrow>
      \<exists>s'. pin b s = (Ret (), s') \<and> ok s' \<and> frame s s' \<and> vw s' = vw s \<and> dk s' = dk s \<and>
        rf s' = (rf s)(bn := rf s bn + 1) \<and> lk s' = lk s \<and> hold s' = hold s"
    and unpin_law: "ok s \<Longrightarrow> hold s bn b \<Longrightarrow> 1 < rf s bn \<Longrightarrow>
      \<exists>s'. unpin b s = (Ret (), s') \<and> ok s' \<and> frame s s' \<and> vw s' = vw s \<and> dk s' = dk s \<and>
        rf s' = (rf s)(bn := rf s bn - 1) \<and> lk s' = lk s \<and> hold s' = hold s"
begin

text \<open>Reading a block and letting it go changes nothing a client can see.\<close>

lemma read_block:
  assumes "ok s" "unat bn < 2 ^ 31" "\<not> lk s bn" "rf s bn + 1 < 2 ^ 32" "0 < rf s bn \<or> card {k. 0 < rf s k} < NBUF"
    and "0 < rf s bn \<or> vw s bn = dk s bn"
  shows "\<exists>s'. bind (rd bn) (\<lambda>b. bind (gets (\<lambda>t. g (dat t b))) (\<lambda>x. seq (rl b) (ret x))) s = (Ret (g (vw s bn)), s') \<and>
    ok s' \<and> frame s s' \<and> vw s' = vw s \<and> dk s' = dk s \<and> rf s' = rf s \<and> lk s' = lk s"
proof -
  obtain b t where t: "rd bn s = (Ret b, t)" "ok t" "frame s t" "hold t bn b" "vw t = vw s" "dk t = dk s"
    "rf t = (rf s)(bn := rf s bn + 1)" "lk t = (lk s)(bn := True)"
    using rd_law [OF assms(1-5)] by blast
  have "1 < rf t bn \<or> vw t bn = dk t bn" using assms(6) t(5-7) by auto
  then obtain u where u: "rl b t = (Ret (), u)" "ok u" "frame t u" "vw u = vw t" "dk u = dk t"
    "rf u = (rf t)(bn := rf t bn - 1)" "lk u = (lk t)(bn := False)"
    using rl_law [OF t(2,4)] by blast
  have "dat t b = vw s bn" using hold_lk [OF t(2,4)] t(5) by simp
  moreover have "rf u = rf s" "lk u = lk s" using t(7,8) u(6,7) assms(3) by (auto simp: fun_eq_iff)
  ultimately show ?thesis
    using t u frame_trans by (auto simp: bind_def seq_def gets_def ret_def)
qed

text \<open>The update of one block on disk: read, modify, write, release.\<close>

lemma update_block:
  assumes "ok s" "unat bn < 2 ^ 31" "\<not> lk s bn" "rf s bn + 1 < 2 ^ 32" "0 < rf s bn \<or> card {k. 0 < rf s k} < NBUF"
    and "keeps_size f"
  shows "\<exists>s'. bind (rd bn) (\<lambda>b. seq (put b f) (seq (wr b) (rl b))) s = (Ret (), s') \<and>
    ok s' \<and> frame s s' \<and> vw s' = (vw s)(bn := f (vw s bn)) \<and> dk s' = (dk s)(bn := f (vw s bn)) \<and>
    rf s' = rf s \<and> lk s' = lk s"
proof -
  obtain b t where t: "rd bn s = (Ret b, t)" "ok t" "frame s t" "hold t bn b" "vw t = vw s" "dk t = dk s"
    "rf t = (rf s)(bn := rf s bn + 1)" "lk t = (lk s)(bn := True)"
    using rd_law [OF assms(1-5)] by blast
  obtain u where u: "put b f t = (Ret (), u)" "ok u" "frame t u" "vw u = (vw t)(bn := f (vw t bn))" "dk u = dk t"
    "rf u = rf t" "lk u = lk t" "hold u = hold t"
    using put_law [OF t(2,4) assms(6)] by blast
  have hu: "hold u bn b" using t(4) u(8) by simp
  obtain w where w: "wr b u = (Ret (), w)" "ok w" "frame u w" "vw w = vw u" "dk w = (dk u)(bn := vw u bn)"
    "rf w = rf u" "lk w = lk u" "hold w = hold u"
    using wr_law [OF u(2) hu] by blast
  have "vw w bn = dk w bn" using w by simp
  moreover have "hold w bn b" using hu w by simp
  ultimately obtain x where x: "rl b w = (Ret (), x)" "ok x" "frame w x" "vw x = vw w" "dk x = dk w"
    "rf x = (rf w)(bn := rf w bn - 1)" "lk x = (lk w)(bn := False)"
    using rl_law [OF w(2)] by blast
  have "rf x = rf s" "lk x = lk s" using t u w x assms(3) by (auto simp: fun_eq_iff)
  moreover have "frame s x" using t(3) u(3) w(3) x(3) frame_trans by blast
  ultimately show ?thesis
    using t u w x by (auto simp: bind_def seq_def)
qed

end

end
