(* ===== verification/Bcache.thy ===== *)
theory Bcache
  imports Bio
begin

text \<open>
  The buffer cache of \<open>kernel/bio.c\<close> on the virtio disk meets the contract \<open>block_store\<close>: \<open>bread\<close>
  returns the current contents of a block in a buffer locked by the caller, \<open>bwrite\<close> makes the
  buffer's contents the block's contents on disk, \<open>brelse\<close> gives the buffer back, and a block that
  is referenced keeps its buffer.
\<close>

definition bio_frame :: "'a vdisk_state_scheme \<Rightarrow> 'a vdisk_state_scheme \<Rightarrow> bool" where
  "bio_frame s s' \<longleftrightarrow> s' = s\<lparr>ctl := ctl s', slocks := slocks s', vio := vio s', bufs := bufs s',
     used_idx := used_idx s', info_b := info_b s', mmio_log := mmio_log s'\<rparr>"

lemma bio_frame_trans: "bio_frame s t \<Longrightarrow> bio_frame t u \<Longrightarrow> bio_frame s u"
proof -
  assume "bio_frame s t" "bio_frame t u"
  then have t: "t = s\<lparr>ctl := ctl t, slocks := slocks t, vio := vio t, bufs := bufs t,
     used_idx := used_idx t, info_b := info_b t, mmio_log := mmio_log t\<rparr>" and
    u: "u = t\<lparr>ctl := ctl u, slocks := slocks u, vio := vio u, bufs := bufs u,
     used_idx := used_idx u, info_b := info_b u, mmio_log := mmio_log u\<rparr>"
    by (simp_all add: bio_frame_def)
  show ?thesis unfolding bio_frame_def by (subst u, subst t) simp
qed

definition holds :: "u32 \<Rightarrow> 'a vdisk_state_scheme \<Rightarrow> u32 \<Rightarrow> nat \<Rightarrow> bool" where
  "holds d s bn b \<longleftrightarrow> slot d s bn = Some b \<and> bvalid (bufs s b) \<and> sl_locked (slocks s (SlBuf b))"

text \<open>The cache is a function of a few fields of the state: any step that leaves them alone keeps all of its
  promises.\<close>

lemma cache_cong:
  assumes c: "ctl s' = ctl s \<or> ctl s' = settle (ctl s)"
    and same: "procs s' = procs s" "slocks s' = slocks s" "vio s' = vio s" "bufs s' = bufs s"
    "vfree s' = vfree s" "used_idx s' = used_idx s" "device s' = device s"
  shows "binv p d s' = binv p d s" "view d s' = view d s" "refs d s' = refs d s" "in_use d s' = in_use d s"
    "disk_blk s' = disk_blk s" "holds d s' = holds d s" "buf_data b s' = buf_data b s"
proof -
  have e: "slot d s' = slot d s" "disk_blk s' = disk_blk s" "\<And>b. buf_data b s' = buf_data b s"
    using same by (simp_all add: slot_def disk_blk_def buf_data_def fun_eq_iff)
  show "view d s' = view d s" "refs d s' = refs d s" "in_use d s' = in_use d s" "holds d s' = holds d s"
    unfolding view_def refs_def in_use_def holds_def e same by (rule refl)+
  have "running p s' = running p s" using c by (auto simp: running_def)
  then show "binv p d s' = binv p d s"
    using same e by (simp add: binv_def solo_def nobody_sleeps_def vq_idle_def buf_ok_def)
  show "disk_blk s' = disk_blk s" "buf_data b s' = buf_data b s" by (fact e)+
qed

lemma slot_cong:
  "(\<And>b. b < NBUF \<Longrightarrow> bdev (bufs s' b) = bdev (bufs s b) \<and> blockno (bufs s' b) = blockno (bufs s b)) \<Longrightarrow>
   slot d s' = slot d s"
  by (auto simp: slot_def fun_eq_iff intro!: find_cong)

lemma uniq_cong:
  "(\<And>b. b < NBUF \<Longrightarrow> bdev (bs' b) = bdev (bs b) \<and> blockno (bs' b) = blockno (bs b)) \<Longrightarrow> uniq d bs' = uniq d bs"
  by (simp add: uniq_def)

lemma ring_cong:
  assumes "\<And>b. bnext (bs' b) = bnext (bs b) \<and> bprev (bs' b) = bprev (bs b)"
  shows "ring bs' xs = ring bs xs"
proof -
  have "chain bs' a xs z = chain bs a xs z" for a z using assms by (intro chain_cong) auto
  then show ?thesis by (simp add: ring_def)
qed

text \<open>The sector number of a block does not wrap for blocks below \<open>2 ^ 31\<close>.\<close>

lemma sector_of: "unat (bn :: u32) < 2 ^ 31 \<Longrightarrow> unat (ucast (bn * 2) :: u64) = 2 * unat bn"
  by (simp add: unat_ucast_32_64 unat_word_ariths)

lemma binv_slot:
  assumes "binv p d s" "slot d s bn = Some b"
  shows "b < NBUF" "bdev (bufs s b) = d" "blockno (bufs s b) = bn" "buf_ok p d s b"
  using assms slot_Some [of d s bn b] by (auto simp: binv_def)

text \<open>A block that is referenced but not locked, or not referenced at all, can be had as long as some
  buffer is free.\<close>

lemma free_buffer:
  assumes "binv p d s" "card {k. 0 < refs d s k} < NBUF"
  shows "\<exists>b<NBUF. refcnt (bufs s b) = 0"
proof (rule ccontr)
  assume "\<not> ?thesis"
  then have nz: "refcnt (bufs s b) \<noteq> 0" if "b < NBUF" for b using that by auto
  have u: "uniq d (bufs s)" and o: "\<forall>b<NBUF. buf_ok p d s b" using assms(1) by (simp_all add: binv_def)
  have dev: "bdev (bufs s b) = d" if "b < NBUF" for b using o nz that by (auto simp: buf_ok_def)
  let ?f = "\<lambda>b. blockno (bufs s b)"
  have "inj_on ?f {0..<NBUF}" using u dev by (auto simp: inj_on_def uniq_def)
  moreover have "?f ` {0..<NBUF} \<subseteq> {k. 0 < refs d s k}"
  proof
    fix k
    assume "k \<in> ?f ` {0..<NBUF}"
    then obtain b where "b < NBUF" "k = ?f b" by auto
    moreover from this have "slot d s k = Some b" using dev slot_Some [OF u] by simp
    ultimately show "k \<in> {k. 0 < refs d s k}" using nz by (simp add: refs_def unat_gt_0)
  qed
  moreover have "finite {k. 0 < refs d s k}" by (rule finite_subset [OF subset_UNIV]) simp
  ultimately have "card {0..<NBUF} \<le> card {k. 0 < refs d s k}" by (metis card_image card_mono)
  then show False using assms(2) by simp
qed

section \<open>Getting a buffer\<close>

definition got :: "nat \<Rightarrow> u32 \<Rightarrow> u32 \<Rightarrow> bool \<Rightarrow> nat \<Rightarrow> 'a vdisk_state_scheme \<Rightarrow> 'a vdisk_state_scheme" where
  "got p d bn hit b s = s\<lparr>bufs := (bufs s)(b := regot d bn hit (bufs s b)),
    slocks := (slocks s)(SlBuf b := (slocks s (SlBuf b))\<lparr>sl_locked := True, sl_pid := pid (procs s p)\<rparr>),
    ctl := settle (ctl s)\<rparr>"

lemma got_sel [simp]:
  "vio (got p d bn hit b s) = vio s" "buf_data c (got p d bn hit b s) = buf_data c s"
  "disk_blk (got p d bn hit b s) = disk_blk s" "procs (got p d bn hit b s) = procs s"
  "bufs (got p d bn hit b s) = (bufs s)(b := regot d bn hit (bufs s b))"
  "slocks (got p d bn hit b s) = (slocks s)(SlBuf b := (slocks s (SlBuf b))\<lparr>sl_locked := True, sl_pid := pid (procs s p)\<rparr>)"
  "vq_idle (got p d bn hit b s) = vq_idle s" "solo p (got p d bn hit b s) = solo p s"
  by (simp_all add: got_def buf_data_def disk_blk_def fun_eq_iff vq_idle_def solo_def running_def nobody_sleeps_def)

lemma regot_sel [simp]:
  "bnext (regot d bn hit x) = bnext x" "bprev (regot d bn hit x) = bprev x"
  "bdev (regot d bn hit x) = (if hit then bdev x else d)"
  "blockno (regot d bn hit x) = (if hit then blockno x else bn)"
  "bvalid (regot d bn hit x) = (hit \<and> bvalid x)"
  "refcnt (regot d bn hit x) = (if hit then refcnt x + 1 else 1)"
  by (simp_all add: regot_def)

text \<open>The buffer \<open>b\<close> is the one \<open>bget\<close> chooses for block \<open>bn\<close>.\<close>

definition choice :: "u32 \<Rightarrow> u32 \<Rightarrow> bool \<Rightarrow> nat \<Rightarrow> 'a vdisk_state_scheme \<Rightarrow> bool" where
  "choice d bn hit b s \<longleftrightarrow> b < NBUF \<and> unat bn < 2 ^ 31 \<and>
     (if hit then slot d s bn = Some b \<and> unat (refcnt (bufs s b)) + 1 < 2 ^ 32
      else slot d s bn = None \<and> refcnt (bufs s b) = 0)"

lemma got_uniq:
  assumes "uniq d (bufs s)" "choice d bn hit b s"
  shows "uniq d (bufs (got p d bn hit b s))"
proof (cases hit)
  case True
  then have "uniq d (bufs (got p d bn hit b s)) = uniq d (bufs s)" by (intro uniq_cong) simp
  then show ?thesis using assms(1) by simp
next
  case False
  then have "\<forall>b<NBUF. \<not> (bdev (bufs s b) = d \<and> blockno (bufs s b) = bn)"
    using assms(2) slot_None by (auto simp: choice_def)
  then show ?thesis using assms(1) False by (auto simp: uniq_def)
qed

lemma refcnt_plus: "unat (r :: u32) + 1 < 2 ^ 32 \<Longrightarrow> unat (r + 1) = unat r + 1"
  by (simp add: unat_word_ariths)

lemma got_binv:
  assumes "binv p d s" "choice d bn hit b s"
  shows "binv p d (got p d bn hit b s)"
proof -
  obtain xs where i: "solo p s" "vq_idle s" "ring (bufs s) xs" "uniq d (bufs s)" "\<forall>c<NBUF. buf_ok p d s c"
    using assms(1) by (auto simp: binv_def)
  have "ring (bufs (got p d bn hit b s)) xs"
    using i(3) ring_cong [of "bufs (got p d bn hit b s)" "bufs s" xs] by simp
  moreover have "buf_ok p d (got p d bn hit b s) c" if "c < NBUF" for c
  proof (cases "c = b")
    case False
    then show ?thesis using i(5) that by (simp add: buf_ok_def)
  next
    case True
    have "unat (refcnt (bufs s b)) + 1 < 2 ^ 32 \<Longrightarrow> refcnt (bufs s b) + 1 \<noteq> 0"
      using refcnt_plus [of "refcnt (bufs s b)"] by (metis add_is_0 unat_0 zero_neq_one)
    then show ?thesis
      using True i(4,5) that assms(2) slot_Some [OF i(4), of bn b] by (auto simp: buf_ok_def choice_def split: if_splits)
  qed
  ultimately show ?thesis
    using i got_uniq [OF i(4) assms(2)] by (auto simp: binv_def simp del: got_sel(5))
qed

lemma got_slot:
  assumes "binv p d s" "choice d bn hit b s"
  shows "slot d (got p d bn hit b s) k =
    (if k = bn then Some b else if slot d s k = Some b then None else slot d s k)"
proof -
  have u: "uniq d (bufs s)" using assms(1) by (simp add: binv_def)
  have u': "uniq d (bufs (got p d bn hit b s))" using got_uniq [OF u assms(2)] .
  have bN: "b < NBUF" using assms(2) by (simp add: choice_def)
  show ?thesis
  proof (cases hit)
    case True
    then have b: "slot d s bn = Some b" using assms(2) by (simp add: choice_def)
    have e: "slot d (got p d bn hit b s) = slot d s" by (rule slot_cong) (simp add: True)
    show ?thesis
    proof (cases "k = bn")
      case False
      then have "slot d s k \<noteq> Some b"
        using b slot_Some [OF u, of k b] slot_Some [OF u, of bn b] by simp
      then show ?thesis unfolding e using False by (simp only: if_False)
    qed (simp add: e b)
  next
    case False
    show ?thesis
    proof (cases "slot d (got p d bn hit b s) k")
      case None
      then have "k \<noteq> bn" using False bN by (auto simp: slot_None)
      moreover have "slot d s k = None \<or> slot d s k = Some b"
      proof (cases "slot d s k")
        case (Some c)
        then have "c = b" using None slot_Some [OF u, of k c] by (auto simp: slot_None split: if_splits)
        then show ?thesis using Some by simp
      qed simp
      ultimately show ?thesis using None by auto
    next
      case (Some c)
      then have c: "c < NBUF" "bdev (bufs (got p d bn hit b s) c) = d" "blockno (bufs (got p d bn hit b s) c) = k"
        using slot_Some [OF u'] by blast+
      show ?thesis
      proof (cases "c = b")
        case True
        then show ?thesis using c Some False by simp
      next
        case neq: False
        then have "slot d s k = Some c" using c slot_Some [OF u] by simp
        moreover have "k \<noteq> bn" using calculation assms(2) False by (auto simp: choice_def)
        ultimately show ?thesis using Some neq by simp
      qed
    qed
  qed
qed

text \<open>Nothing a client sees changes, but for the reference and the lock on \<open>bn\<close>.\<close>

lemma got_abs:
  assumes "binv p d s" "choice d bn hit b s"
  shows "view d (got p d bn hit b s) = view d s"
    and "refs d (got p d bn hit b s) = (refs d s)(bn := refs d s bn + 1)"
    and "in_use d (got p d bn hit b s) = (in_use d s)(bn := True)"
proof -
  have u: "uniq d (bufs s)" and o: "buf_ok p d s b"
    using assms by (auto simp: binv_def choice_def)
  note sl = got_slot [OF assms]
  have ev: "view d s k = disk_blk s k \<and> \<not> in_use d s k \<and> refs d s k = 0"
    if "slot d s k = Some b" "k \<noteq> bn" for k
  proof -
    have "bdev (bufs s b) = d" "blockno (bufs s b) = k" using that(1) slot_Some [OF u] by blast+
    moreover have "\<not> hit"
    proof
      assume hit
      then have "slot d s bn = Some b" using assms(2) by (simp add: choice_def)
      then have "blockno (bufs s b) = bn" using slot_Some [OF u] by blast
      then show False using that(2) calculation by simp
    qed
    ultimately show ?thesis using o that(1) assms(2) by (simp add: choice_def buf_ok_def view_def in_use_def refs_def)
  qed
  have new: "view d (got p d bn hit b s) k = view d s k \<and>
      refs d (got p d bn hit b s) k = ((refs d s)(bn := refs d s bn + 1)) k \<and>
      in_use d (got p d bn hit b s) k = ((in_use d s)(bn := True)) k" for k
  proof -
    consider "k = bn" | "k \<noteq> bn" "slot d s k = Some b" | "k \<noteq> bn" "slot d s k \<noteq> Some b" by blast
    then show ?thesis
    proof cases
      case 1
      then show ?thesis
        using sl [of bn] assms(2) refcnt_plus [of "refcnt (bufs s b)"]
        by (cases hit) (simp_all add: view_def refs_def in_use_def choice_def)
    next
      case 2
      then show ?thesis using sl [of k] ev [OF 2(2,1)] by (simp add: view_def refs_def in_use_def)
    next
      case 3
      have "slot d (got p d bn hit b s) k = slot d s k" using sl [of k] 3 by simp
      then show ?thesis using 3 by (cases "slot d s k") (simp_all add: view_def refs_def in_use_def)
    qed
  qed
  show "view d (got p d bn hit b s) = view d s" using new by blast
  show "refs d (got p d bn hit b s) = (refs d s)(bn := refs d s bn + 1)" using new by blast
  show "in_use d (got p d bn hit b s) = (in_use d s)(bn := True)" using new by blast
qed

section \<open>Reading and writing the disk\<close>

lemma solo_upd: "solo p (s\<lparr>vio := v, info_b := ib, mmio_log := ml, bufs := bs, used_idx := u, ctl := settle (ctl s)\<rparr>) = solo p s"
  by (simp add: solo_def running_def nobody_sleeps_def)

lemma disk_other:
  assumes "media v = put_sectors m (2 * unat bn) x" "k \<noteq> bn"
  shows "sectors (media v) (2 * unat k) = sectors m (2 * unat k)"
proof -
  have "unat k \<noteq> unat bn" using assms(2) by (simp add: word_unat_eq_iff)
  then show ?thesis unfolding assms(1) by (intro sectors_put_other) linarith
qed

lemma slot_data_cong:
  assumes "\<And>c. c < NBUF \<Longrightarrow> bdev (bufs s' c) = bdev (bufs s c) \<and> blockno (bufs s' c) = blockno (bufs s c)"
    and "\<And>c. c < NBUF \<Longrightarrow> refcnt (bufs s' c) = refcnt (bufs s c)" "slocks s' = slocks s"
  shows "slot d s' = slot d s" "refs d s' = refs d s" "in_use d s' = in_use d s"
proof -
  show sl: "slot d s' = slot d s" using assms(1) by (rule slot_cong)
  have "c < NBUF" if "slot d s k = Some c" for k c
    using that by (auto simp: slot_def find_Some_iff)
  then show "refs d s' = refs d s" "in_use d s' = in_use d s"
    using assms(2,3) by (auto simp: refs_def in_use_def sl fun_eq_iff split: option.splits)
qed

lemma fill_law:
  assumes "binv p d s" "slot d s bn = Some b" "\<not> bvalid (bufs s b)"
  shows "\<exists>s'. seq (virtio_disk_rw b False) (upd_buf b (bvalid_update (\<lambda>_. True))) s = (Ret (), s') \<and>
    binv p d s' \<and> bio_frame s s' \<and> slot d s' = slot d s \<and> bvalid (bufs s' b) \<and> slocks s' = slocks s \<and>
    (\<forall>c<NBUF. bvalid (bufs s c) \<longrightarrow> bvalid (bufs s' c)) \<and>
    view d s' = view d s \<and> disk_blk s' = disk_blk s \<and> refs d s' = refs d s \<and> in_use d s' = in_use d s"
proof -
  obtain xs where i: "solo p s" "vq_idle s" "ring (bufs s) xs" "uniq d (bufs s)" "\<forall>c<NBUF. buf_ok p d s c"
    using assms(1) by (auto simp: binv_def)
  have b: "b < NBUF" "bdev (bufs s b) = d" "blockno (bufs s b) = bn" "buf_ok p d s b"
    using binv_slot [OF assms(1,2)] by auto
  then have sec: "unat (ucast (blockno (bufs s b) * 2) :: u64) = 2 * unat bn"
    by (simp add: buf_ok_def sector_of)
  obtain v' ml where r: "virtio_disk_rw b False s = (Ret (), s\<lparr>vio := v', info_b := (info_b s)(0 := None), mmio_log := ml,
      bufs := (bufs s)(b := (bufs s b)\<lparr>bdisk := False\<rparr>), used_idx := used_didx v', ctl := settle (ctl s)\<rparr>)"
    "transferred b False (2 * unat bn) (vio s) v'"
    using virtio_disk_rw_eq [OF i(1,2), of b False] sec by auto
  define s' where "s' = s\<lparr>vio := v', info_b := (info_b s)(0 := None), mmio_log := ml,
      bufs := (bufs s)(b := (bufs s b)\<lparr>bdisk := False, bvalid := True\<rparr>), used_idx := used_didx v', ctl := settle (ctl s)\<rparr>"
  have e: "seq (virtio_disk_rw b False) (upd_buf b (bvalid_update (\<lambda>_. True))) s = (Ret (), s')"
    using r(1) by (simp add: seq_def bind_def upd_buf_def modify_def s'_def)
  have v: "bdata v' = (bdata (vio s))(b := disk_blk s bn)" "media v' = media (vio s)"
    "avail_idx v' = used_didx v'"
    using r(2) i(2) by (simp_all add: transferred_def disk_blk_def vq_idle_def)
  have dk: "disk_blk s' = disk_blk s" by (simp add: disk_blk_def fun_eq_iff s'_def v)
  have dat: "buf_data c s' = (if c = b then disk_blk s bn else buf_data c s)" for c
    by (simp add: buf_data_def s'_def v)
  have tail: "disk_blk s bn j = 0" if "1024 \<le> j" for j using that by (simp add: disk_blk_def sectors_def)
  have fld: "bufs s' = (bufs s)(b := (bufs s b)\<lparr>bdisk := False, bvalid := True\<rparr>)" "slocks s' = slocks s"
    "procs s' = procs s" by (simp_all add: s'_def)
  note abs = slot_data_cong [of s' s d]
  have sl: "slot d s' = slot d s" by (rule abs(1)) (simp_all add: s'_def)
  have "ring (bufs s') xs" using i(3) ring_cong [of "bufs s'" "bufs s" xs] by (simp add: s'_def)
  moreover have "uniq d (bufs s')" using i(4) uniq_cong [of "bufs s'" "bufs s" d] by (simp add: s'_def)
  moreover have "vq_idle s'" using i(2) v by (simp add: vq_idle_def s'_def)
  moreover have "solo p s'" using i(1) by (simp add: s'_def solo_upd)
  moreover have "buf_ok p d s' c" if "c < NBUF" for c
  proof (cases "c = b")
    case True
    then show ?thesis using b tail dat [of b] by (simp add: buf_ok_def dk fld)
  next
    case False
    then show ?thesis using i(5) that dat [of c] by (simp add: buf_ok_def dk fld)
  qed
  ultimately have inv: "binv p d s'" by (auto simp: binv_def)
  have "view d s' k = view d s k" for k
  proof (cases "slot d s k")
    case (Some c)
    show ?thesis
    proof (cases "c = b")
      case True
      then have "k = bn" using Some b(3) slot_Some [OF i(4), of k c] by simp
      then show ?thesis using True Some dat [of b] assms(3) by (simp add: view_def sl dk fld)
    qed (use Some dat [of c] in \<open>simp add: view_def sl dk fld\<close>)
  qed (simp add: view_def sl dk)
  moreover have "refs d s' = refs d s" by (rule abs(2)) (simp_all add: s'_def)
  moreover have "in_use d s' = in_use d s" by (rule abs(3)) (simp_all add: s'_def)
  moreover have "bio_frame s s'" by (simp add: bio_frame_def s'_def)
  ultimately show ?thesis using e inv sl dk by (auto simp: s'_def)
qed

lemma bget_law:
  assumes "binv p d s" "unat bn < 2 ^ 31" "\<not> in_use d s bn" "refs d s bn + 1 < 2 ^ 32"
    and "0 < refs d s bn \<or> card {k. 0 < refs d s k} < NBUF"
  shows "\<exists>b hit. choice d bn hit b s \<and> bget d bn s = (Ret b, got p d bn hit b s)"
proof -
  obtain xs where i: "solo p s" "ring (bufs s) xs" "uniq d (bufs s)" "\<forall>c<NBUF. buf_ok p d s c"
    using assms(1) by (auto simp: binv_def)
  have r: "running p s" using i(1) by simp
  show ?thesis
  proof (cases "slot d s bn")
    case (Some b)
    have "\<not> sl_locked (slocks s (SlBuf b))" using assms(3) Some by (simp add: in_use_def)
    then have "bget d bn s = (Ret b, got p d bn True b s)"
      using bget_hit [OF r i(2,3) Some] by (simp add: got_def)
    moreover have "choice d bn True b s"
      using Some assms(2,4) slot_Some [OF i(3), of bn b] by (simp add: choice_def refs_def)
    ultimately show ?thesis by blast
  next
    case None
    then have "card {k. 0 < refs d s k} < NBUF" using assms(5) by (simp add: refs_def)
    then obtain c where c: "c < NBUF" "refcnt (bufs s c) = 0" using free_buffer [OF assms(1)] by blast
    have set: "set (rev xs) = {0..<NBUF}" using i(2) by (simp add: ring_def)
    then have "find (\<lambda>b. refcnt (bufs s b) = 0) (rev xs) \<noteq> None"
      using c unfolding find_None_iff by auto
    then obtain b where b: "find (\<lambda>b. refcnt (bufs s b) = 0) (rev xs) = Some b" by blast
    then have bb: "b \<in> set (rev xs)" "refcnt (bufs s b) = 0" by (auto simp: find_Some_iff rev_nth)
    then have "b < NBUF" using set by simp
    then have "\<not> sl_locked (slocks s (SlBuf b))" using i(4) bb by (simp add: buf_ok_def)
    then have "bget d bn s = (Ret b, got p d bn False b s)"
      using bget_recycle [OF r i(2,3) None b] by (simp add: got_def)
    moreover have "choice d bn False b s" using \<open>b < NBUF\<close> bb None assms(2) by (simp add: choice_def)
    ultimately show ?thesis by blast
  qed
qed

lemma got_frame: "bio_frame s (got p d bn hit b s)"
  by (simp add: bio_frame_def got_def)

lemma got_holds:
  assumes "binv p d s" "choice d bn hit b s" "k \<noteq> bn" "holds d s k c"
  shows "holds d (got p d bn hit b s) k c"
proof -
  have "c \<noteq> b"
  proof
    assume "c = b"
    then have "slot d s k = Some b" "sl_locked (slocks s (SlBuf b))" using assms(4) by (simp_all add: holds_def)
    moreover have "refcnt (bufs s b) \<noteq> 0"
      using calculation binv_slot(4) [OF assms(1), of k b] by (auto simp: buf_ok_def)
    ultimately have "slot d s bn = Some b" using assms(2) by (simp add: choice_def split: if_splits)
    then have "blockno (bufs s b) = bn" by (rule binv_slot(3) [OF assms(1)])
    moreover have "blockno (bufs s b) = k" using \<open>slot d s k = Some b\<close> by (rule binv_slot(3) [OF assms(1)])
    ultimately show False using assms(3) by simp
  qed
  then show ?thesis using assms(3,4) got_slot [OF assms(1,2), of k] by (simp add: holds_def)
qed

lemma bread_law:
  assumes "binv p d s" "unat bn < 2 ^ 31" "\<not> in_use d s bn" "refs d s bn + 1 < 2 ^ 32"
    and "0 < refs d s bn \<or> card {k. 0 < refs d s k} < NBUF"
  shows "\<exists>b s'. bread d bn s = (Ret b, s') \<and> binv p d s' \<and> bio_frame s s' \<and> holds d s' bn b \<and>
    view d s' = view d s \<and> disk_blk s' = disk_blk s \<and> refs d s' = (refs d s)(bn := refs d s bn + 1) \<and>
    in_use d s' = (in_use d s)(bn := True) \<and> (\<forall>k c. k \<noteq> bn \<longrightarrow> holds d s k c \<longrightarrow> holds d s' k c)"
proof -
  obtain b hit where c: "choice d bn hit b s" and g: "bget d bn s = (Ret b, got p d bn hit b s)"
    using bget_law [OF assms] by blast
  let ?t = "got p d bn hit b s"
  note t = got_binv [OF assms(1) c] got_abs [OF assms(1) c] got_frame
  have sl: "slot d ?t bn = Some b" using got_slot [OF assms(1) c] by simp
  have oth: "\<forall>k c. k \<noteq> bn \<longrightarrow> holds d s k c \<longrightarrow> holds d ?t k c" using got_holds [OF assms(1) c] by blast
  show ?thesis
  proof (cases "bvalid (bufs ?t b)")
    case True
    then have "bread d bn s = (Ret b, ?t)"
      using g by (simp add: bread_def bind_def seq_def gets_def only_if_def skip_def ret_def)
    moreover have "holds d ?t bn b" using True sl by (simp add: holds_def)
    ultimately show ?thesis using t oth by (intro exI [of _ b] exI [of _ ?t]) simp
  next
    case False
    obtain u where u: "seq (virtio_disk_rw b False) (upd_buf b (bvalid_update (\<lambda>_. True))) ?t = (Ret (), u)"
      "binv p d u" "bio_frame ?t u" "slot d u = slot d ?t" "bvalid (bufs u b)" "slocks u = slocks ?t"
      "\<forall>c<NBUF. bvalid (bufs ?t c) \<longrightarrow> bvalid (bufs u c)"
      "view d u = view d ?t" "disk_blk u = disk_blk ?t" "refs d u = refs d ?t" "in_use d u = in_use d ?t"
      using fill_law [OF t(1) sl False] by blast
    have "bread d bn s = (Ret b, u)"
      using g False u(1) by (simp add: bread_def bind_def gets_def only_if_def ret_def seq_def)
    moreover have "holds d u bn b" using u sl by (simp add: holds_def)
    moreover have "holds d u k c" if "holds d ?t k c" for k c
      using that u(4,6,7) binv_slot(1) [OF t(1), of k c] by (simp add: holds_def)
    ultimately show ?thesis
      using u t oth bio_frame_trans [OF t(5) u(3)] by (intro exI [of _ b] exI [of _ u]) simp
  qed
qed

lemma holds_block:
  assumes "binv p d s" "holds d s bn b"
  shows "slot d s bn = Some b" "b < NBUF" "bdev (bufs s b) = d" "blockno (bufs s b) = bn" "buf_ok p d s b"
    "bvalid (bufs s b)" "sl_locked (slocks s (SlBuf b))" "refcnt (bufs s b) \<noteq> 0" "unat bn < 2 ^ 31"
proof -
  show sl: "slot d s bn = Some b" and v: "bvalid (bufs s b)" and l: "sl_locked (slocks s (SlBuf b))"
    using assms(2) by (simp_all add: holds_def)
  show "b < NBUF" "bdev (bufs s b) = d" "blockno (bufs s b) = bn" "buf_ok p d s b"
    using binv_slot [OF assms(1) sl] by simp_all
  then show "refcnt (bufs s b) \<noteq> 0" "unat bn < 2 ^ 31" using l by (auto simp: buf_ok_def)
qed

lemma slot_inj: "binv p d s \<Longrightarrow> slot d s k = Some b \<Longrightarrow> slot d s bn = Some b \<Longrightarrow> k = bn"
  using binv_slot(3) [of p d s k b] binv_slot(3) [of p d s bn b] by simp

lemma view_upd:
  assumes "binv p d s" "slot d s bn = Some b" "slot d s' = slot d s" "bvalid (bufs s' b)"
    and "\<And>c. c \<noteq> b \<Longrightarrow> bvalid (bufs s' c) = bvalid (bufs s c) \<and> buf_data c s' = buf_data c s"
    and "\<And>k. k \<noteq> bn \<Longrightarrow> disk_blk s' k = disk_blk s k"
  shows "view d s' = (view d s)(bn := buf_data b s')"
proof
  fix k
  show "view d s' k = ((view d s)(bn := buf_data b s')) k"
  proof (cases "k = bn")
    case True
    then show ?thesis using assms(2-4) by (simp add: view_def)
  next
    case False
    then have "slot d s k \<noteq> Some b" using assms(2) slot_inj [OF assms(1)] by blast
    then show ?thesis using False assms(3,5,6) by (cases "slot d s k") (simp_all add: view_def)
  qed
qed

lemma set_data_law:
  assumes "binv p d s" "holds d s bn b" "keeps_size f"
  shows "\<exists>s'. set_data b f s = (Ret (), s') \<and> binv p d s' \<and> bio_frame s s' \<and>
    view d s' = (view d s)(bn := f (view d s bn)) \<and> disk_blk s' = disk_blk s \<and> refs d s' = refs d s \<and>
    in_use d s' = in_use d s \<and> holds d s' = holds d s"
proof -
  obtain xs where i: "solo p s" "vq_idle s" "ring (bufs s) xs" "uniq d (bufs s)" "\<forall>c<NBUF. buf_ok p d s c"
    using assms(1) by (auto simp: binv_def)
  note h = holds_block [OF assms(1,2)]
  define s' where "s' = s\<lparr>vio := (vio s)\<lparr>bdata := (bdata (vio s))(b := f (bdata (vio s) b))\<rparr>\<rparr>"
  have dat: "buf_data c s' = (if c = b then f (buf_data b s) else buf_data c s)" for c
    by (simp add: s'_def buf_data_def)
  have fld: "bufs s' = bufs s" "slocks s' = slocks s" "procs s' = procs s" "disk_blk s' = disk_blk s"
    by (simp_all add: s'_def disk_blk_def fun_eq_iff)
  have abs: "slot d s' = slot d s" "refs d s' = refs d s" "in_use d s' = in_use d s"
    using slot_data_cong [of s' s d] by (simp_all add: fld)
  have bok: "buf_ok p d s' c" if "c < NBUF" for c
  proof (cases "c = b")
    case True
    then show ?thesis using h(5,8) assms(3) dat [of b] by (simp add: buf_ok_def fld keeps_size_def)
  next
    case False
    then show ?thesis using i(5) that dat [of c] by (simp add: buf_ok_def fld)
  qed
  have "solo p s'" "vq_idle s'" using i(1,2) by (simp_all add: s'_def solo_def running_def nobody_sleeps_def vq_idle_def)
  then have inv: "binv p d s'" using bok i(3,4) by (auto simp: binv_def fld)
  have "view d s' = (view d s)(bn := buf_data b s')"
    by (rule view_upd [OF assms(1) h(1)]) (simp_all add: abs fld dat h(6))
  moreover have "buf_data b s' = f (view d s bn)" using h(1,6) dat [of b] by (simp add: view_def)
  moreover have "holds d s' = holds d s" by (auto simp: holds_def abs fld fun_eq_iff)
  moreover have "bio_frame s s'" by (simp add: bio_frame_def s'_def)
  moreover have "set_data b f s = (Ret (), s')" by (simp add: set_data_def upd_vio_def modify_def s'_def)
  ultimately show ?thesis using inv abs fld by auto
qed

lemma bwrite_law:
  assumes "binv p d s" "holds d s bn b"
  shows "\<exists>s'. bwrite b s = (Ret (), s') \<and> binv p d s' \<and> bio_frame s s' \<and>
    view d s' = view d s \<and> disk_blk s' = (disk_blk s)(bn := view d s bn) \<and> refs d s' = refs d s \<and>
    in_use d s' = in_use d s \<and> holds d s' = holds d s"
proof -
  obtain xs where i: "solo p s" "vq_idle s" "ring (bufs s) xs" "uniq d (bufs s)" "\<forall>c<NBUF. buf_ok p d s c"
    using assms(1) by (auto simp: binv_def)
  note h = holds_block [OF assms(1,2)]
  have r: "running p s" using i(1) by simp
  have held: "sl_held (SlBuf b) s" using h(5,7) r by (auto simp: sl_held_def buf_ok_def running_def)
  let ?t = "s\<lparr>ctl := settle (ctl s)\<rparr>"
  have "solo p ?t" "vq_idle ?t" using i(1,2) by (simp_all add: solo_def running_def nobody_sleeps_def vq_idle_def)
  moreover have sec: "unat (ucast (blockno (bufs s b) * 2) :: u64) = 2 * unat bn" using h(4,9) by (simp add: sector_of)
  ultimately obtain v' ml where w: "virtio_disk_rw b True ?t = (Ret (), s\<lparr>vio := v', info_b := (info_b s)(0 := None), mmio_log := ml,
      bufs := (bufs s)(b := (bufs s b)\<lparr>bdisk := False\<rparr>), used_idx := used_didx v', ctl := settle (ctl s)\<rparr>)"
    "transferred b True (2 * unat bn) (vio s) v'"
    using virtio_disk_rw_eq [of p ?t b True] by auto
  define s' where "s' = s\<lparr>vio := v', info_b := (info_b s)(0 := None), mmio_log := ml,
      bufs := (bufs s)(b := (bufs s b)\<lparr>bdisk := False\<rparr>), used_idx := used_didx v', ctl := settle (ctl s)\<rparr>"
  have e: "bwrite b s = (Ret (), s')"
    using held w(1) holdingsleep_eq [OF r] by (simp add: bwrite_def bind_def s'_def)
  have v: "bdata v' = bdata (vio s)" "media v' = put_sectors (media (vio s)) (2 * unat bn) (buf_data b s)"
    "avail_idx v' = used_didx v'"
    using w(2) i(2) by (simp_all add: transferred_def vq_idle_def buf_data_def)
  have fld: "bufs s' = (bufs s)(b := (bufs s b)\<lparr>bdisk := False\<rparr>)" "slocks s' = slocks s" "procs s' = procs s"
    "buf_data c s' = buf_data c s" for c by (simp_all add: s'_def buf_data_def v)
  have vb: "view d s bn = buf_data b s" using h(1,6) by (simp add: view_def)
  have dk: "disk_blk s' = (disk_blk s)(bn := view d s bn)"
  proof
    fix k
    have "(\<lambda>i. if i < 1024 then buf_data b s i else 0) = buf_data b s"
      using h(5) by (auto simp: buf_ok_def fun_eq_iff)
    then show "disk_blk s' k = ((disk_blk s)(bn := view d s bn)) k"
      using disk_other [OF v(2), of k] vb by (auto simp: disk_blk_def s'_def v(2))
  qed
  have abs: "slot d s' = slot d s" "refs d s' = refs d s" "in_use d s' = in_use d s"
    using slot_data_cong [of s' s d] by (simp_all add: fld)
  have bok: "buf_ok p d s' c" if "c < NBUF" for c
  proof (cases "c = b")
    case True
    then show ?thesis using h(5,8) by (simp add: buf_ok_def fld)
  next
    case False
    then have "bdev (bufs s c) = d \<Longrightarrow> blockno (bufs s c) \<noteq> bn"
      using i(4) that h(2-4) by (auto simp: uniq_def)
    then show ?thesis using i(5) that False by (auto simp: buf_ok_def fld dk)
  qed
  have "solo p s'" "vq_idle s'" using i(1,2) v by (simp_all add: s'_def solo_upd vq_idle_def)
  moreover have "ring (bufs s') xs" using i(3) ring_cong [of "bufs s'" "bufs s" xs] by (simp add: fld)
  moreover have "uniq d (bufs s')" using i(4) uniq_cong [of "bufs s'" "bufs s" d] by (simp add: fld)
  ultimately have inv: "binv p d s'" using bok by (auto simp: binv_def)
  have "view d s' = (view d s)(bn := buf_data b s')"
    by (rule view_upd [OF assms(1) h(1)]) (simp_all add: abs fld h(6) dk)
  then have "view d s' = view d s" by (simp add: fld vb [symmetric])
  moreover have "holds d s' = holds d s" by (auto simp: holds_def abs fld fun_eq_iff)
  moreover have "bio_frame s s'" by (simp add: bio_frame_def s'_def)
  ultimately show ?thesis using e inv abs dk by auto
qed

section \<open>Giving a buffer back, pinning it\<close>

lemma set_links_sel [simp]:
  "bdev (set_prev a v bs c) = bdev (bs c)" "blockno (set_prev a v bs c) = blockno (bs c)"
  "bvalid (set_prev a v bs c) = bvalid (bs c)" "refcnt (set_prev a v bs c) = refcnt (bs c)"
  "bdev (set_next a v bs c) = bdev (bs c)" "blockno (set_next a v bs c) = blockno (bs c)"
  "bvalid (set_next a v bs c) = bvalid (bs c)" "refcnt (set_next a v bs c) = refcnt (bs c)"
  by (simp_all add: set_prev_def set_next_def)

lemma front_sel [simp]:
  "bdev (front b bs c) = bdev (bs c)" "blockno (front b bs c) = blockno (bs c)"
  "bvalid (front b bs c) = bvalid (bs c)" "refcnt (front b bs c) = refcnt (bs c)"
  by (simp_all add: front_def Let_def)

text \<open>A change of the reference count of one block, with an effect on its lock.\<close>

lemma recount:
  assumes "binv p d s" "slot d s bn = Some b" "solo p s'" "vq_idle s'" "ring (bufs s') ys"
    and same: "vio s' = vio s" "procs s' = procs s"
      "\<And>c. bdev (bufs s' c) = bdev (bufs s c) \<and> blockno (bufs s' c) = blockno (bufs s c) \<and> bvalid (bufs s' c) = bvalid (bufs s c)"
      "\<And>c. c \<noteq> b \<Longrightarrow> refcnt (bufs s' c) = refcnt (bufs s c)"
      "\<And>c. c \<noteq> b \<Longrightarrow> slocks s' (SlBuf c) = slocks s (SlBuf c)"
    and "buf_ok p d s' b"
  shows "binv p d s'" "view d s' = view d s" "disk_blk s' = disk_blk s" "slot d s' = slot d s"
    "refs d s' = (refs d s)(bn := unat (refcnt (bufs s' b)))"
    "in_use d s' = (in_use d s)(bn := sl_locked (slocks s' (SlBuf b)))"
proof -
  have u: "uniq d (bufs s)" and o: "\<forall>c<NBUF. buf_ok p d s c" using assms(1) by (simp_all add: binv_def)
  show dk: "disk_blk s' = disk_blk s" by (simp add: disk_blk_def fun_eq_iff same)
  have dat: "buf_data c s' = buf_data c s" for c by (simp add: buf_data_def same)
  show sl: "slot d s' = slot d s" by (rule slot_cong) (simp add: same)
  have "uniq d (bufs s')" using u uniq_cong [of "bufs s'" "bufs s" d] by (simp add: same)
  moreover have "buf_ok p d s' c" if "c < NBUF" for c
    using o that assms(11) by (cases "c = b") (simp_all add: buf_ok_def same dk dat)
  ultimately show "binv p d s'" using assms(3-5) by (auto simp: binv_def)
  show "view d s' = view d s" by (auto simp: view_def sl dk dat same fun_eq_iff split: option.splits)
  have ne: "slot d s k \<noteq> Some b" if "k \<noteq> bn" for k using that assms(2) slot_inj [OF assms(1)] by blast
  show "refs d s' = (refs d s)(bn := unat (refcnt (bufs s' b)))"
  proof
    fix k
    show "refs d s' k = ((refs d s)(bn := unat (refcnt (bufs s' b)))) k"
      using ne [of k] assms(2) by (cases "slot d s k") (auto simp: refs_def sl same)
  qed
  show "in_use d s' = (in_use d s)(bn := sl_locked (slocks s' (SlBuf b)))"
  proof
    fix k
    show "in_use d s' k = ((in_use d s)(bn := sl_locked (slocks s' (SlBuf b)))) k"
      using ne [of k] assms(2) by (cases "slot d s k") (auto simp: in_use_def sl same)
  qed
qed

lemma refcnt_minus: "0 < unat (r :: u32) \<Longrightarrow> unat (r - 1) = unat r - 1"
  by (simp add: unat_minus_one unat_gt_0)

lemma repin:
  assumes "binv p d s" "holds d s bn b" "f (refcnt (bufs s b)) \<noteq> 0"
    and s': "s' = s\<lparr>bufs := (bufs s)(b := refcnt_update f (bufs s b)), ctl := settle (ctl s)\<rparr>"
  shows "binv p d s' \<and> bio_frame s s' \<and> view d s' = view d s \<and> disk_blk s' = disk_blk s \<and>
    refs d s' = (refs d s)(bn := unat (f (refcnt (bufs s b)))) \<and> in_use d s' = in_use d s \<and> holds d s' = holds d s"
proof -
  obtain xs where i: "solo p s" "vq_idle s" "ring (bufs s) xs"
    using assms(1) by (auto simp: binv_def)
  note h = holds_block [OF assms(1,2)]
  have fld: "bufs s' = (bufs s)(b := refcnt_update f (bufs s b))" "slocks s' = slocks s" "procs s' = procs s"
    "vio s' = vio s" "buf_data c s' = buf_data c s" "disk_blk s' = disk_blk s" for c
    by (simp_all add: s' buf_data_def disk_blk_def fun_eq_iff)
  have bok: "buf_ok p d s' b" using h(3,5) assms(3) by (simp add: buf_ok_def fld)
  have idle: "solo p s'" "vq_idle s'" using i(1,2) by (simp_all add: s' solo_def running_def nobody_sleeps_def vq_idle_def)
  have rg: "ring (bufs s') xs" using i(3) ring_cong [of "bufs s'" "bufs s" xs] by (simp add: fld)
  have abs: "binv p d s'" "view d s' = view d s" "disk_blk s' = disk_blk s" "slot d s' = slot d s"
    "refs d s' = (refs d s)(bn := unat (refcnt (bufs s' b)))"
    "in_use d s' = (in_use d s)(bn := sl_locked (slocks s' (SlBuf b)))"
    by (rule recount [OF assms(1) h(1) idle rg]; use bok in \<open>simp add: fld\<close>)+
  have "in_use d s' = in_use d s" unfolding abs(6) using h(1) by (auto simp: fld in_use_def fun_eq_iff)
  moreover have "holds d s' = holds d s" by (auto simp: holds_def abs(4) fld fun_eq_iff)
  moreover have "bio_frame s s'" by (simp add: bio_frame_def s')
  ultimately show ?thesis using abs by (simp add: fld)
qed

lemma bpin_law:
  assumes "binv p d s" "holds d s bn b" "refs d s bn + 1 < 2 ^ 32"
  shows "\<exists>s'. bpin b s = (Ret (), s') \<and> binv p d s' \<and> bio_frame s s' \<and> view d s' = view d s \<and>
    disk_blk s' = disk_blk s \<and> refs d s' = (refs d s)(bn := refs d s bn + 1) \<and> in_use d s' = in_use d s \<and>
    holds d s' = holds d s"
proof -
  let ?s = "s\<lparr>bufs := (bufs s)(b := refcnt_update (\<lambda>r. r + 1) (bufs s b)), ctl := settle (ctl s)\<rparr>"
  have "solo p s" using assms(1) by (simp add: binv_def)
  then have "bpin b s = (Ret (), ?s)"
    by (simp add: bpin_def seq_def bind_def solo_def running_def acquire_ok release_ok upd_buf_def modify_def)
  moreover have r: "unat (refcnt (bufs s b) + 1) = refs d s bn + 1"
    using assms(3) holds_block(1) [OF assms(1,2)] refcnt_plus [of "refcnt (bufs s b)"] by (simp add: refs_def)
  moreover have "refcnt (bufs s b) + 1 \<noteq> 0" using r by (metis add_is_0 unat_0 zero_neq_one)
  ultimately show ?thesis using repin [OF assms(1,2) _ refl, of "\<lambda>r. r + 1"] by simp
qed

lemma bunpin_law:
  assumes "binv p d s" "holds d s bn b" "1 < refs d s bn"
  shows "\<exists>s'. bunpin b s = (Ret (), s') \<and> binv p d s' \<and> bio_frame s s' \<and> view d s' = view d s \<and>
    disk_blk s' = disk_blk s \<and> refs d s' = (refs d s)(bn := refs d s bn - 1) \<and> in_use d s' = in_use d s \<and>
    holds d s' = holds d s"
proof -
  let ?s = "s\<lparr>bufs := (bufs s)(b := refcnt_update (\<lambda>r. r - 1) (bufs s b)), ctl := settle (ctl s)\<rparr>"
  have "solo p s" using assms(1) by (simp add: binv_def)
  then have "bunpin b s = (Ret (), ?s)"
    by (simp add: bunpin_def seq_def bind_def solo_def running_def acquire_ok release_ok upd_buf_def modify_def)
  moreover have r: "unat (refcnt (bufs s b) - 1) = refs d s bn - 1"
    using assms(3) holds_block(1) [OF assms(1,2)] refcnt_minus [of "refcnt (bufs s b)"] by (simp add: refs_def)
  moreover have "refcnt (bufs s b) - 1 \<noteq> 0"
  proof
    assume "refcnt (bufs s b) - 1 = 0"
    then have "unat (refcnt (bufs s b) - 1) = 0" by (simp only: unat_0)
    then show False using r assms(3) by simp
  qed
  ultimately show ?thesis using repin [OF assms(1,2) _ refl, of "\<lambda>r. r - 1"] by simp
qed

lemma brelse_law:
  assumes "binv p d s" "holds d s bn b" "1 < refs d s bn \<or> view d s bn = disk_blk s bn"
  shows "\<exists>s'. brelse b s = (Ret (), s') \<and> binv p d s' \<and> bio_frame s s' \<and> view d s' = view d s \<and>
    disk_blk s' = disk_blk s \<and> refs d s' = (refs d s)(bn := refs d s bn - 1) \<and>
    in_use d s' = (in_use d s)(bn := False) \<and> (\<forall>k c. k \<noteq> bn \<longrightarrow> holds d s k c \<longrightarrow> holds d s' k c)"
proof -
  obtain xs where i: "solo p s" "vq_idle s" "ring (bufs s) xs" "uniq d (bufs s)"
    using assms(1) by (auto simp: binv_def)
  note h = holds_block [OF assms(1,2)]
  have r: "running p s" and ns: "nobody_sleeps s" using i(1) by (simp_all add: solo_def)
  have held: "sl_held (SlBuf b) s" using h(5,7) r by (auto simp: sl_held_def buf_ok_def running_def)
  let ?bs = "(bufs s)(b := refcnt_update (\<lambda>r. r - 1) (bufs s b))"
  let ?z = "refcnt (bufs s b) - 1 = 0"
  define s' where "s' = s\<lparr>slocks := (slocks s)(SlBuf b := (slocks s (SlBuf b))\<lparr>sl_locked := False, sl_pid := 0\<rparr>),
    bufs := (if ?z then front b ?bs else ?bs), ctl := settle (ctl s)\<rparr>"
  have rg: "ring ?bs xs" using i(3) ring_cong [of ?bs "bufs s" xs] by simp
  let ?t = "s\<lparr>ctl := settle (ctl s)\<rparr>"
  have "releasesleep (SlBuf b) ?t = (Ret (), s\<lparr>slocks := (slocks s)(SlBuf b := (slocks s (SlBuf b))\<lparr>sl_locked := False, sl_pid := 0\<rparr>),
      ctl := settle (ctl s)\<rparr>)"
    using releasesleep_eq [of p ?t "SlBuf b"] r ns by (simp add: running_def nobody_sleeps_def)
  moreover have "lock_free BcacheLock (ctl s)" using r by (simp add: running_def)
  moreover define w where "w = s\<lparr>slocks := (slocks s)(SlBuf b := (slocks s (SlBuf b))\<lparr>sl_locked := False, sl_pid := 0\<rparr>),
    ctl := acq BcacheLock (ctl s), bufs := ?bs\<rparr>"
  moreover have "move_front b w = (Ret (), w\<lparr>bufs := front b (bufs w)\<rparr>)"
    by (rule move_front_eq [OF _ h(2)]) (use rg in \<open>simp add: w_def\<close>)
  ultimately have e: "brelse b s = (Ret (), s')"
    using held holdingsleep_eq [OF r]
    by (simp add: brelse_def bind_def seq_def gets_def modify_def upd_buf_def acquire_ok release_ok
        only_if_def skip_def ret_def s'_def)
  have fld: "bufs s' = (if ?z then front b ?bs else ?bs)" "procs s' = procs s" "vio s' = vio s"
    "slocks s' = (slocks s)(SlBuf b := (slocks s (SlBuf b))\<lparr>sl_locked := False, sl_pid := 0\<rparr>)"
    "buf_data c s' = buf_data c s" "disk_blk s' = disk_blk s" for c
    by (simp_all add: s'_def buf_data_def disk_blk_def fun_eq_iff)
  have cnt: "refcnt (bufs s' b) = refcnt (bufs s b) - 1" by (simp add: fld)
  have rm: "unat (refcnt (bufs s b) - 1) = refs d s bn - 1" "0 < refs d s bn"
    using h(1,8) refcnt_minus [of "refcnt (bufs s b)"] by (simp_all add: refs_def unat_gt_0)
  have clean: "buf_data b s = disk_blk s bn" if ?z
  proof -
    have "refs d s bn - 1 = 0" using that rm(1) by (simp only: unat_0)
    then have "\<not> 1 < refs d s bn" by simp
    then show ?thesis using assms(3) h(1,6) by (simp add: view_def)
  qed
  have bok: "buf_ok p d s' b" using h(3-5) clean by (simp add: buf_ok_def fld)
  have idle: "solo p s'" "vq_idle s'" using i(1,2) by (simp_all add: s'_def solo_def running_def nobody_sleeps_def vq_idle_def)
  have "\<exists>ys. ring (bufs s') ys" using rg ring_front [OF rg h(2)] by (auto simp: fld)
  then obtain ys where ys: "ring (bufs s') ys" by blast
  have abs: "binv p d s'" "view d s' = view d s" "disk_blk s' = disk_blk s" "slot d s' = slot d s"
    "refs d s' = (refs d s)(bn := unat (refcnt (bufs s' b)))"
    "in_use d s' = (in_use d s)(bn := sl_locked (slocks s' (SlBuf b)))"
    by (rule recount [OF assms(1) h(1) idle ys]; use bok in \<open>simp add: fld\<close>)+
  have "holds d s' k c" if "k \<noteq> bn" "holds d s k c" for k c
  proof -
    have "c \<noteq> b" using that h(1) slot_inj [OF assms(1)] by (auto simp: holds_def)
    then show ?thesis using that by (simp add: holds_def abs(4) fld)
  qed
  moreover have "bio_frame s s'" by (simp add: bio_frame_def s'_def)
  ultimately show ?thesis using e abs rm by (auto simp: cnt fld)
qed

section \<open>The interpretation\<close>

interpretation bc: block_store "bread d" bwrite brelse set_data bpin bunpin "binv p d" bio_frame
  "view d" disk_blk "refs d" "in_use d" "holds d" "\<lambda>s b. buf_data b s"
  for p d
proof
  fix s t u :: "'a vdisk_state_scheme" and bn bn' :: u32 and b b' f
  show "bio_frame s s" by (simp add: bio_frame_def)
  show "bio_frame s t \<Longrightarrow> bio_frame t u \<Longrightarrow> bio_frame s u" by (rule bio_frame_trans)
  show "in_use d s bn \<and> 0 < refs d s bn \<and> buf_data b s = view d s bn" if "binv p d s" "holds d s bn b"
    using holds_block [OF that] by (simp add: in_use_def refs_def view_def unat_gt_0)
  show "view d s bn i = 0" if "binv p d s" "1024 \<le> i" for i
  proof (cases "slot d s bn")
    case (Some c)
    then show ?thesis using that binv_slot(4) [OF that(1) Some] by (auto simp: view_def buf_ok_def disk_blk_def sectors_def)
  qed (use that in \<open>simp add: view_def disk_blk_def sectors_def\<close>)
  show "b = b' \<longleftrightarrow> bn = bn'" if "binv p d s" "holds d s bn b" "holds d s bn' b'"
    using that slot_inj [OF that(1), of bn b bn'] by (auto simp: holds_def)
qed (rule bread_law set_data_law bwrite_law brelse_law bpin_law bunpin_law; assumption)+

end
