(* ===== verification/Log.thy ===== *)
theory Log
  imports Bcache
begin

text \<open>
  \<open>kernel/log.c\<close>: the redo log that makes file-system operations atomic with respect to crashes.

  \<open>lh_n\<close> and \<open>lh_block\<close> are the in-memory log header, \<open>log_start\<close> the block number of the on-disk
  header; log block \<open>i\<close> follows at \<open>log_start + i + 1\<close>.  Writing a block is the unit of a crash:
  the crash states of \<open>commit\<close> are the disks between two of its block writes.  The theorems show
  that recovery from any of them yields the disk without the transaction or with all of it.
\<close>

section \<open>State and operations\<close>

record log_state = vdisk_state +
  log_start :: u32
  outstanding :: int
  committing :: bool
  log_dev :: u32
  lh_n :: int
  lh_block :: "nat \<Rightarrow> u32"

definition hdr_n :: "block \<Rightarrow> int" where
  "hdr_n d = sint (get32 d 0)"

definition hdr_block :: "block \<Rightarrow> nat \<Rightarrow> u32" where
  "hdr_block d i = get32 d (4 + 4 * i)"

text \<open>Stores beyond \<open>lh.block[LOGBLOCKS - 1]\<close> are undefined.\<close>

definition read_head :: "(unit, 'a log_state_scheme) routine" where
  "read_head =
     bind (gets log_dev) (\<lambda>dev. bind (gets log_start) (\<lambda>st.
     bind (bread dev st) (\<lambda>b.
     bind (gets (buf_data b)) (\<lambda>d.
     seq (modify (\<lambda>s. s\<lparr>lh_n := hdr_n d\<rparr>)) (
     seq (for_each [0..<nat (hdr_n d)] (\<lambda>i.
       if i \<ge> LOGBLOCKS then undef ''read_head''
       else modify (\<lambda>s. s\<lparr>lh_block := (lh_block s)(i := hdr_block d i)\<rparr>))) (
     brelse b))))))"

fun put_blocks :: "nat \<Rightarrow> (nat \<Rightarrow> u32) \<Rightarrow> block \<Rightarrow> block" where
  "put_blocks 0 f d = d"
| "put_blocks (Suc n) f d = put32 (put_blocks n f d) (4 + 4 * n) (f n)"

definition put_header :: "int \<Rightarrow> (nat \<Rightarrow> u32) \<Rightarrow> block \<Rightarrow> block" where
  "put_header n f d = put_blocks (nat n) f (put32 d 0 (of_int n))"

definition write_head :: "(unit, 'a log_state_scheme) routine" where
  "write_head =
     bind (gets log_dev) (\<lambda>dev. bind (gets log_start) (\<lambda>st.
     bind (bread dev st) (\<lambda>b.
     bind (gets lh_n) (\<lambda>n. bind (gets lh_block) (\<lambda>f.
     if n > int LOGBLOCKS then undef ''write_head'' else
     seq (set_data b (put_header n f)) (
     seq (bwrite b) (
     brelse b)))))))"

definition memmove_buf :: "nat \<Rightarrow> nat \<Rightarrow> (unit, 'a vdisk_state_scheme) routine" where
  "memmove_buf dst src = bind (gets (buf_data src)) (\<lambda>d. set_data dst (\<lambda>_. d))"

definition install_one :: "bool \<Rightarrow> nat \<Rightarrow> (unit, 'a log_state_scheme) routine" where
  "install_one recovering tail =
     seq (only_if recovering (bind (gets lh_block) (\<lambda>f.
       seq (printf (str ''recovering tail %d dst %d'' @ [10]) [Int32 (of_nat tail), Int32 (f tail)]) skip))) (
     bind (gets log_dev) (\<lambda>dev. bind (gets log_start) (\<lambda>st.
     bind (bread dev (st + of_nat tail + 1)) (\<lambda>lbuf.
     bind (gets lh_block) (\<lambda>f.
     bind (bread dev (f tail)) (\<lambda>dbuf.
     seq (memmove_buf dbuf lbuf) (
     seq (bwrite dbuf) (
     seq (only_if (\<not> recovering) (bunpin dbuf)) (
     seq (brelse lbuf) (
     brelse dbuf))))))))))"

definition install_trans :: "bool \<Rightarrow> (unit, 'a log_state_scheme) routine" where
  "install_trans recovering = bind (gets lh_n) (\<lambda>n. for_each [0..<nat n] (install_one recovering))"

definition recover_from_log :: "(unit, 'a log_state_scheme) routine" where
  "recover_from_log =
     seq read_head (
     seq (install_trans True) (
     seq (modify (\<lambda>s. s\<lparr>lh_n := 0\<rparr>)) (
     write_head)))"

definition initlog :: "u32 \<Rightarrow> u32 \<Rightarrow> (unit, 'a log_state_scheme) routine" where
  "initlog dev logstart =
     (if 4 + 4 * LOGBLOCKS \<ge> 1024 then panic ''initlog: too big logheader'' else
      seq (initlock LogLock ''log'') (
      seq (modify (\<lambda>s. s\<lparr>log_start := logstart, log_dev := dev\<rparr>)) (
      recover_from_log)))"

text \<open>A process that has to wait for log space sleeps; when it is woken it runs \<open>begin_op_loop\<close>
  again.\<close>

definition begin_op_loop :: "(unit, 'a log_state_scheme) routine" where
  "begin_op_loop =
     bind (gets committing) (\<lambda>c.
     if c then sleep ChanLog LogLock else
     bind (gets (\<lambda>s. lh_n s + (outstanding s + 1) * int MAXOPBLOCKS > int LOGBLOCKS)) (\<lambda>full.
     if full then sleep ChanLog LogLock else
     seq (modify (\<lambda>s. s\<lparr>outstanding := outstanding s + 1\<rparr>)) (
     release LogLock)))"

definition begin_op :: "(unit, 'a log_state_scheme) routine" where
  "begin_op = seq (acquire LogLock) begin_op_loop"

definition write_log_one :: "nat \<Rightarrow> (unit, 'a log_state_scheme) routine" where
  "write_log_one tail =
     bind (gets log_dev) (\<lambda>dev. bind (gets log_start) (\<lambda>st.
     bind (bread dev (st + of_nat tail + 1)) (\<lambda>to.
     bind (gets lh_block) (\<lambda>f.
     bind (bread dev (f tail)) (\<lambda>from.
     seq (memmove_buf to from) (
     seq (bwrite to) (
     seq (brelse from) (
     brelse to))))))))"

definition write_log :: "(unit, 'a log_state_scheme) routine" where
  "write_log = bind (gets lh_n) (\<lambda>n. for_each [0..<nat n] write_log_one)"

definition commit :: "(unit, 'a log_state_scheme) routine" where
  "commit =
     bind (gets lh_n) (\<lambda>n.
     only_if (n > 0) (
       seq write_log (
       seq write_head (
       seq (install_trans False) (
       seq (modify (\<lambda>s. s\<lparr>lh_n := 0\<rparr>)) (
       write_head))))))"

definition end_op :: "(unit, 'a log_state_scheme) routine" where
  "end_op =
     seq (acquire LogLock) (
     seq (modify (\<lambda>s. s\<lparr>outstanding := outstanding s - 1\<rparr>)) (
     bind (gets committing) (\<lambda>c.
     if c then panic ''log.committing'' else
     bind (gets (\<lambda>s. outstanding s = 0)) (\<lambda>do_commit.
     seq (if do_commit then modify (\<lambda>s. s\<lparr>committing := True\<rparr>) else wakeup ChanLog) (
     seq (release LogLock) (
     only_if do_commit (
       seq commit (
       seq (acquire LogLock) (
       seq (modify (\<lambda>s. s\<lparr>committing := False\<rparr>)) (
       seq (wakeup ChanLog) (
       release LogLock)))))))))))"

definition log_find :: "int \<Rightarrow> (nat \<Rightarrow> u32) \<Rightarrow> u32 \<Rightarrow> nat" where
  "log_find n f bn = (case find (\<lambda>i. f i = bn) [0..<nat n] of Some i \<Rightarrow> i | None \<Rightarrow> nat n)"

definition log_write :: "nat \<Rightarrow> (unit, 'a log_state_scheme) routine" where
  "log_write b =
     seq (acquire LogLock) (
     bind (gets lh_n) (\<lambda>n.
     if n \<ge> int LOGBLOCKS then panic ''too big a transaction'' else
     bind (gets outstanding) (\<lambda>o'.
     if o' < 1 then panic ''log_write outside of trans'' else
     bind (gets (\<lambda>s. blockno (bufs s b))) (\<lambda>bn.
     bind (gets (\<lambda>s. log_find n (lh_block s) bn)) (\<lambda>i.
     seq (modify (\<lambda>s. s\<lparr>lh_block := (lh_block s)(i := bn)\<rparr>)) (
     seq (only_if (int i = n) (
       seq (bpin b) (
       modify (\<lambda>s. s\<lparr>lh_n := lh_n s + 1\<rparr>)))) (
     release LogLock)))))))"

section \<open>Copying a block through the store\<close>

lemma finite_u32 [simp]: "finite (A :: u32 set)"
  by (rule finite_subset [OF subset_UNIV]) simp

lemma card_ref: "card {k :: u32. 0 < (r(a := r a + (1 :: nat))) k} \<le> card {k. 0 < r k} + 1"
proof -
  have "{k. 0 < (r(a := r a + 1)) k} \<subseteq> insert a {k. 0 < r k}" by auto
  then have "card {k. 0 < (r(a := r a + 1)) k} \<le> card (insert a {k. 0 < r k})" by (intro card_mono) simp_all
  also have "\<dots> \<le> card {k. 0 < r k} + 1" by (simp add: card_insert_if)
  finally show ?thesis .
qed

lemma keeps_size_const: "(\<And>i. 1024 \<le> i \<Longrightarrow> x i = 0) \<Longrightarrow> keeps_size (\<lambda>_. x)"
  by (simp add: keeps_size_def)

context block_store
begin

text \<open>Two blocks at once, the second read being of a block that is referenced or clean.\<close>

lemma read_two:
  assumes "ok s" "a \<noteq> c" "\<not> lk s a" "\<not> lk s c" "unat a < 2 ^ 31" "unat c < 2 ^ 31"
    and "rf s a + 1 < 2 ^ 32" "rf s c + 1 < 2 ^ 32" "card {k. 0 < rf s k} + 1 < NBUF"
  shows "\<exists>x y t u. rd a s = (Ret x, t) \<and> frame s t \<and> rd c t = (Ret y, u) \<and> frame s u \<and> ok u \<and>
    hold u a x \<and> hold u c y \<and> dat u x = vw s a \<and> dat u y = vw s c \<and> vw u = vw s \<and> dk u = dk s \<and>
    rf u = (rf s)(a := rf s a + 1, c := rf s c + 1) \<and> lk u = (lk s)(a := True, c := True)"
proof -
  have "0 < rf s a \<or> card {k. 0 < rf s k} < NBUF" using assms(9) by simp
  then obtain x t where t: "rd a s = (Ret x, t)" "ok t" "frame s t" "hold t a x" "vw t = vw s" "dk t = dk s"
    "rf t = (rf s)(a := rf s a + 1)" "lk t = (lk s)(a := True)"
    using rd_law [OF assms(1,5,3,7)] by blast
  have "card {k. 0 < rf t k} < NBUF" using card_ref [of "rf s" a] assms(9) t(7) by simp
  moreover have "\<not> lk t c" "rf t c + 1 < 2 ^ 32" using t(7,8) assms(2,4,8) by simp_all
  ultimately obtain y u where u: "rd c t = (Ret y, u)" "ok u" "frame t u" "hold u c y" "vw u = vw t" "dk u = dk t"
    "rf u = (rf t)(c := rf t c + 1)" "lk u = (lk t)(c := True)" "\<forall>k z. k \<noteq> c \<longrightarrow> hold t k z \<longrightarrow> hold u k z"
    using rd_law [OF t(2) assms(6)] by blast
  have "hold u a x" using u(9) t(4) assms(2) by blast
  moreover have "dat u x = vw s a" "dat u y = vw s c"
    using hold_lk [OF u(2)] \<open>hold u a x\<close> u(4,5) t(5) by simp_all
  moreover have "frame s u" using t(3) u(3) frame_trans by blast
  moreover have "rf u = (rf s)(a := rf s a + 1, c := rf s c + 1)" using u(7) t(7) assms(2) by simp
  ultimately show ?thesis using t u by auto
qed

text \<open>Copying the contents of one held block into another and writing it out.\<close>

lemma copy_held:
  assumes "ok s" "hold s a x" "hold s c y"
  shows "\<exists>t u. put x (\<lambda>_. dat s y) s = (Ret (), t) \<and> frame s t \<and> wr x t = (Ret (), u) \<and> frame s u \<and> ok u \<and>
    vw u = (vw s)(a := vw s c) \<and> dk u = (dk s)(a := vw s c) \<and> rf u = rf s \<and> lk u = lk s \<and> hold u = hold s"
proof -
  have y: "dat s y = vw s c" using hold_lk [OF assms(1,3)] by simp
  have "keeps_size (\<lambda>_. dat s y)" unfolding y using vw_tail [OF assms(1)] by (intro keeps_size_const) simp
  from put_law [OF assms(1,2) this] obtain t where t: "put x (\<lambda>_. dat s y) s = (Ret (), t)" "ok t" "frame s t"
    "vw t = (vw s)(a := vw s c)" "dk t = dk s" "rf t = rf s" "lk t = lk s" "hold t = hold s"
    unfolding y by blast
  have "hold t a x" using t(8) assms(2) by simp
  from wr_law [OF t(2) this] obtain u where u: "wr x t = (Ret (), u)" "ok u" "frame t u" "vw u = vw t"
    "dk u = (dk t)(a := vw t a)" "rf u = rf t" "lk u = lk t" "hold u = hold t" by blast
  have "frame s u" using t(3) u(3) frame_trans by blast
  with t u show ?thesis by auto
qed

text \<open>Letting two held blocks go.\<close>

lemma release_two:
  assumes "ok s" "hold s a x" "hold s c y" "a \<noteq> c" "1 < rf s a \<or> vw s a = dk s a" "1 < rf s c \<or> vw s c = dk s c"
  shows "\<exists>t u. rl x s = (Ret (), t) \<and> frame s t \<and> rl y t = (Ret (), u) \<and> frame s u \<and> ok u \<and> vw u = vw s \<and> dk u = dk s \<and>
    rf u = (rf s)(a := rf s a - 1, c := rf s c - 1) \<and> lk u = (lk s)(a := False, c := False)"
proof -
  obtain t where t: "rl x s = (Ret (), t)" "ok t" "frame s t" "vw t = vw s" "dk t = dk s"
    "rf t = (rf s)(a := rf s a - 1)" "lk t = (lk s)(a := False)" "\<forall>k z. k \<noteq> a \<longrightarrow> hold s k z \<longrightarrow> hold t k z"
    using rl_law [OF assms(1,2,5)] by blast
  have "hold t c y" using t(8) assms(3) assms(4) [symmetric] by blast
  moreover have "1 < rf t c \<or> vw t c = dk t c" using t assms(4,6) by simp
  ultimately obtain u where u: "rl y t = (Ret (), u)" "ok u" "frame t u" "vw u = vw t" "dk u = dk t"
    "rf u = (rf t)(c := rf t c - 1)" "lk u = (lk t)(c := False)"
    using rl_law [OF t(2)] by blast
  have "frame s u" using t(3) u(3) frame_trans by blast
  with t u assms(4) show ?thesis by auto
qed

end

section \<open>The blocks of a transaction\<close>

definition home :: "'a log_state_scheme \<Rightarrow> u32 set" where
  "home s = lh_block s ` {..<nat (lh_n s)}"

definition log_blk :: "'a log_state_scheme \<Rightarrow> nat \<Rightarrow> u32" where
  "log_blk s i = log_start s + of_nat i + 1"

text \<open>The log region is inside the disk, the logged blocks are distinct and outside of it, and two
  buffers are left for the copies.\<close>

definition log_ok :: "'a log_state_scheme \<Rightarrow> bool" where
  "log_ok s \<longleftrightarrow> 0 \<le> lh_n s \<and> lh_n s + 2 \<le> int NBUF \<and> unat (log_start s) + LOGBLOCKS + 1 < 2 ^ 31 \<and>
     inj_on (lh_block s) {..<nat (lh_n s)} \<and>
     (\<forall>i<nat (lh_n s). unat (lh_block s i) < 2 ^ 31 \<and>
       (unat (lh_block s i) < unat (log_start s) \<or> unat (log_start s) + LOGBLOCKS < unat (lh_block s i)))"

text \<open>No buffer is in use, and the only references are one each to the blocks of \<open>P\<close>.\<close>

definition pins :: "nat \<Rightarrow> u32 set \<Rightarrow> 'a log_state_scheme \<Rightarrow> bool" where
  "pins p P s \<longleftrightarrow> binv p (log_dev s) s \<and> (\<forall>k. \<not> in_use (log_dev s) s k) \<and>
     refs (log_dev s) s = (\<lambda>k. if k \<in> P then 1 else 0)"

lemma bio_frame_log:
  assumes "bio_frame s (s' :: 'a log_state_scheme)"
  shows "log_start s' = log_start s" "log_dev s' = log_dev s" "lh_n s' = lh_n s" "lh_block s' = lh_block s"
    "outstanding s' = outstanding s" "committing s' = committing s" "home s' = home s" "log_blk s' = log_blk s"
    "log_ok s' = log_ok s"
proof -
  have e: "s' = s\<lparr>ctl := ctl s', slocks := slocks s', vio := vio s', bufs := bufs s',
     used_idx := used_idx s', info_b := info_b s', mmio_log := mmio_log s'\<rparr>"
    using assms by (simp add: bio_frame_def)
  show f: "log_start s' = log_start s" "log_dev s' = log_dev s" "lh_n s' = lh_n s" "lh_block s' = lh_block s"
    "outstanding s' = outstanding s" "committing s' = committing s"
    by (subst e, simp)+
  show "home s' = home s" "log_blk s' = log_blk s" "log_ok s' = log_ok s"
    by (simp_all add: home_def log_blk_def log_ok_def f fun_eq_iff)
qed

lemma unat_log_blk:
  assumes "log_ok s" "i < LOGBLOCKS"
  shows "unat (log_blk s i) = unat (log_start s) + i + 1"
proof -
  have "unat (log_start s) + i + 1 < 2 ^ 32" using assms by (simp add: log_ok_def)
  then show ?thesis by (simp add: log_blk_def unat_word_ariths unat_of_nat)
qed

lemma home_card: "log_ok s \<Longrightarrow> card (home s) + 1 < NBUF"
  using card_image_le [of "{..<nat (lh_n s)}" "lh_block s"] by (auto simp: home_def log_ok_def)

lemma log_blk_not_home:
  assumes "log_ok s" "i < LOGBLOCKS" shows "log_blk s i \<notin> home s"
proof
  assume "log_blk s i \<in> home s"
  then obtain j where j: "j < nat (lh_n s)" "log_blk s i = lh_block s j" by (auto simp: home_def)
  then show False using unat_log_blk [OF assms] assms by (auto simp: log_ok_def)
qed

lemma unpinned_clean:
  assumes "binv p d s" "refs d s k = 0"
  shows "view d s k = disk_blk s k"
proof (cases "slot d s k")
  case (Some b)
  then show ?thesis
    using assms binv_slot [OF assms(1) Some] by (auto simp: view_def refs_def buf_ok_def unat_eq_zero)
qed (simp add: view_def)

text \<open>The two blocks of step \<open>i\<close> can be read: the facts every copy starts from.\<close>

lemma copy_pre:
  assumes "pins p P s" "log_ok s" "i < nat (lh_n s)" "P \<subseteq> home s"
  shows "log_blk s i \<noteq> lh_block s i" "unat (log_blk s i) < 2 ^ 31" "unat (lh_block s i) < 2 ^ 31"
    "refs (log_dev s) s (log_blk s i) = 0" "card {k. 0 < refs (log_dev s) s k} + 1 < NBUF"
    "view (log_dev s) s (log_blk s i) = disk_blk s (log_blk s i)"
proof -
  have i: "i < LOGBLOCKS" using assms(2,3) by (auto simp: log_ok_def)
  have hm: "lh_block s i \<in> home s" using assms(3) by (auto simp: home_def)
  show "log_blk s i \<noteq> lh_block s i" using hm log_blk_not_home [OF assms(2) i] by auto
  show "unat (log_blk s i) < 2 ^ 31" using unat_log_blk [OF assms(2) i] assms(2) i by (simp add: log_ok_def)
  show "unat (lh_block s i) < 2 ^ 31" using assms(2,3) by (simp add: log_ok_def)
  show r: "refs (log_dev s) s (log_blk s i) = 0"
    using log_blk_not_home [OF assms(2) i] assms(1,4) by (auto simp: pins_def)
  have "{k. 0 < refs (log_dev s) s k} = P" using assms(1) by (auto simp: pins_def)
  then have "card {k. 0 < refs (log_dev s) s k} \<le> card (home s)" using assms(4) by (simp add: card_mono)
  then show "card {k. 0 < refs (log_dev s) s k} + 1 < NBUF" using home_card [OF assms(2)] by simp
  show "view (log_dev s) s (log_blk s i) = disk_blk s (log_blk s i)"
    using unpinned_clean [of p, OF _ r] assms(1) by (simp add: pins_def)
qed

lemma pins_sel: "pins p P s \<Longrightarrow> binv p (log_dev s) s \<and> \<not> in_use (log_dev s) s k \<and> refs (log_dev s) s k + 1 < 2 ^ 32"
  by (simp add: pins_def)

lemma write_log_one_ok:
  assumes "pins p (home s) s" "log_ok s" "i < nat (lh_n s)"
  shows "\<exists>s'. write_log_one i s = (Ret (), s') \<and> bio_frame s s' \<and> pins p (home s) s' \<and>
    view (log_dev s) s' = (view (log_dev s) s)(log_blk s i := view (log_dev s) s (lh_block s i)) \<and>
    disk_blk s' = (disk_blk s)(log_blk s i := view (log_dev s) s (lh_block s i))"
proof -
  define d a c where "d = log_dev s" and "a = log_blk s i" and "c = lh_block s i"
  have ac: "a \<noteq> c" and un: "unat a < 2 ^ 31" "unat c < 2 ^ 31" and ra: "refs d s a = 0"
    and cd: "card {k. 0 < refs d s k} + 1 < NBUF"
    using copy_pre [OF assms subset_refl] by (auto simp: d_def a_def c_def)
  have ok: "binv p d s" and nl: "\<not> in_use d s a" "\<not> in_use d s c" and rb: "refs d s a + 1 < 2 ^ 32" "refs d s c + 1 < 2 ^ 32"
    using pins_sel [OF assms(1)] by (simp_all add: d_def)
  have rc: "refs d s c = 1" using assms(1,3) by (auto simp: pins_def d_def c_def home_def)
  obtain to frm t u where r: "bread d a s = (Ret to, t)" "bio_frame s t" "bread d c t = (Ret frm, u)" "bio_frame s u"
    "binv p d u" "holds d u a to" "holds d u c frm" "buf_data frm u = view d s c" "view d u = view d s" "disk_blk u = disk_blk s"
    "refs d u = (refs d s)(a := refs d s a + 1, c := refs d s c + 1)" "in_use d u = (in_use d s)(a := True, c := True)"
    using bc.read_two [OF ok ac nl un rb cd] by blast
  obtain v w where cp: "set_data to (\<lambda>_. buf_data frm u) u = (Ret (), v)" "bwrite to v = (Ret (), w)" "bio_frame u w" "binv p d w"
    "view d w = (view d u)(a := view d u c)" "disk_blk w = (disk_blk u)(a := view d u c)" "refs d w = refs d u"
    "in_use d w = in_use d u" "holds d w = holds d u"
    using bc.copy_held [OF r(5-7)] by blast
  have "holds d w c frm" "holds d w a to" using cp(9) r(6,7) by simp_all
  moreover have "1 < refs d w c" using cp(7) r(11) rc by simp
  moreover have "view d w a = disk_blk w a" using cp(5,6) by simp
  ultimately obtain x y where rl: "brelse frm w = (Ret (), x)" "brelse to x = (Ret (), y)" "bio_frame w y" "binv p d y"
    "view d y = view d w" "disk_blk y = disk_blk w" "refs d y = (refs d w)(c := refs d w c - 1, a := refs d w a - 1)"
    "in_use d y = (in_use d w)(c := False, a := False)"
    using bc.release_two [OF cp(4), of c frm a to] ac by blast
  have fr: "bio_frame s y" using r(4) cp(3) rl(3) bio_frame_trans by blast
  have "write_log_one i s = (Ret (), y)"
    using r(1,3) cp(1,2) rl(1,2) bio_frame_log(4) [OF r(2)]
    by (simp add: write_log_one_def bind_def seq_def gets_def memmove_buf_def d_def a_def c_def log_blk_def)
  moreover have "refs d y = refs d s" using rl(7) cp(7) r(11) ac by (auto simp: fun_eq_iff)
  moreover have "in_use d y = in_use d s" using rl(8) cp(8) r(12) nl by (auto simp: fun_eq_iff)
  ultimately show ?thesis
    using fr rl(4-6) cp(5,6) r(9,10) assms(1) bio_frame_log [OF fr]
    by (auto simp: pins_def d_def [symmetric] a_def [symmetric] c_def [symmetric])
qed

lemma install_one_ok:
  assumes "pins p P s" "log_ok s" "i < nat (lh_n s)" "P \<subseteq> home s" "lh_block s i \<in> P"
  shows "\<exists>s'. install_one False i s = (Ret (), s') \<and> bio_frame s s' \<and> pins p (P - {lh_block s i}) s' \<and>
    view (log_dev s) s' = (view (log_dev s) s)(lh_block s i := view (log_dev s) s (log_blk s i)) \<and>
    disk_blk s' = (disk_blk s)(lh_block s i := view (log_dev s) s (log_blk s i))"
proof -
  define d a c where "d = log_dev s" and "a = log_blk s i" and "c = lh_block s i"
  have ac: "a \<noteq> c" and un: "unat a < 2 ^ 31" "unat c < 2 ^ 31" and ra: "refs d s a = 0"
    and cd: "card {k. 0 < refs d s k} + 1 < NBUF" and cl: "view d s a = disk_blk s a"
    using copy_pre [OF assms(1-4)] by (auto simp: d_def a_def c_def)
  have ok: "binv p d s" and nl: "\<not> in_use d s a" "\<not> in_use d s c" and rb: "refs d s a + 1 < 2 ^ 32" "refs d s c + 1 < 2 ^ 32"
    using pins_sel [OF assms(1)] by (simp_all add: d_def)
  have rc: "refs d s c = 1" using assms(1,5) by (auto simp: pins_def d_def c_def)
  obtain lb db t u where r: "bread d a s = (Ret lb, t)" "bio_frame s t" "bread d c t = (Ret db, u)" "bio_frame s u"
    "binv p d u" "holds d u a lb" "holds d u c db" "buf_data lb u = view d s a" "view d u = view d s" "disk_blk u = disk_blk s"
    "refs d u = (refs d s)(a := refs d s a + 1, c := refs d s c + 1)" "in_use d u = (in_use d s)(a := True, c := True)"
    using bc.read_two [OF ok ac nl un rb cd] by blast
  obtain v w where cp: "set_data db (\<lambda>_. buf_data lb u) u = (Ret (), v)" "bwrite db v = (Ret (), w)" "bio_frame u w" "binv p d w"
    "view d w = (view d u)(c := view d u a)" "disk_blk w = (disk_blk u)(c := view d u a)" "refs d w = refs d u"
    "in_use d w = in_use d u" "holds d w = holds d u"
    using bc.copy_held [OF r(5,7,6)] by blast
  have hc: "holds d w c db" and "1 < refs d w c" using cp(9,7) r(7,11) rc by simp_all
  then obtain q where un: "bunpin db w = (Ret (), q)" "binv p d q" "bio_frame w q" "view d q = view d w"
    "disk_blk q = disk_blk w" "refs d q = (refs d w)(c := refs d w c - 1)" "in_use d q = in_use d w" "holds d q = holds d w"
    using bc.unpin_law [OF cp(4)] by blast
  have "holds d q a lb" "holds d q c db" using un(8) cp(9) r(6,7) by simp_all
  moreover have "view d q a = disk_blk q a" "view d q c = disk_blk q c"
    using un(4,5) cp(5,6) r(9,10) cl ac by simp_all
  ultimately obtain x y where rl: "brelse lb q = (Ret (), x)" "brelse db x = (Ret (), y)" "bio_frame q y" "binv p d y"
    "view d y = view d q" "disk_blk y = disk_blk q" "refs d y = (refs d q)(a := refs d q a - 1, c := refs d q c - 1)"
    "in_use d y = (in_use d q)(a := False, c := False)"
    using bc.release_two [OF un(2), of a lb c db] ac by blast
  have fr: "bio_frame s y" using r(4) cp(3) un(3) rl(3) bio_frame_trans by blast
  have "install_one False i s = (Ret (), y)"
    using r(1,3) cp(1,2) un(1) rl(1,2) bio_frame_log(4) [OF r(2)]
    by (simp add: install_one_def bind_def seq_def gets_def only_if_def skip_def ret_def memmove_buf_def
        d_def a_def c_def log_blk_def)
  moreover have "refs d y = (\<lambda>k. if k \<in> P - {c} then 1 else 0)"
    using rl(7) un(6) cp(7) r(11) ac ra rc assms(1) by (auto simp: fun_eq_iff pins_def d_def [symmetric])
  moreover have "in_use d y = in_use d s" using rl(8) un(7) cp(8) r(12) nl by (auto simp: fun_eq_iff)
  ultimately show ?thesis
    using fr rl(4-6) un(4,5) cp(5,6) r(9,10) assms(1) bio_frame_log [OF fr]
    by (auto simp: pins_def d_def [symmetric] a_def [symmetric] c_def [symmetric])
qed

section \<open>The header\<close>

lemma put32_outside: "i < off \<or> off + 4 \<le> i \<Longrightarrow> put32 d off v i = d i"
  by (auto simp: put32_def blk_put_def)

lemma put_blocks_outside: "4 + 4 * n \<le> i \<or> i < 4 \<Longrightarrow> put_blocks n f d i = d i"
  by (induction n) (auto simp: put32_outside)

lemma keeps_size_header: "n \<le> int LOGBLOCKS \<Longrightarrow> keeps_size (put_header n f)"
  by (auto simp: keeps_size_def put_header_def put_blocks_outside put32_outside)

lemma get32_put_blocks0: "get32 (put_blocks n f d) 0 = get32 d 0"
  by (induction n) (simp_all add: get32_put32_other)

lemma hdr_block_put: "i < n \<Longrightarrow> hdr_block (put_blocks n f d) i = f i"
  by (induction n) (auto simp: hdr_block_def less_Suc_eq get32_put32_other)

lemma sint_small:
  assumes "0 \<le> n" "n \<le> int LOGBLOCKS"
  shows "sint (of_int n :: u32) = n"
proof -
  have "sint (of_int n :: u32) = signed_take_bit 31 n" by (simp add: sint_sbintrunc')
  also have "\<dots> = n" using assms by (simp add: signed_take_bit_int_eq_self)
  finally show ?thesis .
qed

lemma header_round_trip:
  assumes "0 \<le> n" "n \<le> int LOGBLOCKS"
  shows "hdr_n (put_header n f d) = n" and "i < nat n \<Longrightarrow> hdr_block (put_header n f d) i = f i"
  using assms by (simp_all add: hdr_n_def put_header_def get32_put_blocks0 sint_small hdr_block_put)

lemma write_head_ok:
  assumes "pins p P s" "log_ok s" "P \<subseteq> home s" "n = lh_n s" "f = lh_block s" "L = log_start s"
  shows "\<exists>s'. write_head s = (Ret (), s') \<and> bio_frame s s' \<and> pins p P s' \<and>
    view (log_dev s) s' = (view (log_dev s) s)(L := put_header n f (view (log_dev s) s L)) \<and>
    disk_blk s' = (disk_blk s)(L := put_header n f (view (log_dev s) s L)) \<and>
    view (log_dev s) s L = disk_blk s L"
proof -
  let ?d = "log_dev s"
  have ok: "binv p ?d s" and nl: "\<not> in_use ?d s L" and rb: "refs ?d s L + 1 < 2 ^ 32"
    using pins_sel [OF assms(1)] by simp_all
  have un: "unat L < 2 ^ 31" using assms(2,6) by (simp add: log_ok_def)
  have "L \<notin> home s" using assms(2,6) by (auto simp: log_ok_def home_def)
  then have r0: "refs ?d s L = 0" using assms(1,3) by (auto simp: pins_def)
  have "{k. 0 < refs ?d s k} = P" using assms(1) by (auto simp: pins_def)
  then have "card {k. 0 < refs ?d s k} \<le> card (home s)" using assms(3) by (simp add: card_mono)
  then have cd: "0 < refs ?d s L \<or> card {k. 0 < refs ?d s k} < NBUF" using home_card [OF assms(2)] by simp
  have n: "n \<le> int LOGBLOCKS" using assms(2,4) by (simp add: log_ok_def)
  obtain s' where u: "bind (bread ?d L) (\<lambda>b. seq (set_data b (put_header n f)) (seq (bwrite b) (brelse b))) s = (Ret (), s')"
    "binv p ?d s'" "bio_frame s s'" "view ?d s' = (view ?d s)(L := put_header n f (view ?d s L))"
    "disk_blk s' = (disk_blk s)(L := put_header n f (view ?d s L))" "refs ?d s' = refs ?d s" "in_use ?d s' = in_use ?d s"
    using bc.update_block [OF ok un nl rb cd keeps_size_header [OF n]] by blast
  obtain b t where t: "bread ?d L s = (Ret b, t)" "bio_frame s t" using bc.rd_law [OF ok un nl rb cd] by blast
  have "write_head s = (Ret (), s')"
    using u(1) t(1) bio_frame_log(3,4) [OF t(2)] n assms(4-6) by (simp add: write_head_def bind_def gets_def)
  moreover have "view ?d s L = disk_blk s L" using unpinned_clean [OF ok r0] .
  ultimately show ?thesis using u assms(1) bio_frame_log [OF u(3)] by (auto simp: pins_def)
qed

section \<open>Sequences of block writes\<close>

fun upd_seq :: "(nat \<Rightarrow> u32) \<Rightarrow> (nat \<Rightarrow> block) \<Rightarrow> nat \<Rightarrow> (u32 \<Rightarrow> block) \<Rightarrow> u32 \<Rightarrow> block" where
  "upd_seq a g 0 V = V"
| "upd_seq a g (Suc k) V = (upd_seq a g k V)(a k := g k)"

lemma upd_seq_other: "b \<notin> a ` {..<k} \<Longrightarrow> upd_seq a g k V b = V b"
  by (induction k) (auto simp: lessThan_Suc)

lemma upd_seq_at: "inj_on a {..<k} \<Longrightarrow> i < k \<Longrightarrow> upd_seq a g k V (a i) = g i"
proof (induction k)
  case (Suc k)
  have "inj_on a {..<k}" using Suc.prems(1) by (rule inj_on_subset) auto
  moreover have "i < k \<Longrightarrow> a i \<noteq> a k" using Suc.prems(1) by (auto simp: inj_on_def)
  ultimately show ?case using Suc by (cases "i = k") auto
qed simp

lemma upd_seq_cong: "(\<And>i. i < k \<Longrightarrow> a i = a' i \<and> g i = g' i) \<Longrightarrow> upd_seq a g k V = upd_seq a' g' k V"
  by (induction k) auto

lemma for_each_snoc: "for_each (xs @ [x]) body = seq (for_each xs body) (body x)"
proof (induction xs)
  case Nil
  have "seq (body x) skip = body x"
    by (auto simp: seq_def bind_def skip_def ret_def fun_eq_iff split: prod.splits outcome.splits)
  then show ?case by (simp add: seq_def skip_def)
qed (simp add: seq_assoc)

lemma log_blk_inj:
  assumes "log_ok s" "k \<le> LOGBLOCKS"
  shows "inj_on (log_blk s) {..<k}"
proof (rule inj_onI)
  fix x y
  assume "x \<in> {..<k}" "y \<in> {..<k}" and e: "log_blk s x = log_blk s y"
  then have xy: "x < LOGBLOCKS" "y < LOGBLOCKS" using assms(2) by simp_all
  have "unat (log_blk s x) = unat (log_blk s y)" by (simp only: e)
  then show "x = y" unfolding unat_log_blk [OF assms(1) xy(1)] unat_log_blk [OF assms(1) xy(2)] by linarith
qed

lemma home_not_log:
  assumes "log_ok s" "i < nat (lh_n s)" "k \<le> LOGBLOCKS"
  shows "lh_block s i \<notin> log_blk s ` {..<k}"
proof
  assume "lh_block s i \<in> log_blk s ` {..<k}"
  then obtain j where "j < k" and e: "lh_block s i = log_blk s j" by auto
  then have j: "j < LOGBLOCKS" using assms(3) by simp
  have "lh_block s i \<in> home s" using assms(2) by (auto simp: home_def)
  then show False using e log_blk_not_home [OF assms(1) j] by simp
qed

lemma write_log_prefix:
  assumes "pins p (home s) s" "log_ok s" "k \<le> nat (lh_n s)"
  shows "\<exists>t. for_each [0..<k] write_log_one s = (Ret (), t) \<and> bio_frame s t \<and> pins p (home s) t \<and>
    view (log_dev s) t = upd_seq (log_blk s) (\<lambda>i. view (log_dev s) s (lh_block s i)) k (view (log_dev s) s) \<and>
    disk_blk t = upd_seq (log_blk s) (\<lambda>i. view (log_dev s) s (lh_block s i)) k (disk_blk s)"
  using assms(3)
proof (induction k)
  case 0
  have "bio_frame s s" by (simp add: bio_frame_def)
  then show ?case using assms(1) by (simp add: skip_def ret_def)
next
  case (Suc k)
  let ?g = "\<lambda>i. view (log_dev s) s (lh_block s i)"
  obtain t where t: "for_each [0..<k] write_log_one s = (Ret (), t)" "bio_frame s t" "pins p (home s) t"
    "view (log_dev s) t = upd_seq (log_blk s) ?g k (view (log_dev s) s)"
    "disk_blk t = upd_seq (log_blk s) ?g k (disk_blk s)"
    using Suc.IH [OF Suc_leD [OF Suc.prems]] by blast
  note f = bio_frame_log [OF t(2)]
  have "lh_block s k \<notin> log_blk s ` {..<k}"
    by (rule home_not_log [OF assms(2)]) (use Suc.prems assms(2) in \<open>auto simp: log_ok_def\<close>)
  then have v: "view (log_dev s) t (lh_block s k) = ?g k" using t(4) by (simp add: upd_seq_other)
  have "\<exists>u. write_log_one k t = (Ret (), u) \<and> bio_frame t u \<and> pins p (home t) u \<and>
      view (log_dev t) u = (view (log_dev t) t)(log_blk t k := view (log_dev t) t (lh_block t k)) \<and>
      disk_blk u = (disk_blk t)(log_blk t k := view (log_dev t) t (lh_block t k))"
    by (rule write_log_one_ok) (unfold f, use t(3) assms(2) Suc.prems in simp_all)
  then obtain u where u: "write_log_one k t = (Ret (), u)" "bio_frame t u" "pins p (home s) u"
    "view (log_dev s) u = (view (log_dev s) t)(log_blk s k := ?g k)" "disk_blk u = (disk_blk t)(log_blk s k := ?g k)"
    unfolding f v by (elim exE conjE) (rule that)
  have "for_each [0..<Suc k] write_log_one s = (Ret (), u)"
    using t(1) u(1) by (simp add: for_each_snoc seq_Ret)
  then show ?case using u(3-5) t(4,5) bio_frame_trans [OF t(2) u(2)] by (intro exI [of _ u]) simp
qed

lemma home_split: "k < nat (lh_n s) \<Longrightarrow> log_ok s \<Longrightarrow>
    lh_block s ` {k..<nat (lh_n s)} - {lh_block s k} = lh_block s ` {Suc k..<nat (lh_n s)}"
proof -
  assume k: "k < nat (lh_n s)" and "log_ok s"
  then have inj: "inj_on (lh_block s) {..<nat (lh_n s)}" by (simp add: log_ok_def)
  have "{k..<nat (lh_n s)} = insert k {Suc k..<nat (lh_n s)}" using k by auto
  moreover have "lh_block s k \<notin> lh_block s ` {Suc k..<nat (lh_n s)}"
  proof
    assume "lh_block s k \<in> lh_block s ` {Suc k..<nat (lh_n s)}"
    then obtain x where x: "lh_block s k = lh_block s x" "Suc k \<le> x" "x < nat (lh_n s)" by auto
    show False using inj_onD [OF inj x(1)] x(2,3) k by simp
  qed
  ultimately show ?thesis by auto
qed

lemma install_prefix:
  assumes "pins p (home s) s" "log_ok s" "k \<le> nat (lh_n s)"
  shows "\<exists>t. for_each [0..<k] (install_one False) s = (Ret (), t) \<and> bio_frame s t \<and>
    pins p (lh_block s ` {k..<nat (lh_n s)}) t \<and>
    view (log_dev s) t = upd_seq (lh_block s) (\<lambda>i. view (log_dev s) s (log_blk s i)) k (view (log_dev s) s) \<and>
    disk_blk t = upd_seq (lh_block s) (\<lambda>i. view (log_dev s) s (log_blk s i)) k (disk_blk s)"
  using assms(3)
proof (induction k)
  case 0
  have "bio_frame s s" by (simp add: bio_frame_def)
  moreover have "home s = lh_block s ` {0..<nat (lh_n s)}" by (simp add: home_def lessThan_atLeast0)
  ultimately show ?case using assms(1) by (simp add: skip_def ret_def)
next
  case (Suc k)
  let ?g = "\<lambda>i. view (log_dev s) s (log_blk s i)"
  obtain t where t: "for_each [0..<k] (install_one False) s = (Ret (), t)" "bio_frame s t"
    "pins p (lh_block s ` {k..<nat (lh_n s)}) t"
    "view (log_dev s) t = upd_seq (lh_block s) ?g k (view (log_dev s) s)"
    "disk_blk t = upd_seq (lh_block s) ?g k (disk_blk s)"
    using Suc.IH [OF Suc_leD [OF Suc.prems]] by blast
  note f = bio_frame_log [OF t(2)]
  have k: "k < nat (lh_n s)" "k < LOGBLOCKS" using Suc.prems assms(2) by (auto simp: log_ok_def)
  have "log_blk s k \<notin> lh_block s ` {..<k}"
    using log_blk_not_home [OF assms(2) k(2)] k(1) by (auto simp: home_def)
  then have v: "view (log_dev s) t (log_blk s k) = ?g k" using t(4) by (simp add: upd_seq_other)
  have "\<exists>u. install_one False k t = (Ret (), u) \<and> bio_frame t u \<and>
      pins p (lh_block s ` {k..<nat (lh_n s)} - {lh_block t k}) u \<and>
      view (log_dev t) u = (view (log_dev t) t)(lh_block t k := view (log_dev t) t (log_blk t k)) \<and>
      disk_blk u = (disk_blk t)(lh_block t k := view (log_dev t) t (log_blk t k))"
    by (rule install_one_ok) (unfold f, use t(3) assms(2) k(1) in \<open>auto simp: home_def\<close>)
  then obtain u where u: "install_one False k t = (Ret (), u)" "bio_frame t u"
    "pins p (lh_block s ` {Suc k..<nat (lh_n s)}) u"
    "view (log_dev s) u = (view (log_dev s) t)(lh_block s k := ?g k)" "disk_blk u = (disk_blk t)(lh_block s k := ?g k)"
    unfolding f v home_split [OF k(1) assms(2)] by (elim exE conjE) (rule that)
  have "for_each [0..<Suc k] (install_one False) s = (Ret (), u)"
    using t(1) u(1) by (simp add: for_each_snoc seq_Ret)
  then show ?case using u(3-5) t(4,5) bio_frame_trans [OF t(2) u(2)] by (intro exI [of _ u]) simp
qed

section \<open>Recovery and crashes\<close>

text \<open>What recovery makes of a disk: the blocks the header names are overwritten, in order, by the log
  blocks.\<close>

definition recovered :: "u32 \<Rightarrow> (u32 \<Rightarrow> block) \<Rightarrow> u32 \<Rightarrow> block" where
  "recovered L D = upd_seq (hdr_block (D L)) (\<lambda>i. D (L + of_nat i + 1)) (nat (hdr_n (D L))) D"

text \<open>The states between two block writes of \<open>commit\<close>.\<close>

definition crash_state :: "'a log_state_scheme \<Rightarrow> 'a log_state_scheme \<Rightarrow> bool" where
  "crash_state s t \<longleftrightarrow>
     (\<exists>k\<le>nat (lh_n s). for_each [0..<k] write_log_one s = (Ret (), t)) \<or>
     (\<exists>t0 t1. \<exists>k\<le>nat (lh_n s). write_log s = (Ret (), t0) \<and> write_head t0 = (Ret (), t1) \<and>
        for_each [0..<k] (install_one False) t1 = (Ret (), t)) \<or>
     commit s = (Ret (), t)"

definition in_log :: "'a log_state_scheme \<Rightarrow> u32 \<Rightarrow> bool" where
  "in_log s b \<longleftrightarrow> unat (log_start s) \<le> unat b \<and> unat b \<le> unat (log_start s) + LOGBLOCKS"

lemma not_in_log:
  assumes "log_ok s" "\<not> in_log s b" "k \<le> LOGBLOCKS"
  shows "b \<noteq> log_start s" "b \<notin> log_blk s ` {..<k}"
proof -
  show "b \<noteq> log_start s" using assms(2) by (auto simp: in_log_def)
  show "b \<notin> log_blk s ` {..<k}"
  proof
    assume "b \<in> log_blk s ` {..<k}"
    then obtain i where "i < k" and e: "b = log_blk s i" by auto
    then have i: "i < LOGBLOCKS" using assms(3) by simp
    show False using assms(2) i unat_log_blk [OF assms(1) i] unfolding e in_log_def by simp
  qed
qed

text \<open>The disk once the header is written: the whole transaction is in the log.\<close>

lemma committed_ok:
  assumes "pins p (home s) s" "log_ok s"
  shows "\<exists>t0 t1. write_log s = (Ret (), t0) \<and> write_head t0 = (Ret (), t1) \<and> bio_frame s t1 \<and> pins p (home s) t1 \<and>
    hdr_n (disk_blk t1 (log_start s)) = lh_n s \<and>
    (\<forall>i<nat (lh_n s). hdr_block (disk_blk t1 (log_start s)) i = lh_block s i) \<and>
    (\<forall>i<nat (lh_n s). view (log_dev s) t1 (log_blk s i) = view (log_dev s) s (lh_block s i) \<and>
       disk_blk t1 (log_blk s i) = view (log_dev s) s (lh_block s i)) \<and>
    (\<forall>b. \<not> in_log s b \<longrightarrow> disk_blk t1 b = disk_blk s b)"
proof -
  let ?d = "log_dev s" and ?L = "log_start s" and ?n = "nat (lh_n s)"
  let ?g = "\<lambda>i. view ?d s (lh_block s i)"
  have n: "0 \<le> lh_n s" "lh_n s \<le> int LOGBLOCKS" "?n \<le> LOGBLOCKS" using assms(2) by (auto simp: log_ok_def)
  obtain t0 where t0: "for_each [0..<?n] write_log_one s = (Ret (), t0)" "bio_frame s t0" "pins p (home s) t0"
    "view ?d t0 = upd_seq (log_blk s) ?g ?n (view ?d s)" "disk_blk t0 = upd_seq (log_blk s) ?g ?n (disk_blk s)"
    using write_log_prefix [OF assms le_refl] by blast
  note f = bio_frame_log [OF t0(2)]
  have "\<exists>t1. write_head t0 = (Ret (), t1) \<and> bio_frame t0 t1 \<and> pins p (home s) t1 \<and>
    view (log_dev t0) t1 = (view (log_dev t0) t0)(?L := put_header (lh_n s) (lh_block s) (view (log_dev t0) t0 ?L)) \<and>
    disk_blk t1 = (disk_blk t0)(?L := put_header (lh_n s) (lh_block s) (view (log_dev t0) t0 ?L)) \<and>
    view (log_dev t0) t0 ?L = disk_blk t0 ?L"
    by (rule write_head_ok) (unfold f, use t0(3) assms(2) in simp_all)
  then obtain t1 where t1: "write_head t0 = (Ret (), t1)" "bio_frame t0 t1" "pins p (home s) t1"
    "view ?d t1 = (view ?d t0)(?L := put_header (lh_n s) (lh_block s) (view ?d t0 ?L))"
    "disk_blk t1 = (disk_blk t0)(?L := put_header (lh_n s) (lh_block s) (view ?d t0 ?L))"
    unfolding f by blast
  have lb: "log_blk s i \<noteq> ?L" if "i < ?n" for i
    using that n unat_log_blk [OF assms(2), of i] by auto
  have "view ?d t1 (log_blk s i) = ?g i \<and> disk_blk t1 (log_blk s i) = ?g i" if "i < ?n" for i
    using that lb [OF that] t1(4,5) t0(4,5) upd_seq_at [OF log_blk_inj [OF assms(2) n(3)] that] by simp
  moreover have "disk_blk t1 b = disk_blk s b" if "\<not> in_log s b" for b
    using not_in_log [OF assms(2) that n(3)] t1(5) t0(5) by (simp add: upd_seq_other)
  moreover have "write_log s = (Ret (), t0)" using t0(1) by (simp add: write_log_def bind_def gets_def)
  moreover have "hdr_n (disk_blk t1 ?L) = lh_n s" "\<forall>i<?n. hdr_block (disk_blk t1 ?L) i = lh_block s i"
    using t1(5) header_round_trip [OF n(1,2)] by simp_all
  ultimately show ?thesis using t1(1,3) bio_frame_trans [OF t0(2) t1(2)] by blast
qed

lemma recovered_empty: "hdr_n (D L) = 0 \<Longrightarrow> recovered L D = D"
  by (simp add: recovered_def)

lemma recovered_committed:
  assumes "log_ok s" "hdr_n (D (log_start s)) = lh_n s"
    "\<forall>i<nat (lh_n s). hdr_block (D (log_start s)) i = lh_block s i"
    "\<forall>i<nat (lh_n s). D (log_blk s i) = V (lh_block s i)" "b \<notin> home s \<Longrightarrow> D b = V b"
  shows "recovered (log_start s) D b = V b"
proof -
  have "recovered (log_start s) D = upd_seq (lh_block s) (\<lambda>i. V (lh_block s i)) (nat (lh_n s)) D"
    unfolding recovered_def assms(2) by (rule upd_seq_cong) (use assms(3,4) in \<open>simp add: log_blk_def\<close>)
  moreover have "upd_seq (lh_block s) (\<lambda>i. V (lh_block s i)) (nat (lh_n s)) D b = V b"
  proof (cases "b \<in> home s")
    case True
    then obtain i where "i < nat (lh_n s)" "b = lh_block s i" by (auto simp: home_def)
    then show ?thesis using upd_seq_at [of "lh_block s"] assms(1) by (simp add: log_ok_def)
  next
    case False
    then show ?thesis using assms(5) by (simp add: home_def upd_seq_other)
  qed
  ultimately show ?thesis by simp
qed

lemma clean_outside: "pins p (home s) s \<Longrightarrow> b \<notin> home s \<Longrightarrow> disk_blk s b = view (log_dev s) s b"
  using unpinned_clean [of p "log_dev s" s b] by (simp add: pins_def)

text \<open>The states while the transaction is being installed.\<close>

lemma installing_ok:
  assumes "pins p (home s) s" "log_ok s" "k \<le> nat (lh_n s)"
    "write_log s = (Ret (), t0)" "write_head t0 = (Ret (), t1)"
  shows "\<exists>t. for_each [0..<k] (install_one False) t1 = (Ret (), t) \<and> bio_frame s t \<and>
    pins p (lh_block s ` {k..<nat (lh_n s)}) t \<and>
    disk_blk t = upd_seq (lh_block s) (\<lambda>i. view (log_dev s) s (lh_block s i)) k (disk_blk t1) \<and>
    (\<forall>b. \<not> in_log s b \<longrightarrow> recovered (log_start s) (disk_blk t) b = view (log_dev s) s b)"
proof -
  let ?V = "view (log_dev s) s" and ?L = "log_start s"
  have c: "bio_frame s t1" "pins p (home s) t1" "hdr_n (disk_blk t1 ?L) = lh_n s"
    "\<forall>i<nat (lh_n s). hdr_block (disk_blk t1 ?L) i = lh_block s i"
    "\<forall>i<nat (lh_n s). view (log_dev s) t1 (log_blk s i) = ?V (lh_block s i)"
    "\<forall>i<nat (lh_n s). disk_blk t1 (log_blk s i) = ?V (lh_block s i)"
    "\<forall>b. \<not> in_log s b \<longrightarrow> disk_blk t1 b = disk_blk s b"
    using committed_ok [OF assms(1,2)] assms(4,5) by auto
  note f = bio_frame_log [OF c(1)]
  have "\<exists>t. for_each [0..<k] (install_one False) t1 = (Ret (), t) \<and> bio_frame t1 t \<and>
    pins p (lh_block s ` {k..<nat (lh_n s)}) t \<and>
    disk_blk t = upd_seq (lh_block s) (\<lambda>i. view (log_dev s) t1 (log_blk s i)) k (disk_blk t1)"
    using install_prefix [of p t1 k] c(2) assms(2,3) unfolding f by blast
  then obtain t where t: "for_each [0..<k] (install_one False) t1 = (Ret (), t)" "bio_frame t1 t"
    "pins p (lh_block s ` {k..<nat (lh_n s)}) t"
    "disk_blk t = upd_seq (lh_block s) (\<lambda>i. view (log_dev s) t1 (log_blk s i)) k (disk_blk t1)" by blast
  moreover have "upd_seq (lh_block s) (\<lambda>i. view (log_dev s) t1 (log_blk s i)) k (disk_blk t1) =
      upd_seq (lh_block s) (\<lambda>i. ?V (lh_block s i)) k (disk_blk t1)"
    by (rule upd_seq_cong) (use c(5) assms(3) in simp)
  ultimately have d: "disk_blk t = upd_seq (lh_block s) (\<lambda>i. ?V (lh_block s i)) k (disk_blk t1)" by simp
  have out: "disk_blk t b = disk_blk t1 b" if "b \<notin> home s" for b
    unfolding d by (rule upd_seq_other) (use that assms(3) in \<open>auto simp: home_def\<close>)
  have L: "?L \<notin> home s" using assms(2) by (auto simp: log_ok_def home_def)
  have "lh_n s \<le> 28" using assms(2) by (simp add: log_ok_def)
  then have lb: "log_blk s i \<notin> home s" if "i < nat (lh_n s)" for i
    using log_blk_not_home [OF assms(2), of i] that by simp
  have "recovered ?L (disk_blk t) b = ?V b" if "\<not> in_log s b" for b
    by (rule recovered_committed [OF assms(2)])
      (use c(3,4,6,7) that out L lb clean_outside [OF assms(1)] in simp_all)
  then show ?thesis using t(1-3) d bio_frame_trans [OF c(1) t(2)] by blast
qed

lemma log_ok_erased: "log_ok s \<Longrightarrow> log_ok (s\<lparr>lh_n := 0\<rparr>)"
  by (simp add: log_ok_def)

lemma pins_erased:
  "pins p P (s\<lparr>lh_n := n\<rparr>) = pins p P s" "view d (s\<lparr>lh_n := n\<rparr>) = view d s" "disk_blk (s\<lparr>lh_n := n\<rparr>) = disk_blk s"
  by (simp_all add: pins_def cache_cong [of "s\<lparr>lh_n := n\<rparr>" s])

lemma commit_ok:
  assumes "pins p (home s) s" "log_ok s" "0 < lh_n s"
  shows "\<exists>t. commit s = (Ret (), t) \<and> pins p {} t \<and> lh_n t = 0 \<and> log_start t = log_start s \<and>
    log_dev t = log_dev s \<and> outstanding t = outstanding s \<and> committing t = committing s \<and>
    hdr_n (disk_blk t (log_start s)) = 0 \<and> (\<forall>b. \<not> in_log s b \<longrightarrow> disk_blk t b = view (log_dev s) s b)"
proof -
  let ?V = "view (log_dev s) s" and ?L = "log_start s" and ?n = "nat (lh_n s)"
  obtain t0 t1 where t: "write_log s = (Ret (), t0)" "write_head t0 = (Ret (), t1)" "bio_frame s t1"
    and same: "\<forall>b. \<not> in_log s b \<longrightarrow> disk_blk t1 b = disk_blk s b"
    using committed_ok [OF assms(1,2)] by blast
  obtain u where u: "for_each [0..<?n] (install_one False) t1 = (Ret (), u)" "bio_frame s u" "pins p {} u"
    "disk_blk u = upd_seq (lh_block s) (\<lambda>i. ?V (lh_block s i)) ?n (disk_blk t1)"
    using installing_ok [OF assms(1,2) le_refl t(1,2)] by auto
  note f = bio_frame_log [OF u(2)]
  define v where "v = u\<lparr>lh_n := 0\<rparr>"
  have v: "pins p {} v" "log_ok v" "disk_blk v = disk_blk u" "log_start v = ?L" "lh_n v = 0"
    using u(3) assms(2) log_ok_erased [of u] by (simp_all add: v_def pins_erased f)
  have "\<exists>w. write_head v = (Ret (), w) \<and> bio_frame v w \<and> pins p {} w \<and>
    view (log_dev v) w = (view (log_dev v) v)(?L := put_header 0 (lh_block v) (view (log_dev v) v ?L)) \<and>
    disk_blk w = (disk_blk v)(?L := put_header 0 (lh_block v) (view (log_dev v) v ?L)) \<and>
    view (log_dev v) v ?L = disk_blk v ?L"
    by (rule write_head_ok) (use v in simp_all)
  then obtain w where w: "write_head v = (Ret (), w)" "bio_frame v w" "pins p {} w"
    "disk_blk w = (disk_blk u)(?L := put_header 0 (lh_block v) (view (log_dev v) v ?L))" using v(3) by auto
  have "install_trans False t1 = (Ret (), u)"
    using u(1) bio_frame_log [OF t(3)] by (simp add: install_trans_def bind_def gets_def)
  then have "commit s = (Ret (), w)"
    using t(1,2) w(1) assms(3) by (simp add: commit_def only_if_def bind_def seq_def gets_def modify_def v_def)
  moreover have "disk_blk w b = ?V b" if "\<not> in_log s b" for b
  proof -
    have "b \<noteq> ?L" using that by (auto simp: in_log_def)
    then have "disk_blk w b = upd_seq (lh_block s) (\<lambda>i. ?V (lh_block s i)) ?n (disk_blk t1) b"
      using w(4) u(4) by simp
    also have "\<dots> = ?V b"
    proof (cases "b \<in> home s")
      case True
      then obtain i where "i < ?n" "b = lh_block s i" by (auto simp: home_def)
      then show ?thesis using upd_seq_at [of "lh_block s"] assms(2) by (simp add: log_ok_def)
    next
      case False
      then show ?thesis
        using same that clean_outside [OF assms(1) False] by (simp add: home_def upd_seq_other)
    qed
    finally show ?thesis .
  qed
  moreover have "hdr_n (disk_blk w ?L) = 0" using w(4) header_round_trip(1) [of 0] by simp
  moreover have "lh_n w = 0" "log_start w = ?L" "log_dev w = log_dev s" "outstanding w = outstanding s"
    "committing w = committing s"
    using bio_frame_log [OF w(2)] v f by (simp_all add: v_def)
  ultimately show ?thesis using w(3) by blast
qed

text \<open>Before the header is written the log is still empty.\<close>

lemma writing_header:
  assumes "pins p (home s) s" "log_ok s" "k \<le> nat (lh_n s)" "for_each [0..<k] write_log_one s = (Ret (), t)"
  shows "disk_blk t (log_start s) = disk_blk s (log_start s)"
proof -
  have d: "disk_blk t = upd_seq (log_blk s) (\<lambda>i. view (log_dev s) s (lh_block s i)) k (disk_blk s)"
    using write_log_prefix [OF assms(1-3)] assms(4) by auto
  have k: "k \<le> LOGBLOCKS" using assms(2,3) by (auto simp: log_ok_def)
  have "log_start s \<notin> log_blk s ` {..<k}"
  proof
    assume "log_start s \<in> log_blk s ` {..<k}"
    then obtain i where i: "i < k" "log_start s = log_blk s i" by auto
    show False using unat_log_blk [OF assms(2), of i] i(1) k i(2) [symmetric] by simp
  qed
  then show ?thesis unfolding d by (rule upd_seq_other)
qed

lemma writing_ok:
  assumes "pins p (home s) s" "log_ok s" "k \<le> nat (lh_n s)" "hdr_n (disk_blk s (log_start s)) = 0"
    "for_each [0..<k] write_log_one s = (Ret (), t)" "\<not> in_log s b"
  shows "recovered (log_start s) (disk_blk t) b = disk_blk s b"
proof -
  have d: "disk_blk t = upd_seq (log_blk s) (\<lambda>i. view (log_dev s) s (lh_block s i)) k (disk_blk s)"
    using write_log_prefix [OF assms(1-3)] assms(5) by auto
  have k: "k \<le> LOGBLOCKS" using assms(2,3) by (auto simp: log_ok_def)
  have "recovered (log_start s) (disk_blk t) = disk_blk t"
    using assms(4) writing_header [OF assms(1-3,5)] by (simp add: recovered_empty)
  moreover have "disk_blk t b = disk_blk s b"
    unfolding d by (rule upd_seq_other) (rule not_in_log(2) [OF assms(2,6) k])
  ultimately show ?thesis by simp
qed

end
