(* ===== verification/Recovery.thy ===== *)
theory Recovery
  imports Log
begin

text \<open>Crash recovery of the log (\<open>log.c\<close>): \<open>recover_from_log\<close> replays the on-disk log as \<^const>\<open>recovered\<close>
  says, and a crash between any two block writes of \<open>commit\<close> is repaired to all or nothing.\<close>

section \<open>The recovery message\<close>

lemma skip_any: "\<exists>bs. skip s = (Ret (), emit bs s)"
  by (auto simp: kdefs intro: exI [of _ "[]"])

lemma recovering_message:
  assumes "uart_ready s" "calm s"
  shows "\<exists>bs. printf_loop (str ''recovering tail %d dst %d'' @ [10]) [Int32 x, Int32 y] s = (Ret (), emit bs s)"
  using assms
  by (simp add: str_def ascii_def printf_conv_def fmt_at_def conv32_def va32_def Let_def)
    (intro seq_any consputc_any printint_any skip_any; simp)

lemma recovering_printf:
  assumes "uart_ready s" "\<not> panicking s" "lock_free PrLock (ctl s)"
  shows "\<exists>bs. printf (str ''recovering tail %d dst %d'' @ [10]) [Int32 x, Int32 y] s =
    (Ret 0, emit bs (s\<lparr>ctl := settle (ctl s)\<rparr>))"
proof -
  let ?t = "s\<lparr>ctl := acq PrLock (ctl s)\<rparr>"
  have "uart_ready ?t" "calm ?t" using assms by (simp_all add: uart_ready_def calm_def)
  then obtain bs where l: "printf_loop (str ''recovering tail %d dst %d'' @ [10]) [Int32 x, Int32 y] ?t = (Ret (), emit bs ?t)"
    using recovering_message by blast
  have "emit bs ?t\<lparr>ctl := settle (ctl s)\<rparr> = emit bs (s\<lparr>ctl := settle (ctl s)\<rparr>)" by (simp add: emit_def)
  with l show ?thesis
    using assms by (auto simp: printf_def kdefs acquire_ok release_ok split: outcome.splits intro!: exI [of _ bs])
qed

section \<open>Replaying the log\<close>

text \<open>What no step of the recovery changes.\<close>

definition rec_same :: "'a log_state_scheme \<Rightarrow> 'a log_state_scheme \<Rightarrow> bool" where
  "rec_same s t \<longleftrightarrow> log_start t = log_start s \<and> log_dev t = log_dev s \<and> lh_n t = lh_n s \<and> lh_block t = lh_block s \<and>
     uart_lsr t = uart_lsr s \<and> panicked t = panicked s \<and> panicking t = panicking s"

lemma rec_same_trans: "rec_same s t \<Longrightarrow> rec_same t u \<Longrightarrow> rec_same s u"
  by (simp add: rec_same_def)

lemma rec_same_bio:
  assumes "bio_frame s (t :: 'a log_state_scheme)" shows "rec_same s t"
proof -
  have e: "t = s\<lparr>ctl := ctl t, slocks := slocks t, vio := vio t, bufs := bufs t,
     used_idx := used_idx t, info_b := info_b t, mmio_log := mmio_log t\<rparr>"
    using assms by (simp add: bio_frame_def)
  show ?thesis unfolding rec_same_def by (intro conjI; subst e; simp)
qed

text \<open>A log that can be replayed.\<close>

definition rec_ok :: "'a log_state_scheme \<Rightarrow> bool" where
  "rec_ok s \<longleftrightarrow> 0 \<le> lh_n s \<and> lh_n s \<le> int LOGBLOCKS \<and> unat (log_start s) + LOGBLOCKS + 1 < 2 ^ 31 \<and>
     (\<forall>i<nat (lh_n s). unat (lh_block s i) < 2 ^ 31 \<and> \<not> in_log s (lh_block s i))"

definition quiet :: "nat \<Rightarrow> 'a log_state_scheme \<Rightarrow> bool" where
  "quiet p s \<longleftrightarrow> pins p {} s \<and> uart_ready s \<and> \<not> panicking s"

lemma log_ok_empty: "unat (log_start s) + LOGBLOCKS + 1 < 2 ^ 31 \<Longrightarrow> log_ok (s\<lparr>lh_n := 0\<rparr>)"
  by (simp add: log_ok_def)

lemma unat_log_blk':
  assumes "unat (log_start s) + LOGBLOCKS + 1 < 2 ^ 31" "i < LOGBLOCKS"
  shows "unat (log_blk s i) = unat (log_start s) + i + 1"
  using unat_log_blk [OF log_ok_empty [OF assms(1)] assms(2)] by (simp add: log_blk_def)

lemma quiet_step:
  assumes "quiet p s" "rec_same s t" "pins p {} t" shows "quiet p t"
  using assms by (simp add: quiet_def rec_same_def uart_ready_def)

lemma printed_cache:
  assumes "pins p P s"
  shows "pins p P (emit bs (s\<lparr>ctl := settle (ctl s)\<rparr>))"
    "disk_blk (emit bs (s\<lparr>ctl := settle (ctl s)\<rparr>)) = disk_blk s" "rec_same s (emit bs (s\<lparr>ctl := settle (ctl s)\<rparr>))"
  using assms cache_cong [of "emit bs (s\<lparr>ctl := settle (ctl s)\<rparr>)" s]
  by (simp_all add: pins_def rec_same_def emit_def)

lemma recover_one_ok:
  assumes "quiet p s" "rec_ok s" "i < nat (lh_n s)"
  shows "\<exists>t. install_one True i s = (Ret (), t) \<and> rec_same s t \<and> quiet p t \<and>
    disk_blk t = (disk_blk s)(lh_block s i := disk_blk s (log_blk s i))"
proof -
  define d a c where "d = log_dev s" and "a = log_blk s i" and "c = lh_block s i"
  have i: "i < LOGBLOCKS" and st: "unat (log_start s) + LOGBLOCKS + 1 < 2 ^ 31" and c: "unat c < 2 ^ 31" "\<not> in_log s c"
    using assms(2,3) by (auto simp: rec_ok_def c_def)
  have a: "unat a = unat (log_start s) + i + 1" using unat_log_blk' [OF st i] by (simp add: a_def)
  have ac: "a \<noteq> c" using a c(2) i by (auto simp: in_log_def)
  obtain bs where pr: "printf (str ''recovering tail %d dst %d'' @ [10]) [Int32 (of_nat i), Int32 (lh_block s i)] s =
      (Ret 0, emit bs (s\<lparr>ctl := settle (ctl s)\<rparr>))"
    using recovering_printf assms(1) by (fastforce simp: quiet_def pins_def binv_def solo_def running_def)
  define s1 where "s1 = emit bs (s\<lparr>ctl := settle (ctl s)\<rparr>)"
  have s1: "pins p {} s1" "disk_blk s1 = disk_blk s" "rec_same s s1"
    using printed_cache [of p "{}" s bs] assms(1) by (simp_all add: s1_def quiet_def)
  have f1: "log_dev s1 = d" "log_start s1 = log_start s" "lh_block s1 = lh_block s"
    using s1(3) by (simp_all add: rec_same_def d_def)
  have ok: "binv p d s1" and nl: "\<not> in_use d s1 a" "\<not> in_use d s1 c" and r0: "refs d s1 = (\<lambda>_. 0)"
    using s1(1) f1 by (auto simp: pins_def)
  have vd: "view d s1 = disk_blk s" using unpinned_clean [OF ok] r0 s1(2) by (simp add: fun_eq_iff)
  obtain lb db t u where r: "bread d a s1 = (Ret lb, t)" "bio_frame s1 t" "bread d c t = (Ret db, u)" "bio_frame s1 u"
    "binv p d u" "holds d u a lb" "holds d u c db" "view d u = disk_blk s" "disk_blk u = disk_blk s"
    "refs d u = (\<lambda>_. 0)(a := 1, c := 1)" "in_use d u = (in_use d s1)(a := True, c := True)"
    using bc.read_two [OF ok ac nl] a st c(1) i r0 vd s1(2) by auto
  obtain v w where cp: "set_data db (\<lambda>_. buf_data lb u) u = (Ret (), v)" "bwrite db v = (Ret (), w)" "bio_frame u w" "binv p d w"
    "view d w = (disk_blk s)(c := disk_blk s a)" "disk_blk w = (disk_blk s)(c := disk_blk s a)" "refs d w = refs d u"
    "in_use d w = in_use d u" "holds d w = holds d u"
    using bc.copy_held [OF r(5,7,6)] r(8,9) by auto
  have "holds d w a lb" "holds d w c db" using cp(9) r(6,7) by simp_all
  moreover have "view d w a = disk_blk w a" "view d w c = disk_blk w c" using cp(5,6) by simp_all
  ultimately obtain x y where rl: "brelse lb w = (Ret (), x)" "brelse db x = (Ret (), y)" "bio_frame w y" "binv p d y"
    "disk_blk y = disk_blk w" "refs d y = (refs d w)(a := refs d w a - 1, c := refs d w c - 1)"
    "in_use d y = (in_use d w)(a := False, c := False)"
    using bc.release_two [OF cp(4), of a lb c db] ac by blast
  have fr: "rec_same s y"
    using r(4) cp(3) rl(3) s1(3) rec_same_bio rec_same_trans bio_frame_trans by meson
  have "install_one True i s = (Ret (), y)"
    using pr r(1,3) cp(1,2) rl(1,2) bio_frame_log(4) [OF r(2)] f1
    by (simp add: install_one_def bind_def seq_def gets_def only_if_def skip_def ret_def memmove_buf_def
        s1_def [symmetric] a_def c_def log_blk_def)
  moreover have "refs d y = (\<lambda>_. 0)" using rl(6) cp(7) r(10) ac by (auto simp: fun_eq_iff)
  moreover have "in_use d y = in_use d s1" using rl(7) cp(8) r(11) nl by (auto simp: fun_eq_iff)
  ultimately have "install_one True i s = (Ret (), y)" "pins p {} y"
    using fr rl(4) s1(1) f1 by (auto simp: pins_def rec_same_def d_def)
  then show ?thesis using fr rl(5) cp(6) quiet_step [OF assms(1) fr] by (auto simp: a_def c_def)
qed

lemma recover_prefix:
  assumes "quiet p s" "rec_ok s" "k \<le> nat (lh_n s)"
  shows "\<exists>t. for_each [0..<k] (install_one True) s = (Ret (), t) \<and> rec_same s t \<and> quiet p t \<and>
    disk_blk t = upd_seq (lh_block s) (\<lambda>i. disk_blk s (log_blk s i)) k (disk_blk s)"
  using assms(3)
proof (induction k)
  case 0
  then show ?case using assms(1) by (simp add: skip_def ret_def rec_same_def)
next
  case (Suc k)
  let ?g = "\<lambda>i. disk_blk s (log_blk s i)"
  obtain t where t: "for_each [0..<k] (install_one True) s = (Ret (), t)" "rec_same s t" "quiet p t"
    "disk_blk t = upd_seq (lh_block s) ?g k (disk_blk s)"
    using Suc.IH [OF Suc_leD [OF Suc.prems]] by blast
  have f: "lh_block t = lh_block s" "log_blk t = log_blk s" "lh_n t = lh_n s" "log_start t = log_start s"
    using t(2) by (simp_all add: rec_same_def log_blk_def fun_eq_iff)
  have "rec_ok t" using assms(2) f by (simp add: rec_ok_def in_log_def)
  then obtain u where u: "install_one True k t = (Ret (), u)" "rec_same t u" "quiet p u"
    "disk_blk u = (disk_blk t)(lh_block s k := disk_blk t (log_blk s k))"
    using recover_one_ok [OF t(3), of k] Suc.prems f by auto
  have st: "unat (log_start s) + LOGBLOCKS + 1 < 2 ^ 31" and k: "k < LOGBLOCKS"
    using assms(2) Suc.prems by (auto simp: rec_ok_def)
  have "log_blk s k \<notin> lh_block s ` {..<k}"
  proof
    assume "log_blk s k \<in> lh_block s ` {..<k}"
    then obtain j where "j < k" "log_blk s k = lh_block s j" by auto
    moreover have "in_log s (log_blk s k)" using unat_log_blk' [OF st k] k by (simp add: in_log_def)
    ultimately show False using assms(2) Suc.prems by (auto simp: rec_ok_def)
  qed
  then have "disk_blk t (log_blk s k) = ?g k" using t(4) by (simp add: upd_seq_other)
  then show ?case
    using t u rec_same_trans [OF t(2) u(2)] by (intro exI [of _ u]) (simp add: for_each_snoc seq_Ret)
qed

text \<open>Reading the header.\<close>

lemma read_blocks:
  "nat n \<le> LOGBLOCKS \<Longrightarrow> for_each [0..<nat n] (\<lambda>i. if i \<ge> LOGBLOCKS then undef e
      else modify (\<lambda>s. s\<lparr>lh_block := (lh_block s)(i := f i)\<rparr>)) s =
   (Ret (), s\<lparr>lh_block := (\<lambda>i. if i < nat n then f i else lh_block s i)\<rparr>)"
proof (induction "nat n" arbitrary: n)
  case 0
  then show ?case by (simp add: skip_def ret_def)
next
  case (Suc k)
  have "for_each [0..<k] (\<lambda>i. if i \<ge> LOGBLOCKS then undef e
      else modify (\<lambda>s. s\<lparr>lh_block := (lh_block s)(i := f i)\<rparr>)) s =
    (Ret (), s\<lparr>lh_block := (\<lambda>i. if i < k then f i else lh_block s i)\<rparr>)"
    using Suc.hyps(1) [of "int k"] Suc.hyps(2) Suc.prems by simp
  moreover have "k < LOGBLOCKS" using Suc.hyps(2) Suc.prems by simp
  moreover have "(\<lambda>i. if i < k then f i else lh_block s i)(k := f k) = (\<lambda>i. if i < Suc k then f i else lh_block s i)"
    by (auto simp: fun_eq_iff less_Suc_eq)
  ultimately show ?case unfolding Suc.hyps(2) [symmetric] by (simp add: for_each_snoc seq_Ret modify_def)
qed

lemma read_head_ok:
  assumes "quiet p s" "L = log_start s" "unat L < 2 ^ 31" "h = disk_blk s L" "0 \<le> hdr_n h" "hdr_n h \<le> int LOGBLOCKS"
  shows "\<exists>t. read_head s = (Ret (), t) \<and> quiet p t \<and> disk_blk t = disk_blk s \<and> log_start t = L \<and>
    log_dev t = log_dev s \<and> lh_n t = hdr_n h \<and> (\<forall>i<nat (hdr_n h). lh_block t i = hdr_block h i)"
proof -
  define d where "d = log_dev s"
  have ok: "binv p d s" and nl: "\<not> in_use d s L" and r0: "refs d s = (\<lambda>_. 0)"
    using assms(1) by (auto simp: quiet_def pins_def d_def)
  have vd: "view d s L = h" using unpinned_clean [OF ok] r0 assms(4) by simp
  obtain b t where t: "bread d L s = (Ret b, t)" "binv p d t" "bio_frame s t" "holds d t L b" "view d t = view d s"
    "disk_blk t = disk_blk s" "refs d t = (refs d s)(L := refs d s L + 1)" "in_use d t = (in_use d s)(L := True)"
    using bc.rd_law [OF ok assms(3) nl] r0 by auto
  have bd: "buf_data b t = h" using bc.hold_lk [OF t(2,4)] t(5) vd by simp
  define u where "u = t\<lparr>lh_n := hdr_n h, lh_block := (\<lambda>i. if i < nat (hdr_n h) then hdr_block h i else lh_block t i)\<rparr>"
  have cu: "binv p d u" "holds d u L b" "view d u = view d s" "disk_blk u = disk_blk s" "refs d u = refs d t" "in_use d u = in_use d t"
    using t cache_cong [of u t] by (simp_all add: u_def)
  have "view d u L = disk_blk u L" using vd cu assms(4) by simp
  then obtain v where v: "brelse b u = (Ret (), v)" "binv p d v" "bio_frame u v" "disk_blk v = disk_blk u"
    "refs d v = (refs d u)(L := refs d u L - 1)" "in_use d v = (in_use d u)(L := False)"
    using bc.rl_law [OF cu(1,2)] by blast
  have same: "rec_same s (u\<lparr>lh_n := lh_n s, lh_block := lh_block s\<rparr>)"
    using rec_same_bio [OF t(3)] by (simp add: rec_same_def u_def)
  have "read_head s = (Ret (), v)"
    using t(1) bd v(1) assms(2,6) read_blocks [of "hdr_n h" _ "hdr_block h" "t\<lparr>lh_n := hdr_n h\<rparr>"]
    by (simp add: read_head_def bind_def gets_def seq_def modify_def d_def u_def cong: if_cong)
  moreover have "refs d v = (\<lambda>_. 0)" "in_use d v = in_use d s"
    using v(5,6) cu(5,6) t(7,8) r0 nl by (auto simp: fun_eq_iff)
  moreover note uv = rec_same_bio [OF v(3)]
  ultimately show ?thesis
    using v(2,4) cu(4) same assms(1,2)
    by (intro exI [of _ v]) (auto simp: quiet_def pins_def rec_same_def uart_ready_def d_def u_def)
qed

text \<open>What the disk must look like for recovery: the log region fits, the header is sane, and the blocks it
  names are outside of the log.\<close>

definition log_sane :: "u32 \<Rightarrow> (u32 \<Rightarrow> block) \<Rightarrow> bool" where
  "log_sane L D \<longleftrightarrow> unat L + LOGBLOCKS + 1 < 2 ^ 31 \<and> 0 \<le> hdr_n (D L) \<and> hdr_n (D L) \<le> int LOGBLOCKS \<and>
     (\<forall>i<nat (hdr_n (D L)). unat (hdr_block (D L) i) < 2 ^ 31 \<and>
        (unat (hdr_block (D L) i) < unat L \<or> unat L + LOGBLOCKS < unat (hdr_block (D L) i)))"

lemma recover_ok:
  assumes "quiet p s" "L = log_start s" "log_sane L (disk_blk s)"
  shows "\<exists>t. recover_from_log s = (Ret (), t) \<and> quiet p t \<and> lh_n t = 0 \<and> hdr_n (disk_blk t L) = 0 \<and>
    (\<forall>b. b \<noteq> L \<longrightarrow> disk_blk t b = recovered L (disk_blk s) b)"
proof -
  let ?h = "disk_blk s L"
  have L: "unat L + LOGBLOCKS + 1 < 2 ^ 31" "unat L < 2 ^ 31" and n: "0 \<le> hdr_n ?h" "hdr_n ?h \<le> int LOGBLOCKS"
    and out: "\<forall>i<nat (hdr_n ?h). unat (hdr_block ?h i) < 2 ^ 31 \<and>
      (unat (hdr_block ?h i) < unat L \<or> unat L + LOGBLOCKS < unat (hdr_block ?h i))"
    using assms(3) by (simp_all add: log_sane_def)
  obtain t where t: "read_head s = (Ret (), t)" "quiet p t" "disk_blk t = disk_blk s" "log_start t = L"
    "lh_n t = hdr_n ?h" "\<forall>i<nat (hdr_n ?h). lh_block t i = hdr_block ?h i"
    using read_head_ok [OF assms(1,2) L(2) refl n] by blast
  have "rec_ok t" using t(4-6) n L(1) out by (auto simp: rec_ok_def in_log_def)
  from recover_prefix [OF t(2) this le_refl] obtain u where
    u: "for_each [0..<nat (lh_n t)] (install_one True) t = (Ret (), u)" "rec_same t u" "quiet p u"
    "disk_blk u = upd_seq (lh_block t) (\<lambda>i. disk_blk s (log_blk t i)) (nat (lh_n t)) (disk_blk s)"
    unfolding t(3) by blast
  have du: "disk_blk u = recovered L (disk_blk s)"
    unfolding u(4) recovered_def t(5) by (rule upd_seq_cong) (use t(4,6) in \<open>simp add: log_blk_def\<close>)
  define v where "v = u\<lparr>lh_n := 0\<rparr>"
  have v: "pins p {} v" "log_ok v" "log_start v = L" "lh_n v = 0" "disk_blk v = recovered L (disk_blk s)"
    using u(2,3) t(4) L(1) du by (simp_all add: v_def pins_erased quiet_def rec_same_def log_ok_def)
  have "\<exists>w. write_head v = (Ret (), w) \<and> bio_frame v w \<and> pins p {} w \<and>
    view (log_dev v) w = (view (log_dev v) v)(L := put_header 0 (lh_block v) (view (log_dev v) v L)) \<and>
    disk_blk w = (disk_blk v)(L := put_header 0 (lh_block v) (view (log_dev v) v L)) \<and>
    view (log_dev v) v L = disk_blk v L"
    by (rule write_head_ok) (use v in simp_all)
  then obtain w where w: "write_head v = (Ret (), w)" "bio_frame v w" "pins p {} w"
    "disk_blk w = (recovered L (disk_blk s))(L := put_header 0 (lh_block v) (view (log_dev v) v L))" using v(5) by auto
  have "recover_from_log s = (Ret (), w)"
    using t(1) u(1) w(1)
    by (simp add: recover_from_log_def install_trans_def seq_def bind_def gets_def modify_def v_def)
  moreover have "quiet p w"
    using w(3) u(3) rec_same_bio [OF w(2)] by (simp add: quiet_def rec_same_def uart_ready_def v_def)
  moreover have "lh_n w = 0" using bio_frame_log [OF w(2)] v(4) by simp
  ultimately show ?thesis using w(4) header_round_trip(1) [of 0] by auto
qed

end
