(* ===== verification/Boot.thy ===== *)
theory Boot
  imports Log
begin

text \<open>Concrete states of the machine, at which the theorems of the development are instantiated.\<close>

text \<open>A machine whose cache is empty and whose disk is all zero, and the same machine after an operation
  has modified and logged block 100.\<close>

definition boot_buf :: "nat \<Rightarrow> buf" where
  "boot_buf i = \<lparr>bvalid = False, bdisk = False, bdev = 0, blockno = 0, refcnt = 0,
     bprev = (if i = HEAD then 0 else i + 1), bnext = (if i = 0 then HEAD else i - 1)\<rparr>"

definition boot_proc :: proc where
  "boot_proc = \<lparr>pstate = RUNNING, pchan = None, pkilled = False, xstate = 0, pid = 1, parent = None, kstack = 0, sz = 0,
     pagetable = 0, trapframe = 0, pcontext = \<lparr>ctx_ra = 0, ctx_sp = 0, ctx_s = (\<lambda>_. 0)\<rparr>, ofile = (\<lambda>_. None),
     cwd = None, pname = (\<lambda>_. 0)\<rparr>"

definition boot_vio :: vio where
  "boot_vio = \<lparr>desc = (\<lambda>_. null_desc), avail_idx = 0, avail_ring = (\<lambda>_. 0), used_didx = 0, used_ring = (\<lambda>_. 0),
     vops = (\<lambda>_. \<lparr>rtype = 0, rreserved = 0, rsector = 0\<rparr>), vstatus = (\<lambda>_. 0), bdata = (\<lambda>_ _. 0), media = (\<lambda>_ _. 0)\<rparr>"

definition boot :: "'a \<Rightarrow> 'a log_state_scheme" where
  "boot z = \<lparr>ctl = idle_ctl 0, uart_lsr = 32, uart_rx = [], uart_log = [], panicking = False, panicked = False,
     mem = (\<lambda>_. 0), freelist = 0, kend = 0x80021530, procs = (\<lambda>_. boot_proc), nextpid = 2, initproc = Some 0,
     klocal = (\<lambda>_. 0), slocks = (\<lambda>_. \<lparr>sl_locked = False, sl_name = [], sl_pid = 0\<rparr>), kernel_pagetable = 0, satp = 0,
     etext = 0, trampoline = 0, vio = boot_vio, bufs = boot_buf, vfree = (\<lambda>_. True), used_idx = 0,
     info_b = (\<lambda>_. None), vdesc_pa = 0, vavail_pa = 0, vused_pa = 0, mmio_log = [], mmio = (\<lambda>_ _. 0), device = serve,
     log_start = 2, outstanding = 0, committing = False, log_dev = 1, lh_n = 0, lh_block = (\<lambda>_. 0), \<dots> = z\<rparr>"

definition logged :: "'a \<Rightarrow> 'a log_state_scheme" where
  "logged z = (boot z)\<lparr>bufs := boot_buf(0 := (boot_buf 0)\<lparr>bvalid := True, bdev := 1, blockno := 100, refcnt := 1\<rparr>),
     vio := boot_vio\<lparr>bdata := (\<lambda>_ _. 0)(0 := (\<lambda>_. 0)(0 := 7))\<rparr>,
     outstanding := 1, lh_n := 1, lh_block := (\<lambda>_. 100)\<rparr>"

lemma upt_30: "[0..<30] = [0, 1, 2, 3, 4, 5, 6, 7, 8, 9, 10, 11, 12, 13, 14, 15, 16, 17, 18, 19, 20, 21, 22, 23, 24, 25, 26,
  27, 28, 29 :: nat]"
  by (simp add: upt_rec)

lemma ring_rev: "chain bs HEAD (rev [0..<NBUF]) HEAD \<Longrightarrow> ring bs (rev [0..<NBUF])"
  by (simp add: ring_def)

lemma boot_ring: "ring boot_buf (rev [0..<NBUF])"
  by (rule ring_rev) (simp add: upt_30 linked_def boot_buf_def)

lemma boot_solo: "solo 0 (boot z)"
  by (simp add: solo_def running_def nobody_sleeps_def boot_def boot_proc_def)



lemma boot_idle: "vq_idle (boot z)"
  by (simp add: vq_idle_def boot_def boot_vio_def conforming_def)

lemma boot_slot: "d \<noteq> 0 \<Longrightarrow> slot d (boot z) bn = None"
  by (simp add: slot_None boot_def boot_buf_def)

lemma boot_pins: "pins 0 {} (boot z)"
proof -
  have d: "log_dev (boot z) = 1" by (simp add: boot_def)
  have "binv 0 1 (boot z)"
    unfolding binv_def
    using boot_solo [of z] boot_idle [of z] boot_ring
    by (auto simp: boot_def buf_ok_def uniq_def boot_buf_def boot_vio_def buf_data_def)
  then show ?thesis by (simp add: pins_def d in_use_def refs_def boot_slot fun_eq_iff)
qed

lemma logged_solo: "solo 0 (logged z)"
  using boot_solo [of z] by (simp add: logged_def solo_def running_def nobody_sleeps_def)

lemma logged_slot: "slot 1 (logged z) bn = (if bn = 100 then Some 0 else None)"
  by (simp add: slot_def logged_def upt_30 boot_buf_def)

lemma logged_pins: "pins 0 (home (logged z)) (logged z)"
proof -
  have d: "log_dev (logged z) = 1" and h: "home (logged z) = {100}"
    by (simp_all add: logged_def boot_def home_def lessThan_Suc)
  have "ring (bufs (logged z)) (rev [0..<NBUF])"
    by (rule ring_rev) (simp add: upt_30 linked_def boot_buf_def logged_def)
  moreover have "vq_idle (logged z)" using boot_idle [of z] by (simp add: vq_idle_def logged_def boot_def boot_vio_def)
  ultimately have "binv 0 1 (logged z)"
    unfolding binv_def using logged_solo [of z]
    by (auto simp: logged_def boot_def buf_ok_def uniq_def boot_buf_def boot_vio_def buf_data_def)
  then show ?thesis
    by (simp add: pins_def d h in_use_def refs_def logged_slot fun_eq_iff) (simp add: logged_def boot_def)
qed

lemma logged_ok: "log_ok (logged z)"
  by (simp add: log_ok_def logged_def boot_def lessThan_Suc)

text \<open>An operation that holds block 100 and has not logged it yet.\<close>

definition editing :: "'a \<Rightarrow> 'a log_state_scheme" where
  "editing z = (boot z)\<lparr>bufs := boot_buf(0 := (boot_buf 0)\<lparr>bvalid := True, bdev := 1, blockno := 100, refcnt := 1\<rparr>),
     slocks := (\<lambda>_. \<lparr>sl_locked = False, sl_name = [], sl_pid = 0\<rparr>)(SlBuf 0 := \<lparr>sl_locked = True, sl_name = [], sl_pid = 1\<rparr>),
     outstanding := 1\<rparr>"

lemma editing_slot: "slot 1 (editing z) bn = (if bn = 100 then Some 0 else None)"
  by (simp add: slot_def editing_def upt_30 boot_buf_def)

lemma editing_binv: "binv 0 1 (editing z)"
proof -
  have "ring (bufs (editing z)) (rev [0..<NBUF])"
    by (rule ring_rev) (simp add: upt_30 linked_def boot_buf_def editing_def)
  moreover have "vq_idle (editing z)" using boot_idle [of z] by (simp add: vq_idle_def editing_def boot_def boot_vio_def)
  moreover have "solo 0 (editing z)"
    using boot_solo [of z] by (simp add: editing_def solo_def running_def nobody_sleeps_def)
  ultimately show ?thesis
    unfolding binv_def
    by (auto simp: editing_def boot_def buf_ok_def uniq_def boot_buf_def boot_vio_def buf_data_def boot_proc_def)
qed

lemma editing_holds: "holds 1 (editing z) 100 0"
  by (simp add: holds_def editing_slot) (simp add: editing_def)

end
