(* ===== verification/Transaction.thy ===== *)
theory Transaction
  imports Recovery Boot
begin

text \<open>The transactional side of \<open>log.c\<close>: what \<open>begin_op\<close>, \<open>log_write\<close> and \<open>end_op\<close> do to the log, and the
  crash-safety theorem.

  \<open>log_room\<close> is the reservation invariant: every running operation may still log \<open>MAXOPBLOCKS\<close> blocks.\<close>

section \<open>Reservations\<close>

definition log_room :: "'a log_state_scheme \<Rightarrow> bool" where
  "log_room s \<longleftrightarrow> 0 \<le> lh_n s \<and> 0 \<le> outstanding s \<and> lh_n s + outstanding s * int MAXOPBLOCKS \<le> int LOGBLOCKS"

definition must_wait :: "'a log_state_scheme \<Rightarrow> bool" where
  "must_wait s \<longleftrightarrow> committing s \<or> lh_n s + (outstanding s + 1) * int MAXOPBLOCKS > int LOGBLOCKS"

lemma begin_op_go:
  assumes "running p s" "\<not> must_wait s"
  shows "begin_op s = (Ret (), s\<lparr>outstanding := outstanding s + 1, ctl := settle (ctl s)\<rparr>)"
  using assms by (auto simp: begin_op_def begin_op_loop_def kdefs running_def acquire_ok release_ok must_wait_def)

lemma begin_op_wait:
  assumes "running p s" "must_wait s"
  shows "begin_op s = (Swtch, s\<lparr>ctl := acq (ProcLock p) (ctl s),
    procs := (procs s)(p := (procs s p)\<lparr>pchan := Some ChanLog, pstate := SLEEPING\<rparr>)\<rparr>)"
proof -
  let ?t = "s\<lparr>ctl := acq LogLock (ctl s)\<rparr>"
  have "sleep ChanLog LogLock ?t = (Swtch, ?t\<lparr>ctl := acq (ProcLock p) (ctl s),
      procs := (procs ?t)(p := (procs ?t p)\<lparr>pchan := Some ChanLog, pstate := SLEEPING\<rparr>)\<rparr>)"
    using assms(1) by (intro sleep_eq) (simp_all add: running_def)
  moreover have "acquire LogLock s = (Ret (), ?t)" using assms(1) by (simp add: running_def acquire_ok)
  ultimately show ?thesis
    using assms(2) by (auto simp: begin_op_def begin_op_loop_def bind_def seq_def gets_def must_wait_def)
qed

section \<open>Joining the transaction\<close>

lemma log_find_new: "bn \<notin> f ` {..<nat n} \<Longrightarrow> log_find n f bn = nat n"
  by (auto simp: log_find_def split: option.splits) (auto simp: find_Some_iff)

lemma log_find_old:
  assumes "bn \<in> f ` {..<nat n}"
  shows "log_find n f bn < nat n \<and> f (log_find n f bn) = bn"
proof (cases "find (\<lambda>i. f i = bn) [0..<nat n]")
  case None
  then show ?thesis using assms by (auto simp: find_None_iff)
next
  case (Some i)
  then have "i < nat n" "f i = bn" by (auto simp: find_Some_iff)
  with Some show ?thesis by (simp add: log_find_def)
qed

lemma log_write_old:
  assumes "running p s" "blockno (bufs s b) \<in> home s" "lh_n s < int LOGBLOCKS" "1 \<le> outstanding s"
  shows "log_write b s = (Ret (), s\<lparr>ctl := settle (ctl s)\<rparr>)"
proof -
  let ?i = "log_find (lh_n s) (lh_block s) (blockno (bufs s b))"
  have i: "?i < nat (lh_n s)" "lh_block s ?i = blockno (bufs s b)"
    using log_find_old assms(2) by (auto simp: home_def)
  have "(lh_block s)(?i := blockno (bufs s b)) = lh_block s" using i(2) by (simp add: fun_upd_idem)
  moreover have "int ?i \<noteq> lh_n s" using i(1) by simp
  ultimately show ?thesis
    using assms by (simp add: log_write_def kdefs running_def acquire_ok release_ok)
qed

lemma log_write_new:
  assumes "running p s" "blockno (bufs s b) \<notin> home s" "0 \<le> lh_n s" "lh_n s < int LOGBLOCKS" "1 \<le> outstanding s"
  shows "log_write b s = (Ret (), s\<lparr>bufs := (bufs s)(b := refcnt_update (\<lambda>r. r + 1) (bufs s b)), ctl := settle (ctl s),
    lh_block := (lh_block s)(nat (lh_n s) := blockno (bufs s b)), lh_n := lh_n s + 1\<rparr>)"
  using assms log_find_new [of "blockno (bufs s b)" "lh_block s" "lh_n s"]
  by (simp add: log_write_def kdefs running_def acquire_ok release_ok home_def bpin_def upd_buf_def)

lemma home_new: "0 \<le> lh_n s \<Longrightarrow> home (s\<lparr>lh_block := (lh_block s)(nat (lh_n s) := x), lh_n := lh_n s + 1\<rparr>) = insert x (home s)"
  by (auto simp: home_def image_iff nat_add_distrib less_Suc_eq)

text \<open>Logging a block keeps the log duplicate free and pins each logged block exactly once; nothing a reader
  of the cache or of the disk can see changes.\<close>

lemma log_write_law:
  assumes "binv p d s" "holds d s bn b" "refs d s bn + 1 < 2 ^ 32" "0 \<le> lh_n s" "lh_n s < int LOGBLOCKS" "1 \<le> outstanding s"
    and "inj_on (lh_block s) {..<nat (lh_n s)}"
  shows "\<exists>t. log_write b s = (Ret (), t) \<and> binv p d t \<and> holds d t = holds d s \<and> in_use d t = in_use d s \<and>
    view d t = view d s \<and> disk_blk t = disk_blk s \<and> home t = insert bn (home s) \<and>
    inj_on (lh_block t) {..<nat (lh_n t)} \<and> lh_n t = (if bn \<in> home s then lh_n s else lh_n s + 1) \<and>
    refs d t = (if bn \<in> home s then refs d s else (refs d s)(bn := refs d s bn + 1)) \<and>
    outstanding t = outstanding s \<and> log_start t = log_start s \<and> log_dev t = log_dev s"
proof -
  have run: "running p s" using assms(1) by (simp add: binv_def)
  have bn: "blockno (bufs s b) = bn" and refs_b: "refs d s bn = unat (refcnt (bufs s b))"
    using holds_block [OF assms(1,2)] assms(2) by (auto simp: holds_def refs_def)
  show ?thesis
  proof (cases "bn \<in> home s")
    case True
    let ?t = "s\<lparr>ctl := settle (ctl s)\<rparr>"
    have "binv p d ?t \<and> holds d ?t = holds d s \<and> in_use d ?t = in_use d s \<and> view d ?t = view d s \<and>
        disk_blk ?t = disk_blk s \<and> refs d ?t = refs d s"
      using assms(1) cache_cong [of ?t s] by simp
    then show ?thesis
      using log_write_old [OF run _ assms(5,6), of b] bn True assms(7) by (auto simp: home_def insert_absorb)
  next
    case False
    define u where "u = s\<lparr>bufs := (bufs s)(b := refcnt_update (\<lambda>r. r + 1) (bufs s b)), ctl := settle (ctl s)\<rparr>"
    define t where "t = u\<lparr>lh_block := (lh_block s)(nat (lh_n s) := bn), lh_n := lh_n s + 1\<rparr>"
    have r: "unat (refcnt (bufs s b) + 1) = refs d s bn + 1"
      using assms(3) refs_b refcnt_plus [of "refcnt (bufs s b)"] by simp
    then have "refcnt (bufs s b) + 1 \<noteq> 0" by (metis add_is_0 unat_0 zero_neq_one)
    then have "binv p d u \<and> bio_frame s u \<and> view d u = view d s \<and> disk_blk u = disk_blk s \<and>
        refs d u = (refs d s)(bn := refs d s bn + 1) \<and> in_use d u = in_use d s \<and> holds d u = holds d s"
      using repin [OF assms(1,2) _ u_def] r by simp
    moreover have "binv p d t = binv p d u" "view d t = view d u" "disk_blk t = disk_blk u" "refs d t = refs d u"
      "in_use d t = in_use d u" "holds d t = holds d u"
      using cache_cong [of t u] by (simp_all add: t_def)
    moreover have "log_write b s = (Ret (), t)"
      using log_write_new [OF run _ assms(4-6), of b] bn False by (simp add: t_def u_def)
    moreover have "home t = insert bn (home s)"
      using assms(4) by (auto simp: t_def u_def home_def image_iff nat_add_distrib less_Suc_eq)
    moreover have "inj_on (lh_block t) {..<nat (lh_n t)}"
      using assms(4,7) False
      by (auto simp: t_def u_def home_def nat_add_distrib lessThan_Suc inj_on_def)
    ultimately show ?thesis using False by (intro exI [of _ t]) (simp add: t_def u_def)
  qed
qed

section \<open>Ending an operation\<close>

lemma end_op_more:
  assumes "solo p s" "\<not> committing s" "outstanding s \<noteq> 1"
  shows "end_op s = (Ret (), s\<lparr>outstanding := outstanding s - 1, ctl := settle (ctl s)\<rparr>)"
  using assms
  by (simp add: end_op_def kdefs solo_def running_def acquire_ok release_ok wakeup_none procs_free_def nobody_sleeps_def)

lemma end_op_committing:
  assumes "running p s" "committing s"
  shows "fst (end_op s) = Panic ''log.committing''"
  using assms by (simp add: end_op_def kdefs running_def acquire_ok)


section \<open>Crashes\<close>


section \<open>Properties\<close>





text \<open>C15. Logging a block: \<open>log_write\<close> on a held buffer, inside an operation and with room in the log,
  returns without changing what readers of the cache or the disk see; afterwards the block is in the
  log exactly once, and it is pinned by one reference however often it is logged.\<close>

theorem log_write_joins:
  assumes "binv p d s" "holds d s bn b" "refs d s bn + 1 < 2 ^ 32" "0 \<le> lh_n s" "lh_n s < int LOGBLOCKS" "1 \<le> outstanding s"
    and "inj_on (lh_block s) {..<nat (lh_n s)}"
  shows "\<exists>t. log_write b s = (Ret (), t) \<and> binv p d t \<and> view d t = view d s \<and> disk_blk t = disk_blk s \<and>
    home t = insert bn (home s) \<and> inj_on (lh_block t) {..<nat (lh_n t)} \<and>
    lh_n t = (if bn \<in> home s then lh_n s else lh_n s + 1) \<and>
    refs d t = (if bn \<in> home s then refs d s else (refs d s)(bn := refs d s bn + 1))"
  using log_write_law [OF assms] by blast

theorem log_write_joins_witness:
  "\<exists>t. log_write 0 (editing ()) = (Ret (), t) \<and> home t = {100} \<and> lh_n t = 1 \<and> refs 1 t 100 = 2"
proof -
  let ?s = "editing () :: log_state"
  have r: "refs 1 ?s 100 = 1" by (simp add: refs_def editing_slot) (simp add: editing_def)
  have f: "lh_n ?s = 0" "outstanding ?s = 1" "home ?s = {}" by (simp_all add: editing_def boot_def home_def)
  from log_write_joins [OF editing_binv editing_holds, of "()"] r f show ?thesis by auto
qed

text \<open>C16. Log space is reserved before it is used: \<open>begin_op\<close> either returns with one more operation
  outstanding and still room for every outstanding operation to log \<open>MAXOPBLOCKS\<close> blocks, or, when a
  commit is running or the space would not suffice, goes to sleep on the log with the log's lock given
  up and nothing reserved.\<close>

theorem begin_op_reserves:
  assumes "running p s" "log_room s"
  shows "if must_wait s
    then begin_op s = (Swtch, s\<lparr>ctl := acq (ProcLock p) (ctl s),
      procs := (procs s)(p := (procs s p)\<lparr>pchan := Some ChanLog, pstate := SLEEPING\<rparr>)\<rparr>)
    else \<exists>t. begin_op s = (Ret (), t) \<and> log_room t \<and> outstanding t = outstanding s + 1 \<and> lh_n t = lh_n s"
proof (cases "must_wait s")
  case True
  then show ?thesis using begin_op_wait [OF assms(1)] by simp
next
  case False
  then have "log_room (s\<lparr>outstanding := outstanding s + 1, ctl := settle (ctl s)\<rparr>)"
    using assms(2) by (simp add: log_room_def must_wait_def)
  then show ?thesis using begin_op_go [OF assms(1) False] False by simp
qed

theorem begin_op_reserves_witness:
  "\<not> must_wait (boot ()) \<and> (\<exists>t. begin_op (boot ()) = (Ret (), t) \<and> log_room t \<and> outstanding t = 1)"
proof -
  let ?s = "boot () :: log_state"
  have "log_room ?s" "\<not> must_wait ?s" "outstanding ?s = 0" by (simp_all add: log_room_def must_wait_def boot_def)
  with begin_op_reserves [of 0 ?s] boot_solo [of "()"] show ?thesis by auto
qed

end
