(* ===== verification/Start.thy ===== *)
theory Start
  imports Riscv
begin

text \<open>\<open>kernel/start.c\<close>: the machine-mode set-up of a hart, as a function on its control registers.  The
  final \<open>mret\<close> leaves for the mode and the address the registers then hold.\<close>

record mregs =
  mhartid :: u64
  mstatus :: u64
  mepc :: u64
  msatp :: u64
  medeleg :: u64
  mideleg :: u64
  sie_reg :: u64
  mie :: u64
  menvcfg :: u64
  mcounteren :: u64
  pmpaddr0 :: u64
  pmpcfg0 :: u64
  mtime :: u64
  mtimecmp :: u64
  tp :: u64

abbreviation (input) MSTATUS_MPP_MASK :: u64 where "MSTATUS_MPP_MASK \<equiv> 0x1800"
abbreviation (input) MSTATUS_MPP_S :: u64 where "MSTATUS_MPP_S \<equiv> 0x800"
abbreviation (input) SIE_SEIE :: u64 where "SIE_SEIE \<equiv> 0x200"
abbreviation (input) SIE_STIE :: u64 where "SIE_STIE \<equiv> 0x20"
abbreviation (input) MIE_STIE :: u64 where "MIE_STIE \<equiv> 0x20"

definition timerinit :: "mregs \<Rightarrow> mregs" where
  "timerinit r = r\<lparr>mie := mie r OR MIE_STIE, menvcfg := menvcfg r OR push_bit 63 1,
     mcounteren := mcounteren r OR 2, mtimecmp := mtime r + 1000000\<rparr>"

definition start :: "u64 \<Rightarrow> mregs \<Rightarrow> mregs" where
  "start main_addr r =
     (let r = r\<lparr>mstatus := (mstatus r AND NOT MSTATUS_MPP_MASK) OR MSTATUS_MPP_S\<rparr>;
          r = r\<lparr>mepc := main_addr\<rparr>;
          r = r\<lparr>msatp := 0\<rparr>;
          r = r\<lparr>medeleg := 0xffff, mideleg := 0xffff\<rparr>;
          r = r\<lparr>sie_reg := sie_reg r OR SIE_SEIE OR SIE_STIE\<rparr>;
          r = r\<lparr>pmpaddr0 := 0x3fffffffffffff, pmpcfg0 := 0xf\<rparr>;
          r = timerinit r
      in r\<lparr>tp := scast (ucast (mhartid r) :: u32)\<rparr>)"

end
