(* ===== verification/Ring.thy ===== *)
theory Ring
  imports Kprelude
begin

text \<open>
  Ring buffers indexed by free-running 32-bit counters, as \<open>console.c\<close> and \<open>pipe.c\<close> have them: the bytes
  between a read index \<open>i\<close> and a write index \<open>j\<close> are \<open>ring_list\<close>, a plain list.  The contract
  \<open>ring_size\<close> is what makes the array position \<open>index mod size\<close> survive the wrap-around of the
  counters; its lemmas say that storing at \<open>j\<close> appends to the list and that advancing \<open>i\<close> takes its
  head off.
\<close>

definition ring_list :: "nat \<Rightarrow> (nat \<Rightarrow> byte) \<Rightarrow> u32 \<Rightarrow> u32 \<Rightarrow> byte list" where
  "ring_list cap buf i j = map (\<lambda>k. buf (unat (i + of_nat k) mod cap)) [0..<unat (j - i)]"

lemma length_ring_list [simp]: "length (ring_list cap buf i j) = unat (j - i)"
  by (simp add: ring_list_def)

lemma ring_list_Nil [simp]: "ring_list cap buf i i = []"
  by (simp add: ring_list_def)

lemma ring_list_empty: "ring_list cap buf i j = [] \<longleftrightarrow> i = j"
  by (auto simp: ring_list_def unat_eq_zero)

lemma u32_minus_Suc:
  assumes "unat (j - i :: u32) < 2 ^ 32 - 1"
  shows "unat (j + 1 - i) = Suc (unat (j - i))"
proof -
  have e: "j + 1 - i = (j - i) + 1" by simp
  show ?thesis unfolding e using assms by (simp add: unat_word_ariths)
qed

lemma u32_minus_pred:
  assumes "i \<noteq> (j :: u32)"
  shows "Suc (unat (j - (i + 1))) = unat (j - i)"
proof -
  have e: "j - (i + 1) = (j - i) - 1" by simp
  show ?thesis unfolding e using assms by (intro Suc_unat_minus_one) simp
qed

text \<open>Taking the head off.\<close>

lemma ring_list_Cons:
  assumes "i \<noteq> j"
  shows "ring_list cap buf i j = buf (unat i mod cap) # ring_list cap buf (i + 1) j"
proof -
  have u: "unat (j - i) = Suc (unat (j - (i + 1)))" using u32_minus_pred [OF assms] by simp
  have s: "[0..<Suc (unat (j - (i + 1)))] = 0 # map Suc [0..<unat (j - (i + 1))]"
    by (simp add: upt_conv_Cons map_Suc_upt del: upt_Suc)
  show ?thesis unfolding ring_list_def u s by (simp add: algebra_simps o_def)
qed

locale ring_size =
  fixes cap :: nat
  assumes cap_pos: "0 < cap" and cap_less: "cap < 2 ^ 32" and cap_dvd: "cap dvd 2 ^ 32"
begin

text \<open>Two indices less than the size apart use different positions.\<close>

lemma index_inj:
  assumes "unat (j - i :: u32) < cap" "i \<noteq> j"
  shows "unat i mod cap \<noteq> unat j mod cap"
proof
  assume e: "unat i mod cap = unat j mod cap"
  have d: "int cap dvd 2 ^ 32" using cap_dvd by (metis of_nat_dvd_iff of_nat_numeral of_nat_power)
  have "int (unat (j - i)) = (int (unat j) - int (unat i)) mod 2 ^ 32"
    by (simp add: uint_word_ariths flip: uint_nat)
  then have "int (unat (j - i)) mod int cap = (int (unat j) - int (unat i)) mod int cap"
    using d by (simp add: mod_mod_cancel)
  moreover have "int (unat j) mod int cap = int (unat i) mod int cap"
    unfolding of_nat_mod [symmetric] e by (rule refl)
  then have "int cap dvd int (unat j) - int (unat i)" by (simp add: mod_eq_dvd_iff)
  ultimately have "int (unat (j - i) mod cap) = 0" by (simp add: of_nat_mod)
  then have "unat (j - i) mod cap = 0" by simp
  then have "unat (j - i) = 0" using assms(1) by simp
  then show False using assms(2) by (simp add: unat_eq_zero)
qed

text \<open>Storing at the write index appends.\<close>

lemma put:
  assumes "unat (j - i) < cap"
  shows "ring_list cap (buf(unat j mod cap := c)) i (j + 1) = ring_list cap buf i j @ [c]"
proof -
  have u: "unat (j + 1 - i) = Suc (unat (j - i))" by (rule u32_minus_Suc) (use assms cap_less in simp)
  have "unat (i + of_nat k) mod cap \<noteq> unat j mod cap" if k: "k < unat (j - i)" for k
  proof (rule index_inj)
    have e: "j - (i + of_nat k) = (j - i) - of_nat k" by simp
    have "unat (of_nat k :: u32) = k" using k unat_less_2p32 [of "j - i"] by (simp add: unat_of_nat)
    then have "unat (j - (i + of_nat k)) = unat (j - i) - k"
      unfolding e using k by (subst unat_sub) (simp_all add: word_le_nat_alt)
    then show "unat (j - (i + of_nat k)) < cap" "i + of_nat k \<noteq> j" using k assms by auto
  qed
  then show ?thesis unfolding ring_list_def u by (auto simp: algebra_simps)
qed

text \<open>The oldest byte and what is left when it is taken.\<close>

lemma get:
  assumes "ring_list cap buf i j = c # cs"
  shows "buf (unat i mod cap) = c" "ring_list cap buf (i + 1) j = cs"
proof -
  have "i \<noteq> j" using assms by auto
  then show "buf (unat i mod cap) = c" "ring_list cap buf (i + 1) j = cs"
    using assms by (simp_all add: ring_list_Cons)
qed

text \<open>Taking back what was stored last.\<close>

lemma unput:
  assumes "i \<noteq> j"
  shows "ring_list cap buf i (j - 1) = butlast (ring_list cap buf i j)"
proof -
  have e: "j - 1 - i = (j - i) - 1" by simp
  have "unat (j - i) = Suc (unat (j - 1 - i))"
    unfolding e using assms by (intro Suc_unat_minus_one [symmetric]) simp
  then show ?thesis unfolding ring_list_def by (simp add: butlast_append)
qed

end

end
