(* ===== verification/Console.thy ===== *)
theory Console
  imports Log Ring
begin

text \<open>
  The interrupt-driven half of \<open>kernel/uart.c\<close> and \<open>kernel/console.c\<close>: line input with editing, console
  reads and writes, and the table of device functions the console registers itself in.

  A reader that finds no complete line sleeps (outcome \<open>Swtch\<close>) and, when woken, continues in
  \<open>consoleread_loop\<close> with the same arguments.  A writer that finds the transmitter busy waits for
  the transmit interrupt: \<open>uart_tx_wait\<close> is that wait as the writer sees it, the lock given up, the
  interrupt handler run, the lock taken again.

  The input buffer is two adjacent rings over one array: the complete lines between \<open>cons_r\<close> and
  \<open>cons_w\<close>, and the line being edited between \<open>cons_w\<close> and \<open>cons_e\<close>.
\<close>

section \<open>State\<close>

abbreviation (input) INPUT_BUF_SIZE :: nat where "INPUT_BUF_SIZE \<equiv> 128"
abbreviation (input) CONSOLE :: nat where "CONSOLE \<equiv> 1"

datatype devfn = ConsoleDev

record cons_state = log_state +
  cons_buf :: "nat \<Rightarrow> byte"
  cons_r :: u32
  cons_w :: u32
  cons_e :: u32
  tx_busy :: bool
  devsw_read :: "nat \<Rightarrow> devfn option"
  devsw_write :: "nat \<Rightarrow> devfn option"

definition ctrl :: "char \<Rightarrow> int" where
  "ctrl x = uint (ascii x) - 64"

section \<open>Input\<close>

text \<open>The loop of the kill character takes back one character per round; it cannot take back more than
  there are between \<open>cons_w\<close> and \<open>cons_e\<close>.\<close>

fun kill_line :: "nat \<Rightarrow> (unit, 'a cons_state_scheme) routine" where
  "kill_line n =
     bind (gets (\<lambda>s. cons_e s \<noteq> cons_w s \<and> cons_buf s (unat (cons_e s - 1) mod INPUT_BUF_SIZE) \<noteq> 10)) (\<lambda>more.
     if \<not> more then skip else
     case n of 0 \<Rightarrow> fail Loops | Suc m \<Rightarrow>
     seq (modify (\<lambda>s. s\<lparr>cons_e := cons_e s - 1\<rparr>)) (
     seq (consputc BACKSPACE) (
     kill_line m)))"

declare kill_line.simps [simp del]

definition erase_char :: "(unit, 'a cons_state_scheme) routine" where
  "erase_char =
     bind (gets (\<lambda>s. cons_e s \<noteq> cons_w s)) (\<lambda>some.
     only_if some (
       seq (modify (\<lambda>s. s\<lparr>cons_e := cons_e s - 1\<rparr>)) (
       consputc BACKSPACE)))"

definition store_char :: "byte \<Rightarrow> (unit, 'a cons_state_scheme) routine" where
  "store_char c =
     seq (modify (\<lambda>s. s\<lparr>cons_buf := (cons_buf s)(unat (cons_e s) mod INPUT_BUF_SIZE := c), cons_e := cons_e s + 1\<rparr>)) (
     bind (gets (\<lambda>s. c = 10 \<or> int (unat c) = ctrl (CHR ''D'') \<or> cons_e s - cons_r s = 128)) (\<lambda>line.
     only_if line (
       seq (modify (\<lambda>s. s\<lparr>cons_w := cons_e s\<rparr>)) (
       wakeup ChanConsR))))"

text \<open>The \<open>switch\<close> of \<open>consoleintr\<close>, with the lock held.\<close>

definition consoleintr_char :: "int \<Rightarrow> (unit, 'a cons_state_scheme) routine" where
  "consoleintr_char c =
     (if c = ctrl (CHR ''P'') then procdump
      else if c = ctrl (CHR ''U'') then
        bind (gets (\<lambda>s. unat (cons_e s - cons_w s))) kill_line
      else if c = ctrl (CHR ''H'') \<or> c = 0x7f then erase_char
      else bind (gets (\<lambda>s. cons_e s - cons_r s < 128)) (\<lambda>room.
        only_if (c \<noteq> 0 \<and> room) (
          let c' = (if c = 13 then 10 else c) in
          seq (consputc c') (
          store_char (of_int c')))))"

definition consoleintr :: "int \<Rightarrow> (unit, 'a cons_state_scheme) routine" where
  "consoleintr c = seq (acquire ConsLock) (seq (consoleintr_char c) (release ConsLock))"

text \<open>The receive loop ends when the FIFO is empty; every round takes a character out of it.\<close>

fun uartintr_loop :: "nat \<Rightarrow> (unit, 'a cons_state_scheme) routine" where
  "uartintr_loop 0 = fail Loops"
| "uartintr_loop (Suc n) =
     bind uartgetc (\<lambda>c.
     if c = - 1 then skip else seq (consoleintr c) (uartintr_loop n))"

definition uartintr :: "(unit, 'a cons_state_scheme) routine" where
  "uartintr =
     seq (acquire UartTxLock) (
     bind (gets (\<lambda>s. ReadLSR s AND LSR_TX_IDLE \<noteq> 0)) (\<lambda>idle.
     seq (only_if idle (
       seq (modify (\<lambda>s. s\<lparr>tx_busy := False\<rparr>)) (
       wakeup ChanTx))) (
     seq (release UartTxLock) (
     bind (gets (\<lambda>s. length (uart_rx s))) (\<lambda>n.
     uartintr_loop (Suc n))))))"

text \<open>Copying a line to the reader, with the lock held; \<open>n\<close> bytes are still wanted of \<open>target\<close>.\<close>

definition consoleread_done :: "nat \<Rightarrow> nat \<Rightarrow> (int, 'a cons_state_scheme) routine" where
  "consoleread_done target n = seq (release ConsLock) (ret (int target - int n))"

fun consoleread_loop :: "nat \<Rightarrow> nat \<Rightarrow> copy_dst \<Rightarrow> (int, 'a cons_state_scheme) routine" where
  "consoleread_loop target 0 dst = consoleread_done target 0"
| "consoleread_loop target (Suc m) dst =
     bind (gets (\<lambda>s. cons_r s = cons_w s)) (\<lambda>empty.
     if empty then
       bind this_proc (\<lambda>p.
       bind (killed p) (\<lambda>k.
       if k then seq (release ConsLock) (ret (- 1)) else sleep ChanConsR ConsLock))
     else
       bind (gets (\<lambda>s. cons_buf s (unat (cons_r s) mod INPUT_BUF_SIZE))) (\<lambda>c.
       seq (modify (\<lambda>s. s\<lparr>cons_r := cons_r s + 1\<rparr>)) (
       if int (unat c) = ctrl (CHR ''D'') then
         seq (only_if (Suc m < target) (modify (\<lambda>s. s\<lparr>cons_r := cons_r s - 1\<rparr>))) (
         consoleread_done target (Suc m))
       else
         bind (either_copyout dst [c]) (\<lambda>r.
         if r = - 1 then consoleread_done target (Suc m)
         else if c = 10 then consoleread_done target m
         else consoleread_loop target m (dst_add dst 1)))))"

definition consoleread :: "copy_dst \<Rightarrow> int \<Rightarrow> (int, 'a cons_state_scheme) routine" where
  "consoleread dst n = seq (acquire ConsLock) (consoleread_loop (nat n) (nat n) dst)"

section \<open>Output\<close>

definition uart_tx_wait :: "(unit, 'a cons_state_scheme) routine" where
  "uart_tx_wait =
     bind (gets tx_busy) (\<lambda>busy.
     if \<not> busy then skip else
     seq (release UartTxLock) (
     seq uartintr (
     seq (acquire UartTxLock) (
     bind (gets tx_busy) (\<lambda>busy'.
     if busy' then fail (Spin ''uartwrite'') else skip)))))"

fun uartwrite_loop :: "byte list \<Rightarrow> (unit, 'a cons_state_scheme) routine" where
  "uartwrite_loop [] = skip"
| "uartwrite_loop (b # bs) =
     seq uart_tx_wait (
     seq (WriteReg THR b) (
     seq (modify (\<lambda>s. s\<lparr>tx_busy := True\<rparr>)) (
     uartwrite_loop bs)))"

definition uartwrite :: "byte list \<Rightarrow> (unit, 'a cons_state_scheme) routine" where
  "uartwrite buf = seq (acquire UartTxLock) (seq (uartwrite_loop buf) (release UartTxLock))"

function consolewrite_loop :: "copy_src \<Rightarrow> nat \<Rightarrow> nat \<Rightarrow> (int, 'a cons_state_scheme) routine" where
  "consolewrite_loop src i n =
     (if \<not> i < n then ret (int i) else
      bind (either_copyin (src_add src i) (min 32 (n - i))) (\<lambda>(bs, r).
      if r = - 1 then ret (int i) else
      seq (uartwrite bs) (
      consolewrite_loop src (i + min 32 (n - i)) n)))"
  by pat_completeness auto
termination by (relation "measure (\<lambda>(_, i, n). n - i)") auto

declare consolewrite_loop.simps [simp del]

definition consolewrite :: "copy_src \<Rightarrow> int \<Rightarrow> (int, 'a cons_state_scheme) routine" where
  "consolewrite src n = consolewrite_loop src 0 (nat n)"

section \<open>Devices\<close>

definition consoleinit :: "(unit, 'a cons_state_scheme) routine" where
  "consoleinit =
     seq (initlock ConsLock ''cons'') (
     seq uartinit (
     modify (\<lambda>s. s\<lparr>devsw_read := (devsw_read s)(CONSOLE := Some ConsoleDev),
                  devsw_write := (devsw_write s)(CONSOLE := Some ConsoleDev)\<rparr>)))"

text \<open>A call through \<open>devsw\<close>; \<open>None\<close> is a null function pointer, or a major number out of range.\<close>

definition dev_read :: "int \<Rightarrow> copy_dst \<Rightarrow> int \<Rightarrow> (int, 'a cons_state_scheme) routine" where
  "dev_read major dst n =
     bind (gets (\<lambda>s. if major < 0 \<or> major \<ge> int NDEV then None else devsw_read s (nat major))) (\<lambda>f.
     case f of None \<Rightarrow> ret (- 1) | Some ConsoleDev \<Rightarrow> consoleread dst n)"

definition dev_write :: "int \<Rightarrow> copy_src \<Rightarrow> int \<Rightarrow> (int, 'a cons_state_scheme) routine" where
  "dev_write major src n =
     bind (gets (\<lambda>s. if major < 0 \<or> major \<ge> int NDEV then None else devsw_write s (nat major))) (\<lambda>f.
     case f of None \<Rightarrow> ret (- 1) | Some ConsoleDev \<Rightarrow> consolewrite src n)"

end
