(* ===== verification/Icache.thy ===== *)
theory Icache
  imports Console
begin

text \<open>
  The in-memory inode table of \<open>kernel/fs.c\<close> (\<open>struct inode\<close> of \<open>file.h\<close>, \<open>struct icache\<close> of
  \<open>icache.h\<close>): \<open>iinit\<close>, \<open>iget\<close>, \<open>idup\<close>.

  An inode pointer is an index into the table; \<open>iiops\<close> says that the operations table of the ext2
  driver is attached, \<open>iext\<close> is the slot of the \<open>ext2fs_addrs\<close> pool.  The superblock of ext2 is kept
  as the 1024 bytes it is on the disk, that of the old file system as a record.
\<close>

section \<open>State\<close>

record inode =
  idev :: u32
  inum :: u32
  iref :: int
  ivalid :: bool
  itype :: u16
  imajor :: u16
  iminor :: u16
  inlink :: u16
  isize :: u32
  iaddrs :: "nat \<Rightarrow> u32"
  iiops :: bool
  iext :: "nat option"

record ext2_addrs =
  abusy :: bool
  aaddrs :: "nat \<Rightarrow> u32"

record superblock =
  sb_magic :: u32
  sb_size :: u32
  sb_nblocks :: u32
  sb_ninodes :: u32
  sb_nlog :: u32
  sb_logstart :: u32
  sb_inodestart :: u32
  sb_bmapstart :: u32

text \<open>\<open>kstack_junk\<close> is what lies behind a local object on the kernel stack.\<close>

record fs_state = cons_state +
  icache :: "nat \<Rightarrow> inode"
  ext2fs_addrs :: "nat \<Rightarrow> ext2_addrs"
  ext2_sb :: block
  sb :: superblock
  kstack_junk :: "nat \<Rightarrow> byte"

abbreviation (input) T_DIR :: u16 where "T_DIR \<equiv> 1"
abbreviation (input) T_FILE :: u16 where "T_FILE \<equiv> 2"
abbreviation (input) T_DEVICE :: u16 where "T_DEVICE \<equiv> 3"
abbreviation (input) ROOTINO :: u32 where "ROOTINO \<equiv> 1"
abbreviation (input) DIRSIZ :: nat where "DIRSIZ \<equiv> 14"
abbreviation (input) NDIRECT :: nat where "NDIRECT \<equiv> 12"
abbreviation (input) NINDIRECT :: nat where "NINDIRECT \<equiv> 256"

definition upd_inode :: "nat \<Rightarrow> (inode \<Rightarrow> inode) \<Rightarrow> (unit, 'a fs_state_scheme) routine" where
  "upd_inode i f = modify (\<lambda>s. s\<lparr>icache := (icache s)(i := f (icache s i))\<rparr>)"

section \<open>Operations\<close>

definition iinit :: "(unit, 'a fs_state_scheme) routine" where
  "iinit =
     seq (initlock IcacheLock ''itable'') (
     for_each [0..<NINODE] (\<lambda>i. initsleeplock (SlInode i) ''inode''))"

definition find_inode :: "u32 \<Rightarrow> u32 \<Rightarrow> (nat \<Rightarrow> inode) \<Rightarrow> nat option" where
  "find_inode dev num ic = find (\<lambda>i. 0 < iref (ic i) \<and> idev (ic i) = dev \<and> inum (ic i) = num) [0..<NINODE]"

definition find_empty :: "(nat \<Rightarrow> inode) \<Rightarrow> nat option" where
  "find_empty ic = find (\<lambda>i. iref (ic i) = 0) [0..<NINODE]"

text \<open>A fresh entry for an inode of the root device gets the ext2 operations and a slot of the address
  pool.\<close>

definition attach_ext2 :: "nat \<Rightarrow> (unit, 'a fs_state_scheme) routine" where
  "attach_ext2 i =
     seq (upd_inode i (iiops_update (\<lambda>_. True))) (
     bind (gets (\<lambda>s. find (\<lambda>k. \<not> abusy (ext2fs_addrs s k)) [0..<NINODE])) (\<lambda>k.
     case k of
       None \<Rightarrow> panic ''iget: no ext2fs_addrs slots''
     | Some k \<Rightarrow>
       seq (modify (\<lambda>s. s\<lparr>ext2fs_addrs := (ext2fs_addrs s)(k := (ext2fs_addrs s k)\<lparr>abusy := True\<rparr>)\<rparr>)) (
       upd_inode i (iext_update (\<lambda>_. Some k)))))"

definition iget :: "u32 \<Rightarrow> u32 \<Rightarrow> (nat, 'a fs_state_scheme) routine" where
  "iget dev num =
     seq (acquire IcacheLock) (
     bind (gets (\<lambda>s. find_inode dev num (icache s))) (\<lambda>hit.
     case hit of
       Some i \<Rightarrow>
         seq (upd_inode i (iref_update (\<lambda>r. r + 1))) (
         seq (release IcacheLock) (
         ret i))
     | None \<Rightarrow>
         bind (gets (\<lambda>s. find_empty (icache s))) (\<lambda>empty.
         case empty of
           None \<Rightarrow> panic ''iget: no inodes''
         | Some i \<Rightarrow>
             seq (upd_inode i (\<lambda>x. x\<lparr>idev := dev, inum := num, iref := 1, ivalid := False, iiops := False, iext := None\<rparr>)) (
             seq (only_if (dev = ROOTDEV) (attach_ext2 i)) (
             seq (release IcacheLock) (
             ret i))))))"

definition idup :: "nat \<Rightarrow> (nat, 'a fs_state_scheme) routine" where
  "idup i =
     seq (acquire IcacheLock) (
     seq (upd_inode i (iref_update (\<lambda>r. r + 1))) (
     seq (release IcacheLock) (
     ret i)))"

end
