(* ===== verification/Ext2.thy ===== *)
theory Ext2
  imports Icache
begin

text \<open>
  \<open>kernel/ext2fs.c\<close> and \<open>kernel/ext2fs.h\<close>: the ext2 driver.

  On-disk structures are decoded from the bytes of a block at the offsets the C structures have:
  a group descriptor is 32 bytes, \<open>struct ext2_inode\<close> is 132 bytes (the union \<open>osd2\<close> is padded to
  16), \<open>struct ext2_dir_entry_2\<close> is 264 bytes.  An access through a null pointer, past the end of a
  block, past the end of an array, a division by zero and a shift by a negative amount are the
  outcome \<open>Undef\<close>.  There is one exception: the last inode of a block whose inodes are 128 bytes
  apart extends four bytes past the block; the driver reads these four bytes and stores them back
  unchanged, so they are treated as if they were zero.

  Calls through \<open>ip->iops\<close> are calls of the ext2 routines; a null \<open>iops\<close> is undefined.
\<close>

section \<open>On-disk structures\<close>

abbreviation (input) EXT2_BSIZE :: nat where "EXT2_BSIZE \<equiv> 1024"
abbreviation (input) EXT2_NDIR_BLOCKS :: nat where "EXT2_NDIR_BLOCKS \<equiv> 12"
abbreviation (input) EXT2_IND_BLOCK :: nat where "EXT2_IND_BLOCK \<equiv> 12"
abbreviation (input) EXT2_DIND_BLOCK :: nat where "EXT2_DIND_BLOCK \<equiv> 13"
abbreviation (input) EXT2_TIND_BLOCK :: nat where "EXT2_TIND_BLOCK \<equiv> 14"
abbreviation (input) EXT2_N_BLOCKS :: nat where "EXT2_N_BLOCKS \<equiv> 15"
abbreviation (input) EXT2_INDIRECT :: nat where "EXT2_INDIRECT \<equiv> 256"
abbreviation (input) EXT2_NAME_LEN :: nat where "EXT2_NAME_LEN \<equiv> 255"
abbreviation (input) DINODE_SIZE :: nat where "DINODE_SIZE \<equiv> 132"
abbreviation (input) DE_SIZE :: nat where "DE_SIZE \<equiv> 264"
abbreviation (input) S_IFMT :: u16 where "S_IFMT \<equiv> 0xF000"
abbreviation (input) S_IFREG :: u16 where "S_IFREG \<equiv> 0x8000"
abbreviation (input) S_IFDIR :: u16 where "S_IFDIR \<equiv> 0x4000"

text \<open>The fields of \<open>struct ext2_super_block\<close> that the driver uses.\<close>

definition s_inodes_count :: "block \<Rightarrow> u32" where "s_inodes_count d = get32 d 0"
definition s_blocks_count :: "block \<Rightarrow> u32" where "s_blocks_count d = get32 d 4"
definition s_log_block_size :: "block \<Rightarrow> u32" where "s_log_block_size d = get32 d 24"
definition s_blocks_per_group :: "block \<Rightarrow> u32" where "s_blocks_per_group d = get32 d 32"
definition s_inodes_per_group :: "block \<Rightarrow> u32" where "s_inodes_per_group d = get32 d 40"
definition s_magic :: "block \<Rightarrow> u16" where "s_magic d = get16 d 56"
definition s_inode_size :: "block \<Rightarrow> u16" where "s_inode_size d = get16 d 88"

definition GET_GROUP_NO :: "u32 \<Rightarrow> block \<Rightarrow> nat" where
  "GET_GROUP_NO num b = unat (num - 1) div unat (s_inodes_per_group b)"

definition GET_INODE_INDEX :: "u32 \<Rightarrow> block \<Rightarrow> nat" where
  "GET_INODE_INDEX num b = unat (num - 1) mod unat (s_inodes_per_group b)"

record ext2_group_desc =
  bg_block_bitmap :: u32
  bg_inode_bitmap :: u32
  bg_inode_table :: u32
  bg_free_blocks_count :: u16
  bg_free_inodes_count :: u16
  bg_used_dirs_count :: u16

definition group_desc :: "block \<Rightarrow> nat \<Rightarrow> ext2_group_desc" where
  "group_desc d g = \<lparr>bg_block_bitmap = get32 d (32 * g), bg_inode_bitmap = get32 d (32 * g + 4),
     bg_inode_table = get32 d (32 * g + 8), bg_free_blocks_count = get16 d (32 * g + 12),
     bg_free_inodes_count = get16 d (32 * g + 14), bg_used_dirs_count = get16 d (32 * g + 16)\<rparr>"

text \<open>Copying a group descriptor out of the buffer of block 2.\<close>

definition get_desc :: "nat \<Rightarrow> nat \<Rightarrow> (ext2_group_desc, 'a fs_state_scheme) routine" where
  "get_desc bp gno =
     bind (gets (buf_data bp)) (\<lambda>d.
     if 32 * gno + 32 > EXT2_BSIZE then undef ''bgdesc'' else ret (group_desc d gno))"

definition read_desc :: "u32 \<Rightarrow> nat \<Rightarrow> (ext2_group_desc, 'a fs_state_scheme) routine" where
  "read_desc dev gno =
     bind (bread dev 2) (\<lambda>bp1.
     bind (get_desc bp1 gno) (\<lambda>bgdesc.
     seq (brelse bp1) (
     ret bgdesc)))"

section \<open>Superblock and bitmaps\<close>

definition ext2fs_readsb :: "u32 \<Rightarrow> (unit, 'a fs_state_scheme) routine" where
  "ext2fs_readsb dev =
     bind (bread dev 1) (\<lambda>bp.
     seq (modify (\<lambda>s. s\<lparr>ext2_sb := buf_data bp s\<rparr>)) (
     brelse bp))"

definition ext2fs_bzero :: "u32 \<Rightarrow> u32 \<Rightarrow> (unit, 'a fs_state_scheme) routine" where
  "ext2fs_bzero dev bno =
     bind (bread dev bno) (\<lambda>bp.
     seq (set_data bp (\<lambda>d. memset_blk d 0 1024)) (
     seq (bwrite bp) (
     brelse bp)))"

text \<open>The first clear bit in the order in which \<open>ext2fs_free_block\<close> looks: within a byte from the most
  significant bit down.\<close>

definition free_bit :: "block \<Rightarrow> nat \<Rightarrow> bool" where
  "free_bit d k \<longleftrightarrow> \<not> bit (d (k div 8)) (7 - k mod 8)"

definition first_free :: "block \<Rightarrow> nat \<Rightarrow> nat option" where
  "first_free d n = find (free_bit d) [0..<n * 8]"

text \<open>The scan runs over \<open>s_blocks_per_group * 8\<close> bytes (an \<open>int\<close>); if it has found nothing within the
  1024 bytes of the block it goes on past its end.\<close>

definition ext2fs_free_block :: "nat \<Rightarrow> (u32, 'a fs_state_scheme) routine" where
  "ext2fs_free_block bp =
     bind (gets (\<lambda>s. nat (sint (s_blocks_per_group (ext2_sb s) * 8)))) (\<lambda>n.
     bind (gets (buf_data bp)) (\<lambda>d.
     case first_free d (min n EXT2_BSIZE) of
       Some k \<Rightarrow>
         seq (set_data bp (\<lambda>d. d(k div 8 := set_bit (7 - k mod 8) (d (k div 8))))) (
         ret (of_nat k))
     | None \<Rightarrow> if n > EXT2_BSIZE then undef ''ext2fs_free_block'' else ret (- 1)))"

definition ext2fs_balloc :: "u32 \<Rightarrow> u32 \<Rightarrow> (u32, 'a fs_state_scheme) routine" where
  "ext2fs_balloc dev num =
     bind (gets ext2_sb) (\<lambda>b.
     if s_inodes_per_group b = 0 then undef ''ext2fs_balloc'' else
     bind (read_desc dev (GET_GROUP_NO num b)) (\<lambda>bgdesc.
     bind (bread dev (bg_block_bitmap bgdesc)) (\<lambda>bp2.
     bind (ext2fs_free_block bp2) (\<lambda>fbit.
     if fbit \<noteq> - 1 then
       seq (bwrite bp2) (
       seq (ext2fs_bzero dev (bg_block_bitmap bgdesc + fbit)) (
       seq (brelse bp2) (
       ret (bg_block_bitmap bgdesc + fbit))))
     else
       seq (brelse bp2) (
       panic ''ext2_balloc: out of blocks'')))))"

text \<open>Clearing a bit, least significant bit first; \<open>already\<close> is the message if it is clear.\<close>

definition clear_bit :: "nat \<Rightarrow> int \<Rightarrow> string \<Rightarrow> (unit, 'a fs_state_scheme) routine" where
  "clear_bit bp idx already =
     (if idx < 0 \<or> idx \<ge> 8 * int EXT2_BSIZE then undef ''bitmap index'' else
      bind (gets (buf_data bp)) (\<lambda>d.
      if \<not> bit (d (nat idx div 8)) (nat idx mod 8) then panic already else
      set_data bp (\<lambda>d. d(nat idx div 8 := unset_bit (nat idx mod 8) (d (nat idx div 8))))))"

definition ext2fs_bfree :: "u32 \<Rightarrow> u32 \<Rightarrow> (unit, 'a fs_state_scheme) routine" where
  "ext2fs_bfree dev b =
     bind (gets ext2_sb) (\<lambda>es.
     if s_inodes_per_group es = 0 then undef ''ext2fs_bfree'' else
     bind (bread dev 2) (\<lambda>bp1.
     bind (get_desc bp1 (GET_GROUP_NO b es)) (\<lambda>bgdesc.
     bind (bread dev (bg_block_bitmap bgdesc)) (\<lambda>bp2.
     seq (clear_bit bp2 (sint (of_nat (GET_INODE_INDEX b es) - bg_block_bitmap bgdesc)) ''ext2fs_bfree: block already free'') (
     seq (bwrite bp2) (
     seq (brelse bp2) (
     brelse bp1)))))))"

definition ext2fs_iinit :: "u32 \<Rightarrow> (unit, 'a fs_state_scheme) routine" where
  "ext2fs_iinit dev =
     seq (ext2fs_readsb dev) (
     bind (gets ext2_sb) (\<lambda>b.
     if unat (s_log_block_size b) \<ge> 21 then undef ''ext2fs_iinit'' else
     seq (printf (str ''ext2_sb: magic_number %x size %d nblocks %d ninodes %d inodes_per_group %d inode_size %d'' @ [10])
       [Int32 (ucast (s_magic b)), Int32 (push_bit (unat (s_log_block_size b)) 1024), Int32 (s_blocks_count b),
        Int32 (s_inodes_count b), Int32 (s_inodes_per_group b), Int32 (ucast (s_inode_size b))]) skip))"

section \<open>Inodes\<close>

text \<open>\<open>memset(din, 0, ...)\<close> and the mode of a new inode.\<close>

definition fresh_dinode :: "u16 \<Rightarrow> nat \<Rightarrow> block \<Rightarrow> block" where
  "fresh_dinode ty off d =
     (let d' = blk_put d off (replicate DINODE_SIZE 0)
      in if ty = T_DIR then put16 d' off S_IFDIR else if ty = T_FILE then put16 d' off S_IFREG else d')"

definition ialloc_group :: "u32 \<Rightarrow> u16 \<Rightarrow> nat \<Rightarrow> (nat option, 'a fs_state_scheme) routine" where
  "ialloc_group dev ty i =
     bind (read_desc dev i) (\<lambda>bgdesc.
     bind (bread dev (bg_inode_bitmap bgdesc)) (\<lambda>bp2.
     bind (ext2fs_free_block bp2) (\<lambda>fbit.
     if fbit = - 1 then seq (brelse bp2) (ret None) else
     bind (bread dev (bg_inode_table bgdesc + fbit div of_nat (EXT2_BSIZE div DINODE_SIZE))) (\<lambda>bp3.
     seq (set_data bp3 (fresh_dinode ty (unat fbit mod (EXT2_BSIZE div DINODE_SIZE) * DINODE_SIZE))) (
     seq (bwrite bp3) (
     seq (bwrite bp2) (
     seq (brelse bp3) (
     seq (brelse bp2) (
     bind (gets (\<lambda>s. of_nat i * s_inodes_per_group (ext2_sb s) + fbit + 1)) (\<lambda>num.
     bind (iget dev num) (\<lambda>ip.
     ret (Some ip)))))))))))) "

definition ext2fs_ialloc :: "u32 \<Rightarrow> u16 \<Rightarrow> (nat, 'a fs_state_scheme) routine" where
  "ext2fs_ialloc dev ty =
     bind (gets ext2_sb) (\<lambda>b.
     if s_blocks_per_group b = 0 then undef ''ext2fs_ialloc'' else
     bind (for_until [0..<Suc (unat (s_blocks_count b div s_blocks_per_group b))] (ialloc_group dev ty)) (\<lambda>r.
     case r of Some ip \<Rightarrow> ret ip | None \<Rightarrow> panic ''ext2_ialloc: no inodes''))"

text \<open>Where inode \<open>num\<close> is: the block and the byte offset in it.\<close>

definition inode_pos :: "u32 \<Rightarrow> u32 \<Rightarrow> (u32 \<times> nat, 'a fs_state_scheme) routine" where
  "inode_pos dev num =
     bind (gets ext2_sb) (\<lambda>b.
     if s_inodes_per_group b = 0 \<or> s_inode_size b = 0 \<or> unat (s_inode_size b) > EXT2_BSIZE then undef ''inode_pos'' else
     let ioff = GET_INODE_INDEX num b; isz = unat (s_inode_size b) in
     bind (read_desc dev (GET_GROUP_NO num b)) (\<lambda>bgdesc.
     ret (bg_inode_table bgdesc + of_nat (ioff div (EXT2_BSIZE div isz)), ioff mod (EXT2_BSIZE div isz) * isz)))"

fun put_words :: "nat \<Rightarrow> nat \<Rightarrow> (nat \<Rightarrow> u32) \<Rightarrow> block \<Rightarrow> block" where
  "put_words off 0 f d = d"
| "put_words off (Suc n) f d = put32 (put_words off n f d) (off + 4 * n) (f n)"

text \<open>The assignments of \<open>ext2fs_iupdate\<close> to the local copy \<open>din\<close>.\<close>

definition fill_dinode :: "inode \<Rightarrow> (nat \<Rightarrow> u32) \<Rightarrow> block \<Rightarrow> block" where
  "fill_dinode ip ad din =
     (let din = (if itype ip = T_DIR then put16 din 0 S_IFDIR else din);
          din = (if itype ip = T_FILE then put16 din 0 S_IFREG else din);
          din = put16 din 26 (inlink ip);
          din = put32 din 4 (isize ip);
          din = put32 din 20 0;
          din = put32 din 112 0;
          din = put32 din 104 0;
          din = put32 din 32 0;
          din = put32 din 100 0;
          din = put16 din 24 0;
          din = put32 din 16 0;
          din = put16 din 2 0;
          din = put32 din 8 0
      in put_words 40 EXT2_N_BLOCKS ad din)"

definition ip_ad :: "nat \<Rightarrow> (nat, 'a fs_state_scheme) routine" where
  "ip_ad i = bind (gets (\<lambda>s. iext (icache s i))) (\<lambda>k. case k of None \<Rightarrow> undef ''ext_addrs'' | Some k \<Rightarrow> ret k)"

definition ext2fs_iupdate :: "nat \<Rightarrow> (unit, 'a fs_state_scheme) routine" where
  "ext2fs_iupdate i =
     bind (gets (\<lambda>s. icache s i)) (\<lambda>ip.
     bind (inode_pos (idev ip) (inum ip)) (\<lambda>(bno, off).
     bind (bread (idev ip) bno) (\<lambda>bp1.
     bind (gets (\<lambda>s. \<lambda>k. buf_data bp1 s (off + k))) (\<lambda>din.
     bind (ip_ad i) (\<lambda>k.
     bind (gets (\<lambda>s. aaddrs (ext2fs_addrs s k))) (\<lambda>ad.
     seq (set_data bp1 (\<lambda>d. blk_put d off (map (fill_dinode ip ad din) [0..<DINODE_SIZE]))) (
     seq (bwrite bp1) (
     brelse bp1))))))))"

definition S_ISDIR :: "u16 \<Rightarrow> bool" where
  "S_ISDIR m \<longleftrightarrow> m AND S_IFMT = S_IFDIR"

text \<open>What \<open>ext2fs_ilock\<close> copies out of \<open>din\<close>.\<close>

definition load_dinode :: "block \<Rightarrow> inode \<Rightarrow> inode" where
  "load_dinode din ip = ip\<lparr>itype := (if S_ISDIR (get16 din 0) then T_DIR else T_FILE), imajor := 0, iminor := 0,
     inlink := get16 din 26, isize := get32 din 4, iiops := True\<rparr>"

definition ext2fs_ilock :: "nat option \<Rightarrow> (unit, 'a fs_state_scheme) routine" where
  "ext2fs_ilock p =
     (case p of None \<Rightarrow> panic ''ext2fs_ilock'' | Some i \<Rightarrow>
      bind (gets (\<lambda>s. iref (icache s i) < 1)) (\<lambda>dead.
      if dead then panic ''ext2fs_ilock'' else
      seq (acquiresleep (SlInode i)) (
      bind (gets (\<lambda>s. icache s i)) (\<lambda>ip.
      if ivalid ip then skip else
      bind (inode_pos (idev ip) (inum ip)) (\<lambda>(bno, off).
      bind (bread (idev ip) bno) (\<lambda>bp1.
      bind (gets (\<lambda>s. \<lambda>k. buf_data bp1 s (off + k))) (\<lambda>din.
      seq (brelse bp1) (
      seq (upd_inode i (load_dinode din)) (
      bind (ip_ad i) (\<lambda>k.
      seq (modify (\<lambda>s. s\<lparr>ext2fs_addrs := (ext2fs_addrs s)(k := (ext2fs_addrs s k)\<lparr>aaddrs :=
             (\<lambda>j. if j < EXT2_N_BLOCKS then get32 din (40 + 4 * j) else aaddrs (ext2fs_addrs s k) j)\<rparr>)\<rparr>)) (
      seq (upd_inode i (ivalid_update (\<lambda>_. True))) (
      bind (gets (\<lambda>s. itype (icache s i) = 0)) (\<lambda>none.
      if none then panic ''ext2fs_ilock: no type'' else skip)))))))))))))"

definition ext2fs_iunlock :: "nat option \<Rightarrow> (unit, 'a fs_state_scheme) routine" where
  "ext2fs_iunlock p =
     (case p of None \<Rightarrow> panic ''ext2fs_iunlock'' | Some i \<Rightarrow>
      bind (holdingsleep (SlInode i)) (\<lambda>h.
      bind (gets (\<lambda>s. iref (icache s i))) (\<lambda>r.
      if \<not> h \<or> r < 1 then panic ''ext2fs_iunlock'' else
      releasesleep (SlInode i))))"

definition ext2fs_ifree :: "nat \<Rightarrow> (unit, 'a fs_state_scheme) routine" where
  "ext2fs_ifree i =
     bind (gets (\<lambda>s. icache s i)) (\<lambda>ip.
     bind (gets ext2_sb) (\<lambda>b.
     if s_inodes_per_group b = 0 then undef ''ext2fs_ifree'' else
     bind (read_desc (idev ip) (GET_GROUP_NO (inum ip) b)) (\<lambda>bgdesc.
     bind (bread (idev ip) (bg_inode_bitmap bgdesc)) (\<lambda>bp2.
     seq (clear_bit bp2 (sint (of_nat (GET_INODE_INDEX (inum ip) b) :: u32)) ''ext2fs_ifree: inode already free'') (
     seq (bwrite bp2) (
     brelse bp2))))))"

section \<open>Block maps\<close>

definition entry :: "nat \<Rightarrow> nat \<Rightarrow> (u32, 'a fs_state_scheme) routine" where
  "entry bp k = (if k \<ge> EXT2_INDIRECT then undef ''indirect block'' else gets (\<lambda>s. get32 (buf_data bp s) (4 * k)))"

definition set_entry :: "nat \<Rightarrow> nat \<Rightarrow> u32 \<Rightarrow> (unit, 'a fs_state_scheme) routine" where
  "set_entry bp k v = set_data bp (\<lambda>d. put32 d (4 * k) v)"

definition set_addr :: "nat \<Rightarrow> nat \<Rightarrow> u32 \<Rightarrow> (unit, 'a fs_state_scheme) routine" where
  "set_addr ad k v = modify (\<lambda>s. s\<lparr>ext2fs_addrs :=
     (ext2fs_addrs s)(ad := (ext2fs_addrs s ad)\<lparr>aaddrs := (aaddrs (ext2fs_addrs s ad))(k := v)\<rparr>)\<rparr>)"

text \<open>\<open>if ((addr = ad->addrs[k]) == 0) ad->addrs[k] = addr = ext2fs_balloc(...)\<close>, and the same for an
  entry of an indirect block.\<close>

definition addr_or_alloc :: "nat \<Rightarrow> nat \<Rightarrow> nat \<Rightarrow> (u32, 'a fs_state_scheme) routine" where
  "addr_or_alloc i ad k =
     bind (gets (\<lambda>s. aaddrs (ext2fs_addrs s ad) k)) (\<lambda>addr.
     if addr \<noteq> 0 then ret addr else
     bind (gets (\<lambda>s. icache s i)) (\<lambda>ip.
     bind (ext2fs_balloc (idev ip) (inum ip)) (\<lambda>addr.
     seq (set_addr ad k addr) (
     ret addr))))"

definition entry_or_alloc :: "nat \<Rightarrow> nat \<Rightarrow> nat \<Rightarrow> (u32, 'a fs_state_scheme) routine" where
  "entry_or_alloc i bp k =
     bind (entry bp k) (\<lambda>addr.
     if addr \<noteq> 0 then ret addr else
     bind (gets (\<lambda>s. icache s i)) (\<lambda>ip.
     bind (ext2fs_balloc (idev ip) (inum ip)) (\<lambda>addr.
     seq (set_entry bp k addr) (
     ret addr))))"

text \<open>\<open>EXT2_DINDIRECT\<close> is \<open>256*256\<close> without parentheses: \<open>bn / EXT2_DINDIRECT\<close> is \<open>(bn / 256) * 256\<close> and
  \<open>bn % EXT2_DINDIRECT\<close> is \<open>(bn % 256) * 256\<close>.\<close>

definition ext2fs_bmap :: "nat \<Rightarrow> nat \<Rightarrow> (u32, 'a fs_state_scheme) routine" where
  "ext2fs_bmap i bn =
     bind (ip_ad i) (\<lambda>ad.
     bind (gets (\<lambda>s. idev (icache s i))) (\<lambda>dev.
     if bn < 12 then addr_or_alloc i ad bn
     else let bn = bn - 12 in
     if bn < 256 then
       bind (addr_or_alloc i ad EXT2_IND_BLOCK) (\<lambda>addr.
       bind (bread dev addr) (\<lambda>bp.
       bind (entry_or_alloc i bp bn) (\<lambda>addr.
       seq (brelse bp) (ret addr))))
     else let bn = bn - 256 in
     if bn < 256 * 256 then
       bind (addr_or_alloc i ad EXT2_DIND_BLOCK) (\<lambda>addr.
       bind (bread dev addr) (\<lambda>bp.
       bind (entry_or_alloc i bp (bn div 256)) (\<lambda>addr.
       bind (bread dev addr) (\<lambda>bp1.
       bind (entry_or_alloc i bp1 (bn mod 256)) (\<lambda>addr.
       seq (brelse bp) (
       seq (brelse bp1) (
       ret addr)))))))
     else let bn = bn - 256 * 256 in
     if bn < 256 * 256 * 256 then
       bind (addr_or_alloc i ad EXT2_TIND_BLOCK) (\<lambda>addr.
       bind (bread dev addr) (\<lambda>bp.
       bind (entry_or_alloc i bp (bn div 256 * 256)) (\<lambda>addr.
       bind (bread dev addr) (\<lambda>bp1.
       bind (entry_or_alloc i bp1 (bn mod 256 * 256 div 256)) (\<lambda>addr.
       bind (bread dev addr) (\<lambda>bp2.
       bind (entry_or_alloc i bp2 (bn mod 256)) (\<lambda>addr.
       seq (brelse bp) (
       seq (brelse bp1) (
       seq (brelse bp2) (
       ret addr))))))))))
     else panic ''ext2_bmap: block number out of range''))"

text \<open>Freeing what an indirect block of the given depth points to, as the nested loops of
  \<open>ext2fs_itrunc\<close> do.\<close>

fun trunc_entries :: "nat \<Rightarrow> u32 \<Rightarrow> u32 \<Rightarrow> (unit, 'a fs_state_scheme) routine" where
  "trunc_entries depth dev addr =
     bind (bread dev addr) (\<lambda>bp.
     seq (for_each [0..<EXT2_INDIRECT] (\<lambda>k.
       bind (entry bp k) (\<lambda>v.
       if v = 0 then skip else
       seq (case depth of 0 \<Rightarrow> skip | Suc d \<Rightarrow> trunc_entries d dev v) (
       seq (ext2fs_bfree dev v) (
       set_entry bp k 0))))) (
     brelse bp))"

declare trunc_entries.simps [simp del]

definition trunc_root :: "nat \<Rightarrow> u32 \<Rightarrow> nat \<Rightarrow> nat \<Rightarrow> (unit, 'a fs_state_scheme) routine" where
  "trunc_root ad dev k depth =
     bind (gets (\<lambda>s. aaddrs (ext2fs_addrs s ad) k)) (\<lambda>addr.
     if addr = 0 then skip else
     seq (trunc_entries depth dev addr) (
     seq (ext2fs_bfree dev addr) (
     set_addr ad k 0)))"

definition iops_iupdate :: "nat \<Rightarrow> (unit, 'a fs_state_scheme) routine" where
  "iops_iupdate i = bind (gets (\<lambda>s. iiops (icache s i))) (\<lambda>set. if set then ext2fs_iupdate i else undef ''iops'')"

definition ext2fs_itrunc :: "nat \<Rightarrow> (unit, 'a fs_state_scheme) routine" where
  "ext2fs_itrunc i =
     bind (ip_ad i) (\<lambda>ad.
     bind (gets (\<lambda>s. idev (icache s i))) (\<lambda>dev.
     seq (for_each [0..<EXT2_NDIR_BLOCKS] (\<lambda>k.
       bind (gets (\<lambda>s. aaddrs (ext2fs_addrs s ad) k)) (\<lambda>addr.
       if addr = 0 then skip else
       seq (ext2fs_bfree dev addr) (
       set_addr ad k 0)))) (
     seq (trunc_root ad dev EXT2_IND_BLOCK 0) (
     seq (trunc_root ad dev EXT2_DIND_BLOCK 1) (
     seq (trunc_root ad dev EXT2_TIND_BLOCK 2) (
     seq (upd_inode i (isize_update (\<lambda>_. 0))) (
     iops_iupdate i)))))))"

text \<open>What \<open>ext2fs_iput\<close> does with the last reference to an inode without links.\<close>

definition iput_free :: "nat \<Rightarrow> (unit, 'a fs_state_scheme) routine" where
  "iput_free i =
     seq (ext2fs_ifree i) (
     seq (ext2fs_itrunc i) (
     seq (upd_inode i (itype_update (\<lambda>_. 0))) (
     seq (iops_iupdate i) (
     upd_inode i (\<lambda>x. x\<lparr>ivalid := False, iiops := False, iext := None\<rparr>)))))"

definition ext2fs_iput :: "nat \<Rightarrow> (unit, 'a fs_state_scheme) routine" where
  "ext2fs_iput i =
     seq (acquiresleep (SlInode i)) (
     bind (gets (\<lambda>s. iext (icache s i))) (\<lambda>ad.
     bind (gets (\<lambda>s. icache s i)) (\<lambda>ip.
     seq (only_if (ivalid ip \<and> inlink ip = 0) (
       seq (acquire IcacheLock) (
       bind (gets (\<lambda>s. iref (icache s i))) (\<lambda>r.
       seq (release IcacheLock) (
       only_if (r = 1) (iput_free i)))))) (
     seq (releasesleep (SlInode i)) (
     seq (acquire IcacheLock) (
     seq (upd_inode i (iref_update (\<lambda>r. r - 1))) (
     bind (gets (\<lambda>s. iref (icache s i))) (\<lambda>r.
     seq (only_if (r = 0) (
       case ad of None \<Rightarrow> undef ''ext2fs_iput'' | Some k \<Rightarrow>
       seq (modify (\<lambda>s. s\<lparr>ext2fs_addrs := (ext2fs_addrs s)(k := (ext2fs_addrs s k)\<lparr>abusy := False\<rparr>)\<rparr>)) (
       upd_inode i (iext_update (\<lambda>_. None))))) (
     release IcacheLock)))))))))"

definition ext2fs_iunlockput :: "nat \<Rightarrow> (unit, 'a fs_state_scheme) routine" where
  "ext2fs_iunlockput i =
     bind (gets (\<lambda>s. iiops (icache s i))) (\<lambda>set.
     if \<not> set then undef ''iops'' else
     seq (ext2fs_iunlock (Some i)) (
     bind (gets (\<lambda>s. iiops (icache s i))) (\<lambda>set.
     if \<not> set then undef ''iops'' else ext2fs_iput i)))"

text \<open>\<open>struct stat\<close> as the bytes copied to the user: \<open>dev\<close>, \<open>ino\<close>, \<open>type\<close>, \<open>nlink\<close>, padding, \<open>size\<close>.\<close>

record stat =
  st_dev :: u32
  st_ino :: u32
  st_type :: u16
  st_nlink :: u16
  st_size :: u64

definition ext2fs_stati :: "nat \<Rightarrow> (stat, 'a fs_state_scheme) routine" where
  "ext2fs_stati i = gets (\<lambda>s. let ip = icache s i in
     \<lparr>st_dev = idev ip, st_ino = inum ip, st_type = itype ip, st_nlink = inlink ip, st_size = ucast (isize ip)\<rparr>)"

section \<open>Reading and writing\<close>

text \<open>The loops carry the offset and the number of bytes left; \<open>off + n\<close> does not wrap when they are
  entered.\<close>

definition chunk :: "nat \<Rightarrow> nat \<Rightarrow> nat" where
  "chunk off rem = min rem (EXT2_BSIZE - off mod EXT2_BSIZE)"

lemma chunk_pos: "0 < rem \<Longrightarrow> 0 < chunk off rem"
  by (simp add: chunk_def)

function ext2fs_readi_loop :: "nat \<Rightarrow> copy_dst \<Rightarrow> nat \<Rightarrow> nat \<Rightarrow> (bool, 'a fs_state_scheme) routine" where
  "ext2fs_readi_loop i dst off rem =
     (if rem = 0 then ret True else
      bind (ext2fs_bmap i (off div EXT2_BSIZE)) (\<lambda>addr.
      bind (gets (\<lambda>s. idev (icache s i))) (\<lambda>dev.
      bind (bread dev addr) (\<lambda>bp.
      bind (gets (\<lambda>s. blk_get (buf_data bp s) (off mod EXT2_BSIZE) (chunk off rem))) (\<lambda>bs.
      bind (either_copyout dst bs) (\<lambda>r.
      seq (brelse bp) (
      if r = - 1 then ret False else
      ext2fs_readi_loop i (dst_add dst (chunk off rem)) (off + chunk off rem) (rem - chunk off rem))))))))"
  by pat_completeness auto
termination by (relation "measure (\<lambda>(_, _, _, rem). rem)") (simp_all add: chunk_pos)

declare ext2fs_readi_loop.simps [simp del]

definition ext2fs_readi :: "nat \<Rightarrow> copy_dst \<Rightarrow> u32 \<Rightarrow> u32 \<Rightarrow> (int, 'a fs_state_scheme) routine" where
  "ext2fs_readi i dst off n =
     bind (gets (\<lambda>s. icache s i)) (\<lambda>ip.
     if itype ip = T_DEVICE then dev_read (sint (imajor ip)) dst (sint n)
     else if off > isize ip \<or> off + n < off then ret (- 1) else
     let n = (if off + n > isize ip then isize ip - off else n) in
     bind (ext2fs_readi_loop i dst (unat off) (unat n)) (\<lambda>ok.
     ret (if ok then sint n else - 1)))"

text \<open>The write loop yields the offset it got to.  What a failed copy has stored in the buffer stays
  there, unwritten.\<close>

function ext2fs_writei_loop :: "nat \<Rightarrow> copy_src \<Rightarrow> nat \<Rightarrow> nat \<Rightarrow> (nat, 'a fs_state_scheme) routine" where
  "ext2fs_writei_loop i src off rem =
     (if rem = 0 then ret off else
      bind (ext2fs_bmap i (off div EXT2_BSIZE)) (\<lambda>addr.
      bind (gets (\<lambda>s. idev (icache s i))) (\<lambda>dev.
      bind (bread dev addr) (\<lambda>bp.
      bind (either_copyin src (chunk off rem)) (\<lambda>(bs, r).
      seq (set_data bp (\<lambda>d. blk_put d (off mod EXT2_BSIZE) bs)) (
      if r = - 1 then seq (brelse bp) (ret off) else
      seq (bwrite bp) (
      seq (brelse bp) (
      ext2fs_writei_loop i (src_add src (chunk off rem)) (off + chunk off rem) (rem - chunk off rem)))))))))"
  by pat_completeness auto
termination by (relation "measure (\<lambda>(_, _, _, rem). rem)") (simp_all add: chunk_pos)

declare ext2fs_writei_loop.simps [simp del]

text \<open>\<open>EXT2_MAXFILE * EXT2_BSIZE\<close> is larger than any \<open>uint\<close>.\<close>

definition ext2fs_writei :: "nat \<Rightarrow> copy_src \<Rightarrow> u32 \<Rightarrow> u32 \<Rightarrow> (int, 'a fs_state_scheme) routine" where
  "ext2fs_writei i src off n =
     bind (gets (\<lambda>s. icache s i)) (\<lambda>ip.
     if itype ip = T_DEVICE then dev_write (sint (imajor ip)) src (sint n)
     else if off > isize ip \<or> off + n < off then ret (- 1)
     else if unat (off + n) > (12 + 256 + 256 * 256 + 256 * 256 * 256) * EXT2_BSIZE then ret (- 1) else
     bind (ext2fs_writei_loop i src (unat off) (unat n)) (\<lambda>off'.
     bind (gets (\<lambda>s. isize (icache s i))) (\<lambda>len.
     seq (only_if (n > 0 \<and> of_nat off' > len) (
       seq (upd_inode i (isize_update (\<lambda>_. of_nat off'))) (
       iops_iupdate i))) (
     ret (sint n)))))"

section \<open>Directories\<close>

definition ext2fs_namecmp :: "cstring \<Rightarrow> cstring \<Rightarrow> int" where
  "ext2fs_namecmp s t = strncmp s t EXT2_NAME_LEN"

text \<open>A file name comes in an array of \<open>DIRSIZ\<close> bytes, without a NUL if it is that long or longer: comparing
  it with a name that it is a prefix of runs past the end of the array.\<close>

definition overruns :: "cstring \<Rightarrow> cstring \<Rightarrow> bool" where
  "overruns name t \<longleftrightarrow> (\<forall>k<DIRSIZ. name k \<noteq> 0 \<and> name k = t k)"

definition de_name :: "block \<Rightarrow> cstring" where
  "de_name de = (strncpy (\<lambda>_. 0) (\<lambda>k. de (8 + k)) (uint (de 6)))(unat (de 6) := 0)"

definition iops_readi :: "nat \<Rightarrow> copy_dst \<Rightarrow> u32 \<Rightarrow> u32 \<Rightarrow> (int, 'a fs_state_scheme) routine" where
  "iops_readi i dst off n =
     bind (gets (\<lambda>s. iiops (icache s i))) (\<lambda>set. if set then ext2fs_readi i dst off n else undef ''iops'')"

text \<open>One step of the search for each unit of fuel; a record length of 0 repeats the same step for ever.\<close>

fun dirlookup_loop :: "nat \<Rightarrow> nat \<Rightarrow> cstring \<Rightarrow> u32 \<Rightarrow> ((nat \<times> u32) option, 'a fs_state_scheme) routine" where
  "dirlookup_loop fuel dp name off =
     bind (gets (\<lambda>s. isize (icache s dp))) (\<lambda>len.
     if \<not> off < len then ret None else
     case fuel of 0 \<Rightarrow> fail Loops | Suc fuel' \<Rightarrow>
     bind (iops_readi dp (ToLocal 0) off (of_nat DE_SIZE)) (\<lambda>r.
     if r \<noteq> int DE_SIZE then panic ''ext2fs_dirlookup: read error'' else
     bind (gets klocal) (\<lambda>de.
     if get32 de 0 = 0 then dirlookup_loop fuel' dp name (off + ucast (get16 de 4))
     else if overruns name (de_name de) then undef ''ext2fs_dirlookup''
     else if ext2fs_namecmp name (de_name de) = 0 then
       bind (gets (\<lambda>s. idev (icache s dp))) (\<lambda>dev.
       bind (iget dev (get32 de 0)) (\<lambda>ip.
       ret (Some (ip, off))))
     else dirlookup_loop fuel' dp name (off + ucast (get16 de 4)))))"

declare dirlookup_loop.simps [simp del]

text \<open>The fuel is the size of the directory: with positive record lengths the loop makes no more steps.\<close>

definition ext2fs_dirlookup :: "nat \<Rightarrow> cstring \<Rightarrow> ((nat \<times> u32) option, 'a fs_state_scheme) routine" where
  "ext2fs_dirlookup dp name =
     bind (gets (\<lambda>s. isize (icache s dp))) (\<lambda>len. dirlookup_loop (unat len) dp name 0)"

fun dirlink_scan :: "nat \<Rightarrow> nat \<Rightarrow> nat \<Rightarrow> (nat, 'a fs_state_scheme) routine" where
  "dirlink_scan fuel dp off =
     bind (gets (\<lambda>s. sint (isize (icache s dp)))) (\<lambda>len.
     if \<not> int off < len then ret off else
     case fuel of 0 \<Rightarrow> fail Loops | Suc fuel' \<Rightarrow>
     bind (iops_readi dp (ToLocal 0) (of_nat off) (of_nat DE_SIZE)) (\<lambda>r.
     if r \<noteq> int DE_SIZE then panic ''ext2fs_dirlink read'' else
     bind (gets klocal) (\<lambda>de.
     if get32 de 0 = 0 then ret off else dirlink_scan fuel' dp (off + DE_SIZE))))"

declare dirlink_scan.simps [simp del]

text \<open>The new entry: the 264 bytes of \<open>de\<close>, and behind them whatever the stack holds, since \<open>rec_len\<close>
  bytes are written.\<close>

definition new_entry :: "u32 \<Rightarrow> cstring \<Rightarrow> nat \<Rightarrow> (nat \<Rightarrow> byte) \<Rightarrow> byte list" where
  "new_entry num name len junk =
     (let de = (\<lambda>_. 0);
          de = blk_put de 8 (map (strncpy (\<lambda>_. 0) name (int EXT2_NAME_LEN)) [0..<EXT2_NAME_LEN]);
          de = put32 de 0 num;
          de = put16 de 4 (of_nat EXT2_BSIZE);
          de = de(6 := of_nat len)
      in map de [0..<DE_SIZE] @ map junk [0..<EXT2_BSIZE - DE_SIZE])"

definition ext2fs_dirlink :: "nat \<Rightarrow> cstring \<Rightarrow> u32 \<Rightarrow> (int, 'a fs_state_scheme) routine" where
  "ext2fs_dirlink dp name num =
     bind (ext2fs_dirlookup dp name) (\<lambda>hit.
     case hit of
       Some (ip, _) \<Rightarrow>
         bind (gets (\<lambda>s. iiops (icache s ip))) (\<lambda>set.
         if set then seq (ext2fs_iput ip) (ret (- 1)) else undef ''iops'')
     | None \<Rightarrow>
         bind (gets (\<lambda>s. unat (isize (icache s dp)))) (\<lambda>fuel.
         bind (dirlink_scan fuel dp 0) (\<lambda>off.
         if \<forall>k<DIRSIZ. name k \<noteq> 0 then undef ''ext2fs_dirlink'' else
         bind (gets kstack_junk) (\<lambda>junk.
         case strlen name of None \<Rightarrow> fail Loops | Some len \<Rightarrow>
         seq (upd_inode dp (isize_update (\<lambda>_. of_nat (off + EXT2_BSIZE)))) (
         seq (iops_iupdate dp) (
         seq (ext2fs_writei dp (FromKernel (new_entry num name len junk)) (of_nat off) (of_nat EXT2_BSIZE)) (
         ret 0)))))))"

end
