(* ===== verification/Fs.thy ===== *)
theory Fs
  imports Ext2
begin

text \<open>
  \<open>kernel/fs.c\<close>: the file system layer above the two on-disk formats.  \<open>ilock\<close>, \<open>iput\<close>, \<open>iupdate\<close>,
  \<open>stati\<close>, \<open>readi\<close>, \<open>writei\<close>, \<open>dirlookup\<close> and \<open>dirlink\<close> go to the ext2 driver when the inode has its
  operations; otherwise they work on the old format, through the log.  \<open>itrunc\<close>, \<open>bmap\<close>, \<open>ialloc\<close> and
  \<open>balloc\<close> exist for the old format only.

  A path is the list of its characters, without the NUL; a path element is an array of \<open>DIRSIZ\<close> bytes.
\<close>

section \<open>Superblock and blocks\<close>

definition superblock_of :: "block \<Rightarrow> superblock" where
  "superblock_of d = \<lparr>sb_magic = get32 d 0, sb_size = get32 d 4, sb_nblocks = get32 d 8, sb_ninodes = get32 d 12,
     sb_nlog = get32 d 16, sb_logstart = get32 d 20, sb_inodestart = get32 d 24, sb_bmapstart = get32 d 28\<rparr>"

definition readsb :: "u32 \<Rightarrow> (unit, 'a fs_state_scheme) routine" where
  "readsb dev =
     bind (bread dev 1) (\<lambda>bp.
     seq (modify (\<lambda>s. s\<lparr>sb := superblock_of (buf_data bp s)\<rparr>)) (
     brelse bp))"

abbreviation (input) BPB :: nat where "BPB \<equiv> 8192"
abbreviation (input) IPB :: nat where "IPB \<equiv> 16"
abbreviation (input) FSMAGIC :: u32 where "FSMAGIC \<equiv> 0x10203040"

definition BBLOCK :: "u32 \<Rightarrow> superblock \<Rightarrow> u32" where
  "BBLOCK b sblk = b div of_nat BPB + sb_bmapstart sblk"

definition IBLOCK :: "u32 \<Rightarrow> superblock \<Rightarrow> u32" where
  "IBLOCK i sblk = i div of_nat IPB + sb_inodestart sblk"

definition bzero :: "u32 \<Rightarrow> u32 \<Rightarrow> (unit, 'a fs_state_scheme) routine" where
  "bzero dev bno =
     bind (bread dev bno) (\<lambda>bp.
     seq (set_data bp (\<lambda>d. memset_blk d 0 1024)) (
     seq (log_write bp) (
     brelse bp)))"

text \<open>One bitmap block: the first clear bit below \<open>lim\<close>, least significant bit first.\<close>

definition first_clear :: "block \<Rightarrow> nat \<Rightarrow> nat option" where
  "first_clear d lim = find (\<lambda>bi. \<not> bit (d (bi div 8)) (bi mod 8)) [0..<lim]"

text \<open>\<open>b\<close> is an \<open>int\<close>; stepping it past \<open>2 ^ 31\<close> is undefined.\<close>

definition balloc_block :: "u32 \<Rightarrow> nat \<Rightarrow> (u32 option, 'a fs_state_scheme) routine" where
  "balloc_block dev b =
     (if b \<ge> 2 ^ 31 then undef ''balloc'' else
      bind (gets sb) (\<lambda>sblk.
      bind (bread dev (BBLOCK (of_nat b) sblk)) (\<lambda>bp.
      bind (gets (buf_data bp)) (\<lambda>d.
      case first_clear d (min BPB (unat (sb_size sblk) - b)) of
        Some bi \<Rightarrow>
          seq (set_data bp (\<lambda>d. d(bi div 8 := set_bit (bi mod 8) (d (bi div 8))))) (
          seq (log_write bp) (
          seq (brelse bp) (
          seq (bzero dev (of_nat (b + bi))) (
          ret (Some (of_nat (b + bi)))))))
      | None \<Rightarrow> seq (brelse bp) (ret None)))))"

definition balloc :: "u32 \<Rightarrow> (u32, 'a fs_state_scheme) routine" where
  "balloc dev =
     bind (gets (\<lambda>s. unat (sb_size (sb s)))) (\<lambda>n.
     bind (for_until (map (\<lambda>k. k * BPB) [0..<(n + BPB - 1) div BPB]) (balloc_block dev)) (\<lambda>r.
     case r of
       Some b \<Rightarrow> ret b
     | None \<Rightarrow> seq (printf (str ''balloc: out of blocks'' @ [10]) []) (ret 0)))"

definition bfree :: "u32 \<Rightarrow> u32 \<Rightarrow> (unit, 'a fs_state_scheme) routine" where
  "bfree dev b =
     bind (gets sb) (\<lambda>sblk.
     bind (bread dev (BBLOCK b sblk)) (\<lambda>bp.
     bind (gets (buf_data bp)) (\<lambda>d.
     let bi = unat b mod BPB in
     if \<not> bit (d (bi div 8)) (bi mod 8) then panic ''freeing free block'' else
     seq (set_data bp (\<lambda>d. d(bi div 8 := unset_bit (bi mod 8) (d (bi div 8))))) (
     seq (log_write bp) (
     brelse bp)))))"

section \<open>Inodes\<close>

text \<open>The on-disk inode of the old format is 64 bytes.\<close>

definition dinode_off :: "u32 \<Rightarrow> nat" where
  "dinode_off num = unat num mod IPB * 64"

definition ialloc_at :: "u32 \<Rightarrow> u16 \<Rightarrow> nat \<Rightarrow> (nat option, 'a fs_state_scheme) routine" where
  "ialloc_at dev ty num =
     bind (gets (\<lambda>s. IBLOCK (of_nat num) (sb s))) (\<lambda>bno.
     bind (bread dev bno) (\<lambda>bp.
     bind (gets (\<lambda>s. get16 (buf_data bp s) (dinode_off (of_nat num)))) (\<lambda>t.
     if t = 0 then
       seq (set_data bp (\<lambda>d. put16 (blk_put d (dinode_off (of_nat num)) (replicate 64 0)) (dinode_off (of_nat num)) ty)) (
       seq (log_write bp) (
       seq (brelse bp) (
       bind (iget dev (of_nat num)) (\<lambda>ip. ret (Some ip)))))
     else seq (brelse bp) (ret None))))"

definition ialloc :: "u32 \<Rightarrow> u16 \<Rightarrow> (nat option, 'a fs_state_scheme) routine" where
  "ialloc dev ty =
     bind (gets (\<lambda>s. unat (sb_ninodes (sb s)))) (\<lambda>n.
     bind (for_until [1..<n] (ialloc_at dev ty)) (\<lambda>r.
     case r of
       Some ip \<Rightarrow> ret (Some ip)
     | None \<Rightarrow> seq (printf (str ''ialloc: no inodes'' @ [10]) []) (ret None)))"

definition put_dinode :: "inode \<Rightarrow> block \<Rightarrow> block" where
  "put_dinode ip d =
     (let o' = dinode_off (inum ip) in
      put_words (o' + 12) (NDIRECT + 1) (iaddrs ip)
        (put32 (put16 (put16 (put16 (put16 d o' (itype ip)) (o' + 2) (imajor ip)) (o' + 4) (iminor ip)) (o' + 6) (inlink ip))
          (o' + 8) (isize ip)))"

definition iupdate :: "nat \<Rightarrow> (unit, 'a fs_state_scheme) routine" where
  "iupdate i =
     bind (gets (\<lambda>s. icache s i)) (\<lambda>ip.
     if iiops ip then ext2fs_iupdate i else
     bind (gets (\<lambda>s. IBLOCK (inum ip) (sb s))) (\<lambda>bno.
     bind (bread (idev ip) bno) (\<lambda>bp.
     seq (set_data bp (put_dinode ip)) (
     seq (log_write bp) (
     brelse bp)))))"

definition get_dinode :: "block \<Rightarrow> inode \<Rightarrow> inode" where
  "get_dinode d ip =
     (let o' = dinode_off (inum ip) in
      ip\<lparr>itype := get16 d o', imajor := get16 d (o' + 2), iminor := get16 d (o' + 4), inlink := get16 d (o' + 6),
         isize := get32 d (o' + 8),
         iaddrs := (\<lambda>k. if k \<le> NDIRECT then get32 d (o' + 12 + 4 * k) else iaddrs ip k)\<rparr>)"

definition ilock :: "nat option \<Rightarrow> (unit, 'a fs_state_scheme) routine" where
  "ilock p =
     (case p of None \<Rightarrow> panic ''ilock'' | Some i \<Rightarrow>
      bind (gets (\<lambda>s. icache s i)) (\<lambda>ip.
      if iref ip < 1 then panic ''ilock''
      else if iiops ip then ext2fs_ilock p else
      seq (acquiresleep (SlInode i)) (
      bind (gets (\<lambda>s. icache s i)) (\<lambda>ip.
      if ivalid ip then skip else
      bind (gets (\<lambda>s. IBLOCK (inum ip) (sb s))) (\<lambda>bno.
      bind (bread (idev ip) bno) (\<lambda>bp.
      bind (gets (buf_data bp)) (\<lambda>d.
      seq (upd_inode i (get_dinode d)) (
      seq (brelse bp) (
      seq (upd_inode i (ivalid_update (\<lambda>_. True))) (
      bind (gets (\<lambda>s. itype (icache s i) = 0)) (\<lambda>none.
      if none then panic ''ilock: no type'' else skip)))))))))))"

definition iunlock :: "nat option \<Rightarrow> (unit, 'a fs_state_scheme) routine" where
  "iunlock p =
     (case p of None \<Rightarrow> panic ''iunlock'' | Some i \<Rightarrow>
      bind (holdingsleep (SlInode i)) (\<lambda>h.
      bind (gets (\<lambda>s. iref (icache s i))) (\<lambda>r.
      if \<not> h \<or> r < 1 then panic ''iunlock'' else
      releasesleep (SlInode i))))"

definition itrunc :: "nat \<Rightarrow> (unit, 'a fs_state_scheme) routine" where
  "itrunc i =
     bind (gets (\<lambda>s. idev (icache s i))) (\<lambda>dev.
     seq (for_each [0..<NDIRECT] (\<lambda>k.
       bind (gets (\<lambda>s. iaddrs (icache s i) k)) (\<lambda>addr.
       if addr = 0 then skip else
       seq (bfree dev addr) (
       upd_inode i (\<lambda>x. x\<lparr>iaddrs := (iaddrs x)(k := 0)\<rparr>))))) (
     bind (gets (\<lambda>s. iaddrs (icache s i) NDIRECT)) (\<lambda>addr.
     seq (only_if (addr \<noteq> 0) (
       bind (bread dev addr) (\<lambda>bp.
       seq (for_each [0..<NINDIRECT] (\<lambda>j.
         bind (entry bp j) (\<lambda>a. if a = 0 then skip else bfree dev a))) (
       seq (brelse bp) (
       seq (bfree dev addr) (
       upd_inode i (\<lambda>x. x\<lparr>iaddrs := (iaddrs x)(NDIRECT := 0)\<rparr>))))))) (
     seq (upd_inode i (isize_update (\<lambda>_. 0))) (
     iupdate i)))))"

definition iput :: "nat \<Rightarrow> (unit, 'a fs_state_scheme) routine" where
  "iput i =
     bind (gets (\<lambda>s. iiops (icache s i))) (\<lambda>ext2.
     if ext2 then ext2fs_iput i else
     seq (acquire IcacheLock) (
     bind (gets (\<lambda>s. icache s i)) (\<lambda>ip.
     seq (only_if (iref ip = 1 \<and> ivalid ip \<and> inlink ip = 0) (
       seq (acquiresleep (SlInode i)) (
       seq (release IcacheLock) (
       seq (itrunc i) (
       seq (upd_inode i (itype_update (\<lambda>_. 0))) (
       seq (iupdate i) (
       seq (upd_inode i (ivalid_update (\<lambda>_. False))) (
       seq (releasesleep (SlInode i)) (
       acquire IcacheLock))))))))) (
     seq (upd_inode i (iref_update (\<lambda>r. r - 1))) (
     release IcacheLock)))))"

definition iunlockput :: "nat \<Rightarrow> (unit, 'a fs_state_scheme) routine" where
  "iunlockput i = seq (iunlock (Some i)) (iput i)"

definition ireclaim :: "u32 \<Rightarrow> (unit, 'a fs_state_scheme) routine" where
  "ireclaim dev =
     bind (gets (\<lambda>s. unat (sb_ninodes (sb s)))) (\<lambda>n.
     for_each [1..<n] (\<lambda>num.
       bind (gets (\<lambda>s. IBLOCK (of_nat num) (sb s))) (\<lambda>bno.
       bind (bread dev bno) (\<lambda>bp.
       bind (gets (buf_data bp)) (\<lambda>d.
       let o' = dinode_off (of_nat num) in
       bind (if get16 d o' \<noteq> 0 \<and> get16 d (o' + 6) = 0
             then seq (printf (str ''ireclaim: orphaned inode %d'' @ [10]) [Int32 (of_nat num)]) (
                  bind (iget dev (of_nat num)) (\<lambda>ip. ret (Some ip)))
             else ret None) (\<lambda>oip.
       seq (brelse bp) (
       case oip of None \<Rightarrow> skip | Some ip \<Rightarrow>
       seq begin_op (
       seq (ilock (Some ip)) (
       seq (iunlock (Some ip)) (
       seq (iput ip) (
       end_op)))))))))))"

definition fsinit :: "u32 \<Rightarrow> (unit, 'a fs_state_scheme) routine" where
  "fsinit dev =
     seq (readsb dev) (
     bind (gets sb) (\<lambda>sblk.
     if sb_magic sblk \<noteq> FSMAGIC then panic ''invalid file system'' else
     seq (initlog dev (sb_logstart sblk)) (
     ireclaim dev)))"

section \<open>Contents\<close>

definition bmap :: "nat \<Rightarrow> nat \<Rightarrow> (u32, 'a fs_state_scheme) routine" where
  "bmap i bn =
     bind (gets (\<lambda>s. icache s i)) (\<lambda>ip.
     if bn < NDIRECT then
       if iaddrs ip bn \<noteq> 0 then ret (iaddrs ip bn) else
       bind (balloc (idev ip)) (\<lambda>addr.
       if addr = 0 then ret 0 else
       seq (upd_inode i (\<lambda>x. x\<lparr>iaddrs := (iaddrs x)(bn := addr)\<rparr>)) (ret addr))
     else let bn = bn - NDIRECT in
     if bn < NINDIRECT then
       bind (if iaddrs ip NDIRECT \<noteq> 0 then ret (iaddrs ip NDIRECT) else
             bind (balloc (idev ip)) (\<lambda>addr.
             if addr = 0 then ret 0 else
             seq (upd_inode i (\<lambda>x. x\<lparr>iaddrs := (iaddrs x)(NDIRECT := addr)\<rparr>)) (ret addr))) (\<lambda>ind.
       if ind = 0 then ret 0 else
       bind (bread (idev ip) ind) (\<lambda>bp.
       bind (entry bp bn) (\<lambda>a.
       bind (if a \<noteq> 0 then ret a else
             bind (balloc (idev ip)) (\<lambda>addr.
             seq (only_if (addr \<noteq> 0) (seq (set_entry bp bn addr) (log_write bp))) (ret addr))) (\<lambda>addr.
       seq (brelse bp) (ret addr)))))
     else panic ''bmap: out of range'')"

definition stati :: "nat \<Rightarrow> (stat, 'a fs_state_scheme) routine" where
  "stati i =
     bind (gets (\<lambda>s. iiops (icache s i))) (\<lambda>ext2.
     if ext2 then ext2fs_stati i else
     gets (\<lambda>s. let ip = icache s i in
       \<lparr>st_dev = idev ip, st_ino = inum ip, st_type = itype ip, st_nlink = inlink ip, st_size = ucast (isize ip)\<rparr>))"

text \<open>The loop of \<open>readi\<close> yields the total, or \<open>-1\<close> after a failed copy.\<close>

function readi_loop :: "nat \<Rightarrow> copy_dst \<Rightarrow> nat \<Rightarrow> nat \<Rightarrow> nat \<Rightarrow> (int, 'a fs_state_scheme) routine" where
  "readi_loop i dst tot off rem =
     (if rem = 0 then ret (int tot) else
      bind (bmap i (off div 1024)) (\<lambda>addr.
      if addr = 0 then ret (int tot) else
      bind (gets (\<lambda>s. idev (icache s i))) (\<lambda>dev.
      bind (bread dev addr) (\<lambda>bp.
      bind (gets (\<lambda>s. blk_get (buf_data bp s) (off mod 1024) (chunk off rem))) (\<lambda>bs.
      bind (either_copyout dst bs) (\<lambda>r.
      seq (brelse bp) (
      if r = - 1 then ret (- 1) else
      readi_loop i (dst_add dst (chunk off rem)) (tot + chunk off rem) (off + chunk off rem) (rem - chunk off rem))))))))"
  by pat_completeness auto
termination by (relation "measure (\<lambda>(_, _, _, _, rem). rem)") (simp_all add: chunk_pos)

declare readi_loop.simps [simp del]

definition readi :: "nat \<Rightarrow> copy_dst \<Rightarrow> u32 \<Rightarrow> u32 \<Rightarrow> (int, 'a fs_state_scheme) routine" where
  "readi i dst off n =
     bind (gets (\<lambda>s. icache s i)) (\<lambda>ip.
     if iiops ip then ext2fs_readi i dst off n
     else if off > isize ip \<or> off + n < off then ret 0
     else readi_loop i dst 0 (unat off) (unat (if off + n > isize ip then isize ip - off else n)))"

function writei_loop :: "nat \<Rightarrow> copy_src \<Rightarrow> nat \<Rightarrow> nat \<Rightarrow> nat \<Rightarrow> (nat \<times> nat, 'a fs_state_scheme) routine" where
  "writei_loop i src tot off rem =
     (if rem = 0 then ret (tot, off) else
      bind (bmap i (off div 1024)) (\<lambda>addr.
      if addr = 0 then ret (tot, off) else
      bind (gets (\<lambda>s. idev (icache s i))) (\<lambda>dev.
      bind (bread dev addr) (\<lambda>bp.
      bind (either_copyin src (chunk off rem)) (\<lambda>(bs, r).
      seq (set_data bp (\<lambda>d. blk_put d (off mod 1024) bs)) (
      if r = - 1 then seq (brelse bp) (ret (tot, off)) else
      seq (log_write bp) (
      seq (brelse bp) (
      writei_loop i (src_add src (chunk off rem)) (tot + chunk off rem) (off + chunk off rem) (rem - chunk off rem)))))))))"
  by pat_completeness auto
termination by (relation "measure (\<lambda>(_, _, _, _, rem). rem)") (simp_all add: chunk_pos)

declare writei_loop.simps [simp del]

definition writei :: "nat \<Rightarrow> copy_src \<Rightarrow> u32 \<Rightarrow> u32 \<Rightarrow> (int, 'a fs_state_scheme) routine" where
  "writei i src off n =
     bind (gets (\<lambda>s. icache s i)) (\<lambda>ip.
     if iiops ip then ext2fs_writei i src off n
     else if off > isize ip \<or> off + n < off then ret (- 1)
     else if unat (off + n) > (NDIRECT + NINDIRECT) * 1024 then ret (- 1) else
     bind (writei_loop i src 0 (unat off) (unat n)) (\<lambda>(tot, off').
     seq (upd_inode i (\<lambda>x. if of_nat off' > isize x then x\<lparr>isize := of_nat off'\<rparr> else x)) (
     seq (iupdate i) (
     ret (int tot)))))"

section \<open>Directories\<close>

definition namecmp :: "cstring \<Rightarrow> cstring \<Rightarrow> int" where
  "namecmp s t = strncmp s t DIRSIZ"

text \<open>A directory entry of the old format is 16 bytes: a 16-bit inode number and the name.\<close>

definition dirlookup_at :: "nat \<Rightarrow> cstring \<Rightarrow> nat \<Rightarrow> ((nat \<times> u32) option, 'a fs_state_scheme) routine" where
  "dirlookup_at dp name off =
     bind (readi dp (ToLocal 0) (of_nat off) 16) (\<lambda>r.
     if r \<noteq> 16 then panic ''dirlookup read'' else
     bind (gets klocal) (\<lambda>de.
     if get16 de 0 = 0 \<or> namecmp name (\<lambda>k. de (2 + k)) \<noteq> 0 then ret None else
     bind (gets (\<lambda>s. idev (icache s dp))) (\<lambda>dev.
     bind (iget dev (ucast (get16 de 0))) (\<lambda>ip.
     ret (Some (ip, of_nat off))))))"

definition dirlookup :: "nat \<Rightarrow> cstring \<Rightarrow> ((nat \<times> u32) option, 'a fs_state_scheme) routine" where
  "dirlookup dp name =
     bind (gets (\<lambda>s. icache s dp)) (\<lambda>d.
     if iiops d then ext2fs_dirlookup dp name
     else if itype d \<noteq> T_DIR then panic ''dirlookup not DIR''
     else for_until (map (\<lambda>k. 16 * k) [0..<(unat (isize d) + 15) div 16]) (dirlookup_at dp name))"

definition dirlink_at :: "nat \<Rightarrow> nat \<Rightarrow> (nat option, 'a fs_state_scheme) routine" where
  "dirlink_at dp off =
     bind (readi dp (ToLocal 0) (of_nat off) 16) (\<lambda>r.
     if r \<noteq> 16 then panic ''dirlink read'' else
     bind (gets klocal) (\<lambda>de. ret (if get16 de 0 = 0 then Some off else None)))"

definition xv6_entry :: "u32 \<Rightarrow> cstring \<Rightarrow> byte list" where
  "xv6_entry num name = le_bytes 2 (ucast num :: u16) @ map (strncpy (\<lambda>_. 0) name (int DIRSIZ)) [0..<DIRSIZ]"

definition dirlink :: "nat \<Rightarrow> cstring \<Rightarrow> u32 \<Rightarrow> (int, 'a fs_state_scheme) routine" where
  "dirlink dp name num =
     bind (gets (\<lambda>s. iiops (icache s dp))) (\<lambda>ext2.
     if ext2 then ext2fs_dirlink dp name num else
     bind (dirlookup dp name) (\<lambda>hit.
     case hit of
       Some (ip, _) \<Rightarrow> seq (iput ip) (ret (- 1))
     | None \<Rightarrow>
         bind (gets (\<lambda>s. (unat (isize (icache s dp)) + 15) div 16)) (\<lambda>n.
         bind (for_until (map (\<lambda>k. 16 * k) [0..<n]) (dirlink_at dp)) (\<lambda>slot.
         bind (writei dp (FromKernel (xv6_entry num name)) (of_nat (case slot of Some off \<Rightarrow> off | None \<Rightarrow> 16 * n)) 16) (\<lambda>r.
         ret (if r \<noteq> 16 then - 1 else 0))))))"

section \<open>Names\<close>

abbreviation (input) SLASH :: byte where "SLASH \<equiv> 47"

definition skipelem :: "byte list \<Rightarrow> cstring \<Rightarrow> (byte list \<times> cstring) option" where
  "skipelem path name =
     (let path = dropWhile (\<lambda>c. c = SLASH) path in
      if path = [] then None else
      let s = takeWhile (\<lambda>c. c \<noteq> SLASH) path;
          rest = dropWhile (\<lambda>c. c \<noteq> SLASH) path;
          name' = (if length s \<ge> DIRSIZ then blk_put name 0 (take DIRSIZ s)
                   else (blk_put name 0 s)(length s := 0))
      in Some (dropWhile (\<lambda>c. c = SLASH) rest, name'))"

lemma skipelem_shorter: "skipelem path name = Some (path', name') \<Longrightarrow> length path' < length path"
proof -
  assume a: "skipelem path name = Some (path', name')"
  let ?p = "dropWhile (\<lambda>c. c = SLASH) path"
  have p: "?p \<noteq> []" "path' = dropWhile (\<lambda>c. c = SLASH) (dropWhile (\<lambda>c. c \<noteq> SLASH) ?p)"
    using a by (auto simp: skipelem_def Let_def split: if_splits)
  have "hd ?p \<noteq> SLASH" using p(1) hd_dropWhile [of "\<lambda>c. c = SLASH"] by blast
  then have "length (dropWhile (\<lambda>c. c \<noteq> SLASH) ?p) < length ?p"
    using p(1) by (cases ?p) (auto simp: le_imp_less_Suc length_dropWhile_le)
  moreover have "length path' \<le> length (dropWhile (\<lambda>c. c \<noteq> SLASH) ?p)" "length ?p \<le> length path"
    using p(2) by (simp_all add: length_dropWhile_le)
  ultimately show "length path' < length path" by simp
qed

text \<open>The walk along a path from inode \<open>ip\<close>.\<close>

function namex_loop :: "nat \<Rightarrow> byte list \<Rightarrow> bool \<Rightarrow> cstring \<Rightarrow> (nat option \<times> cstring, 'a fs_state_scheme) routine" where
  "namex_loop ip path want_parent name =
     (case skipelem path name of
        None \<Rightarrow> if want_parent then seq (iput ip) (ret (None, name)) else ret (Some ip, name)
      | Some (path', name') \<Rightarrow>
          seq (ilock (Some ip)) (
          bind (gets (\<lambda>s. itype (icache s ip))) (\<lambda>ty.
          if ty \<noteq> T_DIR then seq (iunlockput ip) (ret (None, name'))
          else if want_parent \<and> path' = [] then seq (iunlock (Some ip)) (ret (Some ip, name'))
          else
            bind (dirlookup ip name') (\<lambda>hit.
            case hit of
              None \<Rightarrow> seq (iunlockput ip) (ret (None, name'))
            | Some (nxt, _) \<Rightarrow> seq (iunlockput ip) (namex_loop nxt path' want_parent name')))))"
  by pat_completeness auto
termination
  by (relation "measure (\<lambda>(_, path, _, _). length path)") (auto simp: skipelem_shorter)

declare namex_loop.simps [simp del]

definition namex :: "byte list \<Rightarrow> bool \<Rightarrow> cstring \<Rightarrow> (nat option \<times> cstring, 'a fs_state_scheme) routine" where
  "namex path want_parent name =
     bind (if path \<noteq> [] \<and> hd path = SLASH then iget ROOTDEV ROOTINO
           else bind this_proc (\<lambda>p.
                bind (gets (\<lambda>s. cwd (procs s p))) (\<lambda>d.
                case d of None \<Rightarrow> undef ''namex'' | Some d \<Rightarrow> idup d))) (\<lambda>ip.
     namex_loop ip path want_parent name)"

text \<open>The array \<open>name\<close> starts out with what the stack holds.\<close>

definition namei :: "byte list \<Rightarrow> (nat option, 'a fs_state_scheme) routine" where
  "namei path =
     bind (gets kstack_junk) (\<lambda>name.
     bind (namex path False name) (\<lambda>(ip, _).
     ret ip))"

definition nameiparent :: "byte list \<Rightarrow> (nat option \<times> cstring, 'a fs_state_scheme) routine" where
  "nameiparent path = bind (gets kstack_junk) (\<lambda>name. namex path True name)"

end
