(* ===== verification/Mkfs.thy ===== *)
theory Mkfs
  imports Fs
begin

text \<open>
  \<open>mkfs/mkfs.c\<close>: the tool that builds an image of the old file system.

  The image is a sequence of blocks; a read past its end, a failed assertion and a missing input file
  end the program (outcome \<open>Panic\<close>).  Other failures of the host's file operations are not modelled.  The
  byte order conversions \<open>xshort\<close> and \<open>xint\<close> are the little-endian encoding of the fields.
\<close>

section \<open>State\<close>

record mk_state =
  img :: "nat \<Rightarrow> block"
  img_len :: nat
  freeinode :: u32
  freeblock :: u32
  mk_sb :: superblock

abbreviation (input) FSSIZE :: nat where "FSSIZE \<equiv> 2000"
abbreviation (input) NINODES :: nat where "NINODES \<equiv> 200"
abbreviation (input) nbitmap :: nat where "nbitmap \<equiv> FSSIZE div BPB + 1"
abbreviation (input) ninodeblocks :: nat where "ninodeblocks \<equiv> NINODES div IPB + 1"
abbreviation (input) nlog :: nat where "nlog \<equiv> LOGBLOCKS + 1"
abbreviation (input) nmeta :: nat where "nmeta \<equiv> 2 + nlog + ninodeblocks + nbitmap"
abbreviation (input) nblocks :: nat where "nblocks \<equiv> FSSIZE - nmeta"

record dinode =
  d_type :: u16
  d_major :: u16
  d_minor :: u16
  d_nlink :: u16
  d_size :: u32
  d_addrs :: "nat \<Rightarrow> u32"

section \<open>Sectors and inodes\<close>

text \<open>\<open>sec * BSIZE\<close> is computed in 32 bits.\<close>

definition sect_of :: "u32 \<Rightarrow> nat" where
  "sect_of sec = unat (sec * 1024) div 1024"

definition wsect :: "u32 \<Rightarrow> block \<Rightarrow> (unit, mk_state) routine" where
  "wsect sec b = modify (\<lambda>s. s\<lparr>img := (img s)(sect_of sec := b), img_len := max (img_len s) (Suc (sect_of sec))\<rparr>)"

definition rsect :: "u32 \<Rightarrow> (block, mk_state) routine" where
  "rsect sec = bind (gets img_len) (\<lambda>n. if sect_of sec < n then gets (\<lambda>s. img s (sect_of sec)) else panic ''read'')"

definition din_put :: "dinode \<Rightarrow> nat \<Rightarrow> block \<Rightarrow> block" where
  "din_put din o' d =
     put_words (o' + 12) (NDIRECT + 1) (d_addrs din)
       (put32 (put16 (put16 (put16 (put16 d o' (d_type din)) (o' + 2) (d_major din)) (o' + 4) (d_minor din)) (o' + 6) (d_nlink din))
         (o' + 8) (d_size din))"

definition din_get :: "block \<Rightarrow> nat \<Rightarrow> dinode" where
  "din_get d o' = \<lparr>d_type = get16 d o', d_major = get16 d (o' + 2), d_minor = get16 d (o' + 4), d_nlink = get16 d (o' + 6),
     d_size = get32 d (o' + 8), d_addrs = (\<lambda>k. get32 d (o' + 12 + 4 * k))\<rparr>"

definition winode :: "u32 \<Rightarrow> dinode \<Rightarrow> (unit, mk_state) routine" where
  "winode num din =
     bind (gets (\<lambda>s. IBLOCK num (mk_sb s))) (\<lambda>bn.
     bind (rsect bn) (\<lambda>buf.
     wsect bn (din_put din (dinode_off num) buf)))"

definition rinode :: "u32 \<Rightarrow> (dinode, mk_state) routine" where
  "rinode num =
     bind (gets (\<lambda>s. IBLOCK num (mk_sb s))) (\<lambda>bn.
     bind (rsect bn) (\<lambda>buf.
     ret (din_get buf (dinode_off num))))"

definition mk_ialloc :: "u16 \<Rightarrow> (u32, mk_state) routine" where
  "mk_ialloc ty =
     bind (gets freeinode) (\<lambda>num.
     seq (modify (\<lambda>s. s\<lparr>freeinode := freeinode s + 1\<rparr>)) (
     seq (winode num \<lparr>d_type = ty, d_major = 0, d_minor = 0, d_nlink = 1, d_size = 0, d_addrs = (\<lambda>_. 0)\<rparr>) (
     ret num)))"

text \<open>The bitmap with the first \<open>used\<close> bits set.\<close>

definition used_bitmap :: "nat \<Rightarrow> block" where
  "used_bitmap used = fold (\<lambda>i b. b(i div 8 := b (i div 8) OR push_bit (i mod 8) 1)) [0..<used] (\<lambda>_. 0)"

definition mk_balloc :: "u32 \<Rightarrow> (unit, mk_state) routine" where
  "mk_balloc used =
     (if \<not> unat used < BPB then panic ''assert'' else
      bind (gets (\<lambda>s. sb_bmapstart (mk_sb s))) (\<lambda>b.
      wsect b (used_bitmap (unat used))))"

section \<open>Appending\<close>

definition take_block :: "(u32, mk_state) routine" where
  "take_block =
     bind (gets freeblock) (\<lambda>b.
     seq (modify (\<lambda>s. s\<lparr>freeblock := freeblock s + 1\<rparr>)) (ret b))"

text \<open>The block of the file that holds offset \<open>fbn * BSIZE\<close>, taken from the free ones if there is none.\<close>

definition iappend_block :: "nat \<Rightarrow> dinode \<Rightarrow> (dinode \<times> u32, mk_state) routine" where
  "iappend_block fbn din =
     (if fbn < NDIRECT then
        if d_addrs din fbn \<noteq> 0 then ret (din, d_addrs din fbn) else
        bind take_block (\<lambda>b. ret (din\<lparr>d_addrs := (d_addrs din)(fbn := b)\<rparr>, b))
      else
        bind (if d_addrs din NDIRECT \<noteq> 0 then ret din else
              bind take_block (\<lambda>b. ret (din\<lparr>d_addrs := (d_addrs din)(NDIRECT := b)\<rparr>))) (\<lambda>din.
        bind (rsect (d_addrs din NDIRECT)) (\<lambda>ind.
        if get32 ind (4 * (fbn - NDIRECT)) \<noteq> 0 then ret (din, get32 ind (4 * (fbn - NDIRECT))) else
        bind take_block (\<lambda>b.
        seq (wsect (d_addrs din NDIRECT) (put32 ind (4 * (fbn - NDIRECT)) b)) (
        ret (din, b))))))"

function iappend_loop :: "dinode \<Rightarrow> nat \<Rightarrow> byte list \<Rightarrow> (dinode \<times> nat, mk_state) routine" where
  "iappend_loop din off bs =
     (if bs = [] then ret (din, off) else
      if \<not> off div 1024 < NDIRECT + NINDIRECT then panic ''assert'' else
      bind (iappend_block (off div 1024) din) (\<lambda>(din', x).
      bind (rsect x) (\<lambda>buf.
      seq (wsect x (blk_put buf (off mod 1024) (take (chunk off (length bs)) bs))) (
      iappend_loop din' (off + chunk off (length bs)) (drop (chunk off (length bs)) bs)))))"
  by pat_completeness auto
termination
  by (relation "measure (\<lambda>(_, _, bs). length bs)") (simp_all add: chunk_pos)

declare iappend_loop.simps [simp del]

definition iappend :: "u32 \<Rightarrow> byte list \<Rightarrow> (unit, mk_state) routine" where
  "iappend num bs =
     bind (rinode num) (\<lambda>din.
     bind (iappend_loop din (unat (d_size din)) bs) (\<lambda>(din', off).
     winode num (din'\<lparr>d_size := of_nat off\<rparr>)))"

section \<open>The program\<close>

definition layout :: superblock where
  "layout = \<lparr>sb_magic = FSMAGIC, sb_size = of_nat FSSIZE, sb_nblocks = of_nat nblocks, sb_ninodes = of_nat NINODES,
     sb_nlog = of_nat nlog, sb_logstart = 2, sb_inodestart = of_nat (2 + nlog),
     sb_bmapstart = of_nat (2 + nlog + ninodeblocks)\<rparr>"

definition sb_block :: "superblock \<Rightarrow> block" where
  "sb_block b =
     put32 (put32 (put32 (put32 (put32 (put32 (put32 (put32 (\<lambda>_. 0)
       0 (sb_magic b)) 4 (sb_size b)) 8 (sb_nblocks b)) 12 (sb_ninodes b)) 16 (sb_nlog b))
       20 (sb_logstart b)) 24 (sb_inodestart b)) 28 (sb_bmapstart b)"

definition shortname :: "byte list \<Rightarrow> byte list" where
  "shortname arg =
     (if take 5 arg = str ''user/'' then drop 5 arg else arg)"

definition drop_underscore :: "byte list \<Rightarrow> byte list" where
  "drop_underscore n = (case n of [] \<Rightarrow> [] | c # cs \<Rightarrow> if c = ascii (CHR ''_'') then cs else n)"

text \<open>A file is read in pieces of a block.\<close>

function append_pieces :: "u32 \<Rightarrow> byte list \<Rightarrow> (unit, mk_state) routine" where
  "append_pieces num bs =
     (if bs = [] then skip else
      seq (iappend num (take 1024 bs)) (append_pieces num (drop 1024 bs)))"
  by pat_completeness auto
termination by (relation "measure (\<lambda>(_, bs). length bs)") auto

declare append_pieces.simps [simp del]

definition mk_cstr :: "byte list \<Rightarrow> cstring" where
  "mk_cstr bs = (\<lambda>k. if k < length bs then bs ! k else 0)"

text \<open>One input file, by its name on the command line and its contents, if it can be opened.\<close>

definition add_file :: "u32 \<Rightarrow> byte list \<times> byte list option \<Rightarrow> (unit, mk_state) routine" where
  "add_file rootino a =
     (let n = shortname (fst a) in
      if SLASH \<in> set n then panic ''assert'' else
      case snd a of None \<Rightarrow> panic ''open'' | Some contents \<Rightarrow>
      let n = drop_underscore n in
      if \<not> length n \<le> DIRSIZ then panic ''assert'' else
      bind (mk_ialloc T_FILE) (\<lambda>num.
      seq (iappend rootino (xv6_entry num (mk_cstr n))) (
      append_pieces num contents)))"

definition fix_root_size :: "u32 \<Rightarrow> (unit, mk_state) routine" where
  "fix_root_size rootino =
     bind (rinode rootino) (\<lambda>din.
     winode rootino (din\<lparr>d_size := (d_size din div 1024 + 1) * 1024\<rparr>))"

definition mkfs :: "(byte list \<times> byte list option) list \<Rightarrow> (unit, mk_state) routine" where
  "mkfs files =
     seq (modify (\<lambda>s. s\<lparr>mk_sb := layout, freeinode := 1, freeblock := of_nat nmeta\<rparr>)) (
     seq (for_each [0..<FSSIZE] (\<lambda>i. wsect (of_nat i) (\<lambda>_. 0))) (
     seq (wsect 1 (sb_block layout)) (
     bind (mk_ialloc T_DIR) (\<lambda>rootino.
     if rootino \<noteq> ROOTINO then panic ''assert'' else
     seq (iappend rootino (xv6_entry rootino (mk_cstr (str ''.'')))) (
     seq (iappend rootino (xv6_entry rootino (mk_cstr (str ''..'')))) (
     seq (for_each files (add_file rootino)) (
     seq (fix_root_size rootino) (
     bind (gets freeblock) mk_balloc))))))))"

end
