(* ===== verification/File.thy ===== *)
theory File
  imports Fs
begin

text \<open>
  \<open>kernel/pipe.c\<close> and \<open>kernel/file.c\<close>: pipes and the table of open files.

  A pipe lives in a page of its own; it is the entry of \<open>pipes\<close> at the address of that page.  A process
  that has to wait for the other end sleeps (outcome \<open>Swtch\<close>) and continues in \<open>piperead_wait\<close> or
  \<open>pipewrite_loop\<close> with the same arguments when it is woken.
\<close>

section \<open>State\<close>

abbreviation (input) PIPESIZE :: nat where "PIPESIZE \<equiv> 512"

record pipe =
  pdata :: "nat \<Rightarrow> byte"
  nread :: u32
  nwrite :: u32
  readopen :: bool
  writeopen :: bool

datatype fdtype = FD_NONE | FD_PIPE | FD_INODE | FD_DEVICE

record open_file =
  ftype :: fdtype
  fref :: int
  readable :: bool
  writable :: bool
  fpipe :: u64
  fip :: "nat option"
  foff :: u32
  fmajor :: u16

record file_state = fs_state +
  ftable :: "nat \<Rightarrow> open_file"
  pipes :: "u64 \<Rightarrow> pipe"

definition upd_file :: "nat \<Rightarrow> (open_file \<Rightarrow> open_file) \<Rightarrow> (unit, 'a file_state_scheme) routine" where
  "upd_file f g = modify (\<lambda>s. s\<lparr>ftable := (ftable s)(f := g (ftable s f))\<rparr>)"

definition upd_pipe :: "u64 \<Rightarrow> (pipe \<Rightarrow> pipe) \<Rightarrow> (unit, 'a file_state_scheme) routine" where
  "upd_pipe pi g = modify (\<lambda>s. s\<lparr>pipes := (pipes s)(pi := g (pipes s pi))\<rparr>)"

section \<open>Pipes\<close>

definition pipeclose :: "u64 \<Rightarrow> bool \<Rightarrow> (unit, 'a file_state_scheme) routine" where
  "pipeclose pi wr =
     seq (acquire (PipeLock pi)) (
     seq (if wr
          then seq (upd_pipe pi (writeopen_update (\<lambda>_. False))) (wakeup (ChanPipeRead pi))
          else seq (upd_pipe pi (readopen_update (\<lambda>_. False))) (wakeup (ChanPipeWrite pi))) (
     bind (gets (\<lambda>s. \<not> readopen (pipes s pi) \<and> \<not> writeopen (pipes s pi))) (\<lambda>dead.
     if dead then seq (release (PipeLock pi)) (kfree pi)
     else release (PipeLock pi))))"

definition pipewrite_done :: "u64 \<Rightarrow> nat \<Rightarrow> (int, 'a file_state_scheme) routine" where
  "pipewrite_done pi i = seq (wakeup (ChanPipeRead pi)) (seq (release (PipeLock pi)) (ret (int i)))"

text \<open>\<open>i\<close> bytes are written, \<open>rem\<close> are left.\<close>

fun pipewrite_loop :: "nat \<Rightarrow> u64 \<Rightarrow> u64 \<Rightarrow> nat \<Rightarrow> nat \<Rightarrow> (int, 'a file_state_scheme) routine" where
  "pipewrite_loop pr pi addr i 0 = pipewrite_done pi i"
| "pipewrite_loop pr pi addr i (Suc rem) =
     bind (gets (\<lambda>s. \<not> readopen (pipes s pi))) (\<lambda>closed.
     bind (if closed then ret True else killed pr) (\<lambda>stop.
     if stop then seq (release (PipeLock pi)) (ret (- 1)) else
     bind (gets (\<lambda>s. nwrite (pipes s pi) = nread (pipes s pi) + of_nat PIPESIZE)) (\<lambda>full.
     if full then seq (wakeup (ChanPipeRead pi)) (sleep (ChanPipeWrite pi) (PipeLock pi)) else
     bind (gets (\<lambda>s. pagetable (procs s pr))) (\<lambda>pt.
     bind (copyin pt (addr + of_nat i) 1) (\<lambda>(bs, r).
     if r = - 1 then pipewrite_done pi i else
     seq (upd_pipe pi (\<lambda>p. p\<lparr>pdata := (pdata p)(unat (nwrite p) mod PIPESIZE := hd bs), nwrite := nwrite p + 1\<rparr>)) (
     pipewrite_loop pr pi addr (Suc i) rem))))))"

definition pipewrite :: "u64 \<Rightarrow> u64 \<Rightarrow> int \<Rightarrow> (int, 'a file_state_scheme) routine" where
  "pipewrite pi addr n =
     bind this_proc (\<lambda>pr.
     seq (acquire (PipeLock pi)) (
     pipewrite_loop pr pi addr 0 (nat n)))"

text \<open>The copying loop yields the value of \<open>i\<close> after it.\<close>

fun piperead_loop :: "nat \<Rightarrow> u64 \<Rightarrow> u64 \<Rightarrow> nat \<Rightarrow> nat \<Rightarrow> (int, 'a file_state_scheme) routine" where
  "piperead_loop pr pi addr i 0 = ret (int i)"
| "piperead_loop pr pi addr i (Suc rem) =
     bind (gets (\<lambda>s. nread (pipes s pi) = nwrite (pipes s pi))) (\<lambda>empty.
     if empty then ret (int i) else
     bind (gets (\<lambda>s. pdata (pipes s pi) (unat (nread (pipes s pi)) mod PIPESIZE))) (\<lambda>ch.
     bind (gets (\<lambda>s. pagetable (procs s pr))) (\<lambda>pt.
     bind (copyout pt (addr + of_nat i) [ch]) (\<lambda>r.
     if r = - 1 then ret (if i = 0 then - 1 else int i) else
     seq (upd_pipe pi (nread_update (\<lambda>k. k + 1))) (
     piperead_loop pr pi addr (Suc i) rem)))))"

definition piperead_wait :: "nat \<Rightarrow> u64 \<Rightarrow> u64 \<Rightarrow> nat \<Rightarrow> (int, 'a file_state_scheme) routine" where
  "piperead_wait pr pi addr n =
     bind (gets (\<lambda>s. nread (pipes s pi) = nwrite (pipes s pi) \<and> writeopen (pipes s pi))) (\<lambda>empty.
     if empty then
       bind (killed pr) (\<lambda>k.
       if k then seq (release (PipeLock pi)) (ret (- 1)) else sleep (ChanPipeRead pi) (PipeLock pi))
     else
       bind (piperead_loop pr pi addr 0 n) (\<lambda>i.
       seq (wakeup (ChanPipeWrite pi)) (
       seq (release (PipeLock pi)) (
       ret i))))"

definition piperead :: "u64 \<Rightarrow> u64 \<Rightarrow> int \<Rightarrow> (int, 'a file_state_scheme) routine" where
  "piperead pi addr n =
     bind this_proc (\<lambda>pr.
     seq (acquire (PipeLock pi)) (
     piperead_wait pr pi addr (nat n)))"

section \<open>Open files\<close>

definition fileinit :: "(unit, 'a file_state_scheme) routine" where
  "fileinit = initlock FtableLock ''ftable''"

definition filealloc :: "(nat option, 'a file_state_scheme) routine" where
  "filealloc =
     seq (acquire FtableLock) (
     bind (for_until [0..<NFILE] (\<lambda>f.
       bind (gets (\<lambda>s. fref (ftable s f) = 0)) (\<lambda>free.
       if free then
         seq (upd_file f (fref_update (\<lambda>_. 1))) (
         seq (release FtableLock) (
         ret (Some f)))
       else ret None))) (\<lambda>r.
     case r of Some f \<Rightarrow> ret (Some f) | None \<Rightarrow> seq (release FtableLock) (ret None)))"

definition filedup :: "nat \<Rightarrow> (nat, 'a file_state_scheme) routine" where
  "filedup f =
     seq (acquire FtableLock) (
     bind (gets (\<lambda>s. fref (ftable s f))) (\<lambda>r.
     if r < 1 then panic ''filedup'' else
     seq (upd_file f (fref_update (\<lambda>r. r + 1))) (
     seq (release FtableLock) (
     ret f))))"

definition fileclose :: "nat \<Rightarrow> (unit, 'a file_state_scheme) routine" where
  "fileclose f =
     seq (acquire FtableLock) (
     bind (gets (\<lambda>s. fref (ftable s f))) (\<lambda>r.
     if r < 1 then panic ''fileclose'' else
     seq (upd_file f (fref_update (\<lambda>r. r - 1))) (
     if r - 1 > 0 then release FtableLock else
     bind (gets (\<lambda>s. ftable s f)) (\<lambda>ff.
     seq (upd_file f (\<lambda>x. x\<lparr>fref := 0, ftype := FD_NONE\<rparr>)) (
     seq (release FtableLock) (
     case ftype ff of
       FD_PIPE \<Rightarrow> pipeclose (fpipe ff) (writable ff)
     | FD_NONE \<Rightarrow> skip
     | _ \<Rightarrow> (case fip ff of None \<Rightarrow> undef ''fileclose'' | Some ip \<Rightarrow>
              seq begin_op (seq (iput ip) end_op))))))))"

text \<open>On failure everything taken so far is given back; the pipe itself is the last thing taken.\<close>

definition pipealloc :: "((nat \<times> nat) option, 'a file_state_scheme) routine" where
  "pipealloc =
     bind filealloc (\<lambda>r0.
     case r0 of None \<Rightarrow> ret None | Some f0 \<Rightarrow>
     bind filealloc (\<lambda>r1.
     case r1 of None \<Rightarrow> seq (fileclose f0) (ret None) | Some f1 \<Rightarrow>
     bind kalloc (\<lambda>pi.
     if pi = 0 then seq (fileclose f0) (seq (fileclose f1) (ret None)) else
     seq (upd_pipe pi (\<lambda>p. p\<lparr>readopen := True, writeopen := True, nwrite := 0, nread := 0\<rparr>)) (
     seq (initlock (PipeLock pi) ''pipe'') (
     seq (upd_file f0 (\<lambda>x. x\<lparr>ftype := FD_PIPE, readable := True, writable := False, fpipe := pi\<rparr>)) (
     seq (upd_file f1 (\<lambda>x. x\<lparr>ftype := FD_PIPE, readable := False, writable := True, fpipe := pi\<rparr>)) (
     ret (Some (f0, f1)))))))))"

text \<open>The 24 bytes of \<open>struct stat\<close>; the four bytes of padding are whatever the stack holds.\<close>

definition stat_bytes :: "stat \<Rightarrow> (nat \<Rightarrow> byte) \<Rightarrow> byte list" where
  "stat_bytes st junk = le_bytes 4 (st_dev st) @ le_bytes 4 (st_ino st) @ le_bytes 2 (st_type st) @ le_bytes 2 (st_nlink st) @
     map junk [12..<16] @ le_bytes 8 (st_size st)"

definition filestat :: "nat \<Rightarrow> u64 \<Rightarrow> (int, 'a file_state_scheme) routine" where
  "filestat f addr =
     bind this_proc (\<lambda>p.
     bind (gets (\<lambda>s. ftable s f)) (\<lambda>x.
     if ftype x = FD_INODE \<or> ftype x = FD_DEVICE then
       seq (ilock (fip x)) (
       bind (case fip x of None \<Rightarrow> undef ''filestat'' | Some ip \<Rightarrow> stati ip) (\<lambda>st.
       seq (iunlock (fip x)) (
       bind (gets (\<lambda>s. (pagetable (procs s p), kstack_junk s))) (\<lambda>(pt, junk).
       bind (copyout pt addr (stat_bytes st junk)) (\<lambda>r.
       ret (if r < 0 then - 1 else 0))))))
     else ret (- 1)))"

definition fileread :: "nat \<Rightarrow> u64 \<Rightarrow> int \<Rightarrow> (int, 'a file_state_scheme) routine" where
  "fileread f addr n =
     bind (gets (\<lambda>s. ftable s f)) (\<lambda>x.
     if \<not> readable x then ret (- 1) else
     case ftype x of
       FD_PIPE \<Rightarrow> piperead (fpipe x) addr n
     | FD_DEVICE \<Rightarrow> dev_read (sint (fmajor x)) (ToUser addr) n
     | FD_INODE \<Rightarrow>
         seq (ilock (fip x)) (
         case fip x of None \<Rightarrow> undef ''fileread'' | Some ip \<Rightarrow>
         bind (gets (\<lambda>s. foff (ftable s f))) (\<lambda>off.
         bind (readi ip (ToUser addr) off (of_int n)) (\<lambda>r.
         seq (only_if (r > 0) (upd_file f (foff_update (\<lambda>o'. o' + of_int r)))) (
         seq (iunlock (fip x)) (
         ret r)))))
     | FD_NONE \<Rightarrow> panic ''fileread'')"

text \<open>At most \<open>(MAXOPBLOCKS-1-1-2)/2\<close> blocks go into one transaction.\<close>

abbreviation (input) WRITE_MAX :: nat where "WRITE_MAX \<equiv> 3072"

function filewrite_loop :: "nat \<Rightarrow> nat \<Rightarrow> u64 \<Rightarrow> nat \<Rightarrow> nat \<Rightarrow> (nat, 'a file_state_scheme) routine" where
  "filewrite_loop f ip addr i n =
     (if \<not> i < n then ret i else
      let n1 = min (n - i) WRITE_MAX in
      seq begin_op (
      seq (ilock (Some ip)) (
      bind (gets (\<lambda>s. foff (ftable s f))) (\<lambda>off.
      bind (writei ip (FromUser (addr + of_nat i)) off (of_nat n1)) (\<lambda>r.
      seq (only_if (r > 0) (upd_file f (foff_update (\<lambda>o'. o' + of_int r)))) (
      seq (iunlock (Some ip)) (
      seq end_op (
      if r \<noteq> int n1 then ret i else
      filewrite_loop f ip addr (i + n1) n))))))))"
  by pat_completeness auto
termination by (relation "measure (\<lambda>(_, _, _, i, n). n - i)") auto

declare filewrite_loop.simps [simp del]

definition filewrite :: "nat \<Rightarrow> u64 \<Rightarrow> int \<Rightarrow> (int, 'a file_state_scheme) routine" where
  "filewrite f addr n =
     bind (gets (\<lambda>s. ftable s f)) (\<lambda>x.
     if \<not> writable x then ret (- 1) else
     case ftype x of
       FD_PIPE \<Rightarrow> pipewrite (fpipe x) addr n
     | FD_DEVICE \<Rightarrow> dev_write (sint (fmajor x)) (FromUser addr) n
     | FD_INODE \<Rightarrow>
         (case fip x of None \<Rightarrow> undef ''filewrite'' | Some ip \<Rightarrow>
          bind (filewrite_loop f ip addr 0 (nat n)) (\<lambda>i.
          ret (if int i = n then n else - 1)))
     | FD_NONE \<Rightarrow> panic ''filewrite'')"

end
