(* ===== verification/Pagetable.thy ===== *)
theory Pagetable
  imports Vm
begin

text \<open>
  What the page-table routines of \<open>kernel/vm.c\<close> do, against an abstract view of a page table.

  \<open>node m pt va d\<close> is the table page the walk for \<open>va\<close> is at after \<open>d\<close> steps from the root; \<open>ent m pt va\<close> is
  the last-level entry, 0 if the walk ends early.  \<open>pt_ok\<close> says that the table is a tree of pages none of
  which is on the free list.  A store into an entry then changes \<open>ent\<close> at exactly one page, and hanging a
  fresh zeroed table into the tree changes it nowhere.
\<close>

section \<open>The abstract view\<close>

fun node :: "memory \<Rightarrow> u64 \<Rightarrow> u64 \<Rightarrow> nat \<Rightarrow> u64 option" where
  "node m pt va 0 = Some pt"
| "node m pt va (Suc d) =
     (case node m pt va d of None \<Rightarrow> None | Some p \<Rightarrow>
      let e = load64 m (pte_at p (2 - d) va) in
      if e AND PTE_V \<noteq> 0 then Some (PTE2PA e) else None)"

definition ent :: "memory \<Rightarrow> u64 \<Rightarrow> u64 \<Rightarrow> u64" where
  "ent m pt va = (case node m pt va 2 of None \<Rightarrow> 0 | Some p \<Rightarrow> load64 m (pte_at p 0 va))"

definition agree :: "nat \<Rightarrow> u64 \<Rightarrow> u64 \<Rightarrow> bool" where
  "agree n va vb \<longleftrightarrow> (\<forall>k<n. PX (2 - k) va = PX (2 - k) vb)"

definition nodes :: "memory \<Rightarrow> u64 \<Rightarrow> u64 set" where
  "nodes m pt = {p. \<exists>va d. d \<le> 2 \<and> node m pt va d = Some p}"

definition pt_ok :: "u64 list \<Rightarrow> memory \<Rightarrow> u64 \<Rightarrow> bool" where
  "pt_ok xs m pt \<longleftrightarrow>
     (\<forall>p\<in>nodes m pt. aligned p \<and> p \<noteq> 0 \<and> p \<notin> set xs) \<and>
     (\<forall>va vb d e p. d \<le> 2 \<longrightarrow> e \<le> 2 \<longrightarrow> node m pt va d = Some p \<longrightarrow> node m pt vb e = Some p \<longrightarrow>
        d = e \<and> agree d va vb)"

lemma agree_0 [simp]: "agree 0 va vb"
  by (simp add: agree_def)

lemma agree_Suc: "agree (Suc n) va vb \<longleftrightarrow> agree n va vb \<and> PX (2 - n) va = PX (2 - n) vb"
  by (auto simp: agree_def less_Suc_eq)

lemma agree_sym: "agree n va vb \<Longrightarrow> agree n vb va"
  by (simp add: agree_def)

lemma agree_trans: "agree n va vb \<Longrightarrow> agree n vb vc \<Longrightarrow> agree n va vc"
  by (simp add: agree_def)

lemma agree_refl [simp]: "agree n va va"
  by (simp add: agree_def)

lemma agree_mono: "agree n va vb \<Longrightarrow> k \<le> n \<Longrightarrow> agree k va vb"
  by (simp add: agree_def)

lemma agree_page:
  assumes "va < MAXVA" "vb < MAXVA" "aligned va" "aligned vb" "agree 3 va vb"
  shows "va = vb"
  using assms PX_inj [of va vb] unfolding numeral_3_eq_3 agree_Suc by simp

text \<open>Addresses that agree on the first indices share the nodes reached by them.\<close>

lemma node_agree: "agree d va vb \<Longrightarrow> d \<le> 3 \<Longrightarrow> node m pt va d = node m pt vb d"
proof (induction d)
  case (Suc d)
  then have "node m pt va d = node m pt vb d" "PX (2 - d) va = PX (2 - d) vb" by (simp_all add: agree_Suc)
  then show ?case by (simp add: pte_at_def cong: option.case_cong)
qed simp

lemma in_nodes: "node m pt va d = Some p \<Longrightarrow> d \<le> 2 \<Longrightarrow> p \<in> nodes m pt"
  by (auto simp: nodes_def)

lemma root_in_nodes [simp]: "pt \<in> nodes m pt"
  by (rule in_nodes [where d = 0]) simp_all

lemma node_prev: "node m pt va d = Some p \<Longrightarrow> k \<le> d \<Longrightarrow> \<exists>q. node m pt va k = Some q"
proof (induction d arbitrary: p)
  case (Suc d)
  then show ?case by (cases "k = Suc d") (auto split: option.splits)
qed simp

section \<open>Entries in memory\<close>

lemma pte_at_offset: "pte_at p l va = p + of_nat (8 * unat (PX l va))"
  by (simp add: pte_at_def)

lemma offset_in_page: "8 * unat (PX l va) \<le> 4088"
  using PX_less [of l va] by simp

lemma unat_entry_offset: "unat (of_nat (8 * unat (PX l va)) :: u64) = 8 * unat (PX l va)"
  using PX_less [of l va] by (simp add: unat_of_nat take_bit_nat_eq_self del: of_nat_mult)

lemma unat_diff_of_nat:
  assumes "a < 4096" "b < 4096"
  shows "unat (of_nat a - of_nat b :: u64) = (if b \<le> a then a - b else 2 ^ 64 - (b - a))"
proof -
  have u: "unat (of_nat a :: u64) = a" "unat (of_nat b :: u64) = b"
    using assms by (simp_all add: unat_of_nat take_bit_nat_eq_self)
  show ?thesis unfolding unat_sub_if' using assms by (auto simp: word_le_nat_alt u)
qed

lemma same_on_entry: "same_on P m m' \<Longrightarrow> p \<in> P \<Longrightarrow> load64 m' (pte_at p l va) = load64 m (pte_at p l va)"
  unfolding pte_at_offset by (rule same_on_load64 [symmetric, OF _ _ offset_in_page])

lemma load_store_entry:
  assumes "aligned p" "aligned q"
  shows "load64 (store64 m (pte_at p l va) v) (pte_at q l' vb) =
    (if p = q \<and> PX l va = PX l' vb then v else load64 m (pte_at q l' vb))"
proof (cases "p = q")
  case False
  then have "same_on {q} m (store64 m (pte_at p l va) v)"
    using assms offset_in_page unfolding pte_at_offset by (intro same_on_store64) auto
  then show ?thesis using False by (simp add: same_on_entry [of "{q}"])
next
  case True
  let ?j = "unat (PX l' vb)" and ?k = "unat (PX l va)"
  show ?thesis
  proof (cases "PX l va = PX l' vb")
    case False
    then have ne: "?j \<noteq> ?k" by (simp add: word_unat_eq_iff)
    have "load64 (store64 m (pte_at p l va) v) (pte_at q l' vb) = load64 m (pte_at q l' vb)"
    proof (rule load64_cong)
      fix i :: nat
      assume i: "i < 8"
      have "pte_at q l' vb + of_nat i - pte_at p l va = of_nat (8 * ?j + i) - of_nat (8 * ?k)"
        using True by (simp add: pte_at_offset)
      moreover have "8 \<le> unat (of_nat (8 * ?j + i) - of_nat (8 * ?k) :: u64)"
        using PX_less [of l' vb] PX_less [of l va] i ne by (subst unat_diff_of_nat) auto
      ultimately have "8 \<le> unat (pte_at q l' vb + of_nat i - pte_at p l va)" by (simp only:)
      then show "store64 m (pte_at p l va) v (pte_at q l' vb + of_nat i) = m (pte_at q l' vb + of_nat i)"
        by (rule store64_other)
    qed
    then show ?thesis using False by simp
  next
    case same: True
    then show ?thesis using True by (simp add: pte_at_def)
  qed
qed

text \<open>The view depends on the pages of the tree only.\<close>

lemma node_same:
  assumes "same_on (nodes m pt) m m'"
  shows "d \<le> 3 \<Longrightarrow> node m' pt va d = node m pt va d"
proof (induction d)
  case (Suc d)
  show ?case
  proof (cases "node m pt va d")
    case (Some p)
    then have "p \<in> nodes m pt" using Suc.prems by (intro in_nodes) auto
    then show ?thesis using Suc Some by (simp add: same_on_entry [OF assms])
  qed (use Suc in simp)
qed simp

lemma ent_same:
  assumes "same_on (nodes m pt) m m'"
  shows "ent m' pt va = ent m pt va"
  using node_same [OF assms, of 2 va] same_on_entry [OF assms] in_nodes [of m pt va 2]
  by (simp add: ent_def split: option.splits)

lemma nodes_cong: "(\<And>va d. d \<le> 2 \<Longrightarrow> node m' pt va d = node m pt va d) \<Longrightarrow> nodes m' pt = nodes m pt"
  unfolding nodes_def by (simp cong: conj_cong)

lemma nodes_same: "same_on (nodes m pt) m m' \<Longrightarrow> nodes m' pt = nodes m pt"
  by (rule nodes_cong, rule node_same) simp_all

lemma pt_ok_nodes: "pt_ok xs m pt \<Longrightarrow> p \<in> nodes m pt \<Longrightarrow> aligned p \<and> p \<noteq> 0 \<and> p \<notin> set xs"
  by (simp add: pt_ok_def)

lemma pt_ok_node: "pt_ok xs m pt \<Longrightarrow> node m pt va d = Some p \<Longrightarrow> d \<le> 2 \<Longrightarrow> aligned p \<and> p \<noteq> 0 \<and> p \<notin> set xs"
  by (erule pt_ok_nodes) (rule in_nodes)

lemma pt_ok_inj:
  assumes "pt_ok xs m pt" "node m pt va d = Some p" "node m pt vb e = Some p" "d \<le> 2" "e \<le> 2"
  shows "d = e \<and> agree d va vb"
proof -
  have "\<forall>va vb d e p. d \<le> 2 \<longrightarrow> e \<le> 2 \<longrightarrow> node m pt va d = Some p \<longrightarrow> node m pt vb e = Some p \<longrightarrow>
      d = e \<and> agree d va vb"
    using assms(1) unfolding pt_ok_def by (rule conjunct2)
  then show ?thesis using assms(2-) by blast
qed

lemma pt_ok_transfer:
  assumes ok: "pt_ok xs m pt" and eq: "\<And>va d. d \<le> 2 \<Longrightarrow> node m' pt va d = node m pt va d"
  shows "pt_ok xs m' pt"
  unfolding pt_ok_def nodes_cong [of m' pt m, OF eq, simplified]
proof (intro conjI allI impI)
  show "\<forall>p\<in>nodes m pt. aligned p \<and> p \<noteq> 0 \<and> p \<notin> set xs" using ok by (simp add: pt_ok_def)
  fix va vb d e p
  assume "d \<le> 2" "e \<le> 2" "node m' pt va d = Some p" "node m' pt vb e = Some p"
  then have "node m pt va d = Some p" "node m pt vb e = Some p" by (simp_all add: eq)
  then show "d = e" "agree d va vb" using pt_ok_inj [OF ok] \<open>d \<le> 2\<close> \<open>e \<le> 2\<close> by auto
qed

lemma pt_ok_same: "pt_ok xs m pt \<Longrightarrow> same_on (nodes m pt) m m' \<Longrightarrow> pt_ok xs m' pt"
  by (erule pt_ok_transfer, rule node_same) simp_all

lemma pt_ok_subset:
  assumes "pt_ok xs m pt" "set ys \<subseteq> set xs"
  shows "pt_ok ys m pt"
  unfolding pt_ok_def
proof (intro conjI allI impI ballI)
  fix p assume "p \<in> nodes m pt"
  then show "aligned p" "p \<noteq> 0" "p \<notin> set ys" using pt_ok_nodes [OF assms(1)] assms(2) by auto
next
  fix va vb d e p
  assume "d \<le> 2" "e \<le> 2" "node m pt va d = Some p" "node m pt vb e = Some p"
  then show "d = e" "agree d va vb" using pt_ok_inj [OF assms(1)] by auto
qed

section \<open>Storing a last-level entry\<close>

lemma node_leaf_store:
  assumes "pt_ok xs m pt" "node m pt va 2 = Some p"
  shows "d \<le> 2 \<Longrightarrow> node (store64 m (pte_at p 0 va) v) pt vb d = node m pt vb d"
proof (induction d)
  case (Suc d)
  show ?case
  proof (cases "node m pt vb d")
    case (Some q)
    then have "p \<noteq> q" using pt_ok_inj [OF assms(1,2)] Suc.prems by fastforce
    moreover have "aligned p" "aligned q" using pt_ok_node [OF assms(1)] assms(2) Some Suc.prems by auto
    ultimately show ?thesis using Suc Some by (simp add: load_store_entry)
  qed (use Suc in simp)
qed simp

lemma ent_leaf_store:
  assumes "pt_ok xs m pt" "node m pt va 2 = Some p"
  shows "ent (store64 m (pte_at p 0 va) v) pt vb = (if agree 3 va vb then v else ent m pt vb)"
proof -
  have a3: "agree 3 va vb \<longleftrightarrow> agree 2 va vb \<and> PX 0 va = PX 0 vb"
    using agree_Suc [of 2 va vb] by (simp add: eval_nat_numeral)
  show ?thesis
  proof (cases "node m pt vb 2")
    case None
    then have "\<not> agree 2 va vb" using assms(2) node_agree [of 2 va vb m pt] by auto
    then show ?thesis using None by (simp add: ent_def node_leaf_store [OF assms] a3)
  next
    case (Some q)
    have al: "aligned p" "aligned q" using pt_ok_node [OF assms(1)] assms(2) Some by auto
    have "p = q \<longleftrightarrow> agree 2 va vb"
      using pt_ok_inj [OF assms(1,2)] Some node_agree [of 2 va vb m pt] assms(2) by auto
    then show ?thesis using Some al by (simp add: ent_def node_leaf_store [OF assms] load_store_entry a3)
  qed
qed

lemma pt_ok_leaf_store:
  assumes "pt_ok xs m pt" "node m pt va 2 = Some p"
  shows "pt_ok xs (store64 m (pte_at p 0 va) v) pt" "nodes (store64 m (pte_at p 0 va) v) pt = nodes m pt"
  by (rule pt_ok_transfer [OF assms(1)], erule node_leaf_store [OF assms])
    (rule nodes_cong, erule node_leaf_store [OF assms])

section \<open>Hanging a fresh table into the tree\<close>

definition zeroed :: "memory \<Rightarrow> u64 \<Rightarrow> bool" where
  "zeroed m p \<longleftrightarrow> (\<forall>x. in_page p x \<longrightarrow> m x = 0)"

lemma zeroed_entry: "zeroed m p \<Longrightarrow> load64 m (pte_at p l va) = 0"
proof -
  assume z: "zeroed m p"
  have "load64 m (p + of_nat (8 * unat (PX l va))) = load64 (\<lambda>_. 0) (p + of_nat (8 * unat (PX l va)))"
  proof (rule load64_cong)
    fix i :: nat
    assume "i < 8"
    then have "in_page p (p + of_nat (8 * unat (PX l va) + i))"
      using offset_in_page [of l va] by (intro in_page_offset) simp
    then show "m (p + of_nat (8 * unat (PX l va)) + of_nat i) = 0" using z by (simp add: zeroed_def add.assoc)
  qed
  also have "\<dots> = 0" by (simp add: load64_def mem_get_def upt_rec)
  finally show ?thesis by (simp only: pte_at_offset)
qed

lemma PTE_V_set [simp]: "(e OR 1) AND (1 :: u64) \<noteq> 0"
  by (simp add: bit_eq_iff bit_simps) (auto simp: bit_simps intro!: exI [of _ 0])

text \<open>\<open>p\<close> is the node for \<open>va\<close> at depth \<open>d\<close>, without a next one; \<open>new\<close> is a zeroed page outside the tree.\<close>

definition can_grow :: "u64 list \<Rightarrow> memory \<Rightarrow> u64 \<Rightarrow> u64 \<Rightarrow> nat \<Rightarrow> u64 \<Rightarrow> u64 \<Rightarrow> bool" where
  "can_grow xs m pt va d p new \<longleftrightarrow>
     pt_ok xs m pt \<and> new \<notin> nodes m pt \<and> aligned new \<and> new \<noteq> 0 \<and> new < 0x100000000000000 \<and> zeroed m new \<and>
     node m pt va d = Some p \<and> d < 2 \<and> load64 m (pte_at p (2 - d) va) AND PTE_V = 0"

definition grown :: "memory \<Rightarrow> u64 \<Rightarrow> nat \<Rightarrow> u64 \<Rightarrow> u64 \<Rightarrow> memory" where
  "grown m p d va new = store64 m (pte_at p (2 - d) va) (PA2PTE new OR PTE_V)"

lemma grow_aligned: "can_grow xs m pt va d p new \<Longrightarrow> aligned p \<and> p \<noteq> new"
  using pt_ok_node [of xs m pt va d p] in_nodes [of m pt va d p] by (auto simp: can_grow_def)

lemma grow_missing: "can_grow xs m pt va d p new \<Longrightarrow> agree (Suc d) va vb \<Longrightarrow> node m pt vb (Suc d) = None"
  using node_agree [of "Suc d" va vb m pt] by (simp add: can_grow_def)

lemma grow_entry:
  assumes g: "can_grow xs m pt va d p new" and q: "node m pt vb k = Some q" "k \<le> 2"
  shows "load64 (grown m p d va new) (pte_at q (2 - k) vb) =
    (if k = d \<and> agree (Suc d) va vb then PA2PTE new OR PTE_V else load64 m (pte_at q (2 - k) vb))"
proof -
  have p: "pt_ok xs m pt" "node m pt va d = Some p" "d < 2" using g by (simp_all add: can_grow_def)
  have al: "aligned p" "aligned q" using grow_aligned [OF g] pt_ok_node [OF p(1) q] by auto
  have "p = q \<longleftrightarrow> d = k \<and> agree d va vb"
    using pt_ok_inj [OF p(1,2), of vb k] q p node_agree [of d va vb m pt] by auto
  then show ?thesis using al by (auto simp: grown_def load_store_entry agree_Suc)
qed

lemma grow_node:
  assumes g: "can_grow xs m pt va d p new"
  shows "k \<le> 2 \<Longrightarrow> node (grown m p d va new) pt vb k =
    (if k = Suc d \<and> agree (Suc d) va vb then Some new else node m pt vb k)"
proof (induction k)
  case (Suc k)
  have fresh: "aligned new" "new < 0x100000000000000" "zeroed m new" using g by (simp_all add: can_grow_def)
  show ?case
  proof (cases "k = Suc d \<and> agree (Suc d) va vb")
    case True
    then have "node (grown m p d va new) pt vb k = Some new" "node m pt vb k = None"
      using Suc grow_missing [OF g] by auto
    moreover have "load64 (grown m p d va new) (pte_at new (2 - k) vb) = 0"
      using grow_aligned [OF g] fresh by (simp add: grown_def load_store_entry zeroed_entry)
    ultimately show ?thesis using True by simp
  next
    case no: False
    then have IH: "node (grown m p d va new) pt vb k = node m pt vb k" using Suc by auto
    show ?thesis
    proof (cases "node m pt vb k")
      case None
      then have "\<not> (k = d \<and> agree d va vb)" using node_agree [of d va vb m pt] g by (auto simp: can_grow_def)
      then show ?thesis using None IH by (auto simp: agree_Suc)
    next
      case (Some q)
      then show ?thesis using IH fresh grow_entry [OF g Some] Suc.prems by (auto simp: PTE2PA_PA2PTE)
    qed
  qed
qed simp

lemma grow_ent:
  assumes g: "can_grow xs m pt va d p new"
  shows "ent (grown m p d va new) pt vb = ent m pt vb"
proof (cases "d = 1 \<and> agree 2 va vb")
  case True
  then have "node (grown m p d va new) pt vb 2 = Some new" "node m pt vb 2 = None"
    using grow_node [OF g, of 2 vb] grow_missing [OF g, of vb] by (simp_all add: numeral_2_eq_2)
  moreover have "load64 (grown m p d va new) (pte_at new 0 vb) = 0"
    using grow_aligned [OF g] g by (simp add: grown_def load_store_entry zeroed_entry can_grow_def)
  ultimately show ?thesis by (simp add: ent_def)
next
  case False
  then have n: "node (grown m p d va new) pt vb 2 = node m pt vb 2"
    using grow_node [OF g, of 2 vb] by (auto simp: numeral_2_eq_2)
  have "d < 2" using g by (simp add: can_grow_def)
  then show ?thesis using n grow_entry [OF g, of vb 2] by (simp add: ent_def split: option.splits)
qed

lemma grow_nodes:
  assumes g: "can_grow xs m pt va d p new"
  shows "nodes (grown m p d va new) pt \<subseteq> insert new (nodes m pt)"
proof
  fix q
  assume "q \<in> nodes (grown m p d va new) pt"
  then obtain vb k where "k \<le> 2" "node (grown m p d va new) pt vb k = Some q" by (auto simp: nodes_def)
  then show "q \<in> insert new (nodes m pt)" using grow_node [OF g, of k vb] in_nodes [of m pt vb k q] by (auto split: if_splits)
qed

lemma grow_ok:
  assumes g: "can_grow xs m pt va d p new" and ys: "set ys \<subseteq> set xs" "new \<notin> set ys"
  shows "pt_ok ys (grown m p d va new) pt"
  unfolding pt_ok_def
proof (intro conjI ballI allI impI)
  have ok: "pt_ok xs m pt" "new \<notin> nodes m pt" "aligned new" "new \<noteq> 0" using g by (simp_all add: can_grow_def)
  fix q
  assume "q \<in> nodes (grown m p d va new) pt"
  then have "q = new \<or> q \<in> nodes m pt" using grow_nodes [OF g] by auto
  then show "aligned q" "q \<noteq> 0" "q \<notin> set ys" using ok ys pt_ok_nodes [OF ok(1)] by auto
next
  fix vb vc k l q
  assume k: "k \<le> 2" "l \<le> 2" and n: "node (grown m p d va new) pt vb k = Some q" "node (grown m p d va new) pt vc l = Some q"
  have ok: "pt_ok xs m pt" "new \<notin> nodes m pt" using g by (simp_all add: can_grow_def)
  have old: "q \<noteq> new" if "node m pt vd j = Some q" "j \<le> 2" for vd j using that ok(2) in_nodes [of m pt vd j q] by auto
  have "k = l \<and> agree k vb vc"
  proof (cases "q = new")
    case True
    then have "k = Suc d \<and> agree (Suc d) va vb" "l = Suc d \<and> agree (Suc d) va vc"
      using n k grow_node [OF g] old by (metis (full_types))+
    then show ?thesis using agree_trans [OF agree_sym] by blast
  next
    case False
    then have "node m pt vb k = Some q" "node m pt vc l = Some q" using n k grow_node [OF g] by (auto split: if_splits)
    then show ?thesis using pt_ok_inj [OF ok(1)] k by blast
  qed
  then show "k = l" "agree k vb vc" by blast+
qed

section \<open>Walking\<close>

text \<open>Nothing but memory, the free list and the interrupt flag changes.\<close>

definition keeps :: "'a kmem_state_scheme \<Rightarrow> 'a kmem_state_scheme \<Rightarrow> bool" where
  "keeps s s' \<longleftrightarrow> (\<exists>m f c. s' = s\<lparr>mem := m, freelist := f, ctl := c\<rparr> \<and> (c = ctl s \<or> c = settle (ctl s)))"

lemma keeps_refl [simp]: "keeps s s"
  unfolding keeps_def by (intro exI [of _ "mem s"] exI [of _ "freelist s"] exI [of _ "ctl s"]) simp

lemma keeps_trans:
  assumes "keeps s t" "keeps t u"
  shows "keeps s u"
proof -
  obtain m f c where t: "t = s\<lparr>mem := m, freelist := f, ctl := c\<rparr>" "c = ctl s \<or> c = settle (ctl s)"
    using assms(1) by (auto simp: keeps_def)
  obtain m' f' c' where "u = t\<lparr>mem := m', freelist := f', ctl := c'\<rparr>" "c' = ctl t \<or> c' = settle (ctl t)"
    using assms(2) by (auto simp: keeps_def)
  then have "u = s\<lparr>mem := m', freelist := f', ctl := c'\<rparr>" "c' = ctl s \<or> c' = settle (ctl s)"
    using t by auto
  then show ?thesis unfolding keeps_def by blast
qed

lemma keeps_kend: "keeps s t \<Longrightarrow> kend t = kend s"
  by (auto simp: keeps_def)

lemma keeps_mem [simp]: "keeps s (s\<lparr>mem := m\<rparr>)"
  unfolding keeps_def by (intro exI [of _ m] exI [of _ "freelist s"] exI [of _ "ctl s"]) simp

lemma keeps_alloc [simp]: "keeps s (s\<lparr>freelist := f, ctl := settle (ctl s), mem := m\<rparr>)"
  unfolding keeps_def by (intro exI [of _ m] exI [of _ f] exI [of _ "settle (ctl s)"]) simp

text \<open>The free list shrinks from \<open>xs\<close> to \<open>ys\<close>, the pages taken may have joined the tree, and pages that are
  neither free nor in the tree keep their contents.\<close>

definition evolves :: "u64 \<Rightarrow> u64 list \<Rightarrow> 'a kmem_state_scheme \<Rightarrow> u64 list \<Rightarrow> 'a kmem_state_scheme \<Rightarrow> bool" where
  "evolves pt xs s ys s' \<longleftrightarrow>
     kmem_inv ys s' \<and> set ys \<subseteq> set xs \<and> pt_ok ys (mem s') pt \<and>
     nodes (mem s') pt \<subseteq> nodes (mem s) pt \<union> (set xs - set ys) \<and>
     (\<forall>q. aligned q \<longrightarrow> q \<notin> set xs \<longrightarrow> q \<notin> nodes (mem s) pt \<longrightarrow> same_on {q} (mem s) (mem s')) \<and> keeps s s'"

lemma evolves_refl: "kmem_inv xs s \<Longrightarrow> pt_ok xs (mem s) pt \<Longrightarrow> evolves pt xs s xs s"
  by (simp add: evolves_def)

lemma evolves_trans:
  assumes "evolves pt xs s ys t" "evolves pt ys t zs u"
  shows "evolves pt xs s zs u"
  unfolding evolves_def
proof (intro conjI allI impI)
  show "kmem_inv zs u" "set zs \<subseteq> set xs" "pt_ok zs (mem u) pt" "keeps s u"
    using assms keeps_trans by (auto simp: evolves_def)
  have n: "nodes (mem u) pt \<subseteq> nodes (mem t) pt \<union> (set ys - set zs)" "set zs \<subseteq> set ys"
      "nodes (mem t) pt \<subseteq> nodes (mem s) pt \<union> (set xs - set ys)" "set ys \<subseteq> set xs"
    using assms by (simp_all add: evolves_def)
  show "nodes (mem u) pt \<subseteq> nodes (mem s) pt \<union> (set xs - set zs)" using n by blast
  fix q
  assume q: "aligned q" "q \<notin> set xs" "q \<notin> nodes (mem s) pt"
  then have "q \<notin> set ys" "q \<notin> nodes (mem t) pt" using n by auto
  then have "same_on {q} (mem s) (mem t)" "same_on {q} (mem t) (mem u)" using assms q by (simp_all add: evolves_def)
  then show "same_on {q} (mem s) (mem u)" by (rule same_on_trans)
qed

lemma kmem_inv_same: "kmem_inv xs s \<Longrightarrow> same_on (set xs) (mem s) m \<Longrightarrow> kmem_inv xs (s\<lparr>mem := m\<rparr>)"
  by (simp add: kmem_inv_def flist_cong [of xs "mem s" m])

lemma zeroed_memset: "zeroed (memset m p 0 4096) p"
  by (simp add: zeroed_def memset_page)

text \<open>A walk that allocates nothing reads the tree.\<close>

lemma walk_loop_read:
  "node (mem s) pt va (2 - l) = Some q \<Longrightarrow> l \<le> 2 \<Longrightarrow>
   walk_loop l q va False s = (Ret (case node (mem s) pt va 2 of None \<Rightarrow> 0 | Some p \<Rightarrow> pte_at p 0 va), s)"
proof (induction l arbitrary: q)
  case (Suc l)
  let ?e = "load64 (mem s) (pte_at q (Suc l) va)"
  have d: "2 - (2 - Suc l) = Suc l" "Suc (2 - Suc l) = 2 - l" using Suc.prems by auto
  have n: "node (mem s) pt va (2 - l) = (if ?e AND PTE_V \<noteq> 0 then Some (PTE2PA ?e) else None)"
    using Suc.prems unfolding d(2) [symmetric] by (simp add: Let_def d(1))
  show ?case
  proof (cases "?e AND PTE_V \<noteq> 0")
    case True
    then show ?thesis using Suc.IH [of "PTE2PA ?e"] n Suc.prems by (simp add: kdefs ldw_def)
  next
    case False
    then have "node (mem s) pt va (2 - l) = None" using n by simp
    then have "node (mem s) pt va 2 = None" using node_prev [of "mem s" pt va 2 _ "2 - l"] by (cases "node (mem s) pt va 2") auto
    then show ?thesis using False by (simp add: kdefs ldw_def)
  qed
qed (simp add: ret_def)

lemma walk_read:
  "va < MAXVA \<Longrightarrow> walk pt va False s = (Ret (case node (mem s) pt va 2 of None \<Rightarrow> 0 | Some p \<Rightarrow> pte_at p 0 va), s)"
  using walk_loop_read [of s pt va 2 pt] by (auto simp: walk_def)


text \<open>A page taken from the free list and zeroed: a fresh one, and nothing else is disturbed.\<close>

lemma kalloc_zeroed:
  assumes inv: "kmem_inv (x # ys) s" and ok: "pt_ok (x # ys) (mem s) pt"
  shows "\<exists>s1. kalloc s = (Ret x, s1) \<and>
    (let s' = s1\<lparr>mem := memset (mem s1) x 0 4096\<rparr>
     in kmem_inv ys s' \<and> keeps s s' \<and> zeroed (mem s') x \<and> same_on (nodes (mem s) pt) (mem s) (mem s') \<and>
        (\<forall>q. aligned q \<longrightarrow> q \<noteq> x \<longrightarrow> same_on {q} (mem s) (mem s')))"
proof -
  have x: "page_ok (kend s) x" "x \<notin> set ys" "freelist s = x" "lock_free KmemLock (ctl s)"
    using inv by (auto simp: kmem_inv_def)
  then have x2: "aligned x" "x \<noteq> 0" by (simp_all add: page_ok_def)
  define s1 where "s1 = s\<lparr>freelist := load64 (mem s) x, ctl := settle (ctl s), mem := memset (mem s) x 5 4096\<rparr>"
  have s1: "kalloc s = (Ret x, s1)" "kmem_inv ys s1"
    using kalloc_eq [of s] kalloc_inv [OF inv] x x2 by (simp_all add: s1_def)
  let ?m = "memset (mem s1) x 0 4096"
  have m: "?m = memset (mem s) x 0 4096" by (auto simp: s1_def memset_page)
  have other: "same_on P (mem s) ?m" if "\<forall>p\<in>P. aligned p \<and> p \<noteq> x" for P
    unfolding m using x2(1) that by (rule same_on_memset_page)
  have "same_on (set ys) (mem s1) ?m"
    using inv x(2) x2(1) by (intro same_on_memset_page) (auto simp: kmem_inv_def page_ok_def)
  then have "kmem_inv ys (s1\<lparr>mem := ?m\<rparr>)" by (rule kmem_inv_same [OF s1(2)])
  moreover have "same_on (nodes (mem s) pt) (mem s) ?m" using pt_ok_nodes [OF ok] by (intro other) auto
  moreover have "keeps s (s1\<lparr>mem := ?m\<rparr>)" by (simp add: s1_def)
  ultimately show ?thesis using s1(1) other by (simp add: Let_def zeroed_memset)
qed

text \<open>One allocating step of the walk.\<close>

lemma walk_grow:
  assumes inv: "kmem_inv (x # ys) s" and ok: "pt_ok (x # ys) (mem s) pt"
    and q: "node (mem s) pt va d = Some q" "d < 2" "load64 (mem s) (pte_at q (2 - d) va) AND PTE_V = 0"
  shows "\<exists>s1. kalloc s = (Ret x, s1) \<and> x \<noteq> 0 \<and>
    (let s' = s1\<lparr>mem := grown (memset (mem s1) x 0 4096) q d va x\<rparr>
     in evolves pt (x # ys) s ys s' \<and> node (mem s') pt va (Suc d) = Some x \<and> (\<forall>vb. ent (mem s') pt vb = ent (mem s) pt vb))"
proof -
  obtain s1 where s1: "kalloc s = (Ret x, s1)" "kmem_inv ys (s1\<lparr>mem := memset (mem s1) x 0 4096\<rparr>)"
      "keeps s (s1\<lparr>mem := memset (mem s1) x 0 4096\<rparr>)" "zeroed (memset (mem s1) x 0 4096) x"
      and sn: "same_on (nodes (mem s) pt) (mem s) (memset (mem s1) x 0 4096)"
      and other: "\<And>q. aligned q \<Longrightarrow> q \<noteq> x \<Longrightarrow> same_on {q} (mem s) (memset (mem s1) x 0 4096)"
    using kalloc_zeroed [OF inv ok] by (auto simp: Let_def)
  let ?m1 = "memset (mem s1) x 0 4096"
  have x: "aligned x" "x \<noteq> 0" "x < 0x88000000" "x \<notin> set ys" using inv by (auto simp: kmem_inv_def page_ok_def)
  have nx: "x \<notin> nodes (mem s) pt" using pt_ok_nodes [OF ok] by auto
  have "x < 0x100000000000000" using x(3) by (rule order_less_trans) simp
  then have g: "can_grow (x # ys) ?m1 pt va d q x"
    unfolding can_grow_def using pt_ok_same [OF ok sn] nx x q s1(4) node_same [OF sn, of d va] same_on_entry [OF sn in_nodes [OF q(1)]]
    by (simp add: nodes_same [OF sn])
  define s' where "s' = s1\<lparr>mem := grown ?m1 q d va x\<rparr>"
  have gr: "same_on P ?m1 (mem s')" if "\<forall>p\<in>P. aligned p \<and> p \<noteq> q" for P
    unfolding s'_def grown_def pte_at_offset using that grow_aligned [OF g] offset_in_page
    by (simp add: same_on_store64 del: of_nat_mult)
  have "\<forall>p\<in>set ys. aligned p \<and> p \<noteq> q"
    using inv pt_ok_node [OF ok q(1)] q(2) by (auto simp: kmem_inv_def page_ok_def)
  then have "kmem_inv ys s'" using kmem_inv_same [OF s1(2), of "mem s'"] gr by (simp add: s'_def)
  moreover have "keeps s s'" using keeps_trans [OF s1(3) keeps_mem, of "mem s'"] by (simp add: s'_def)
  moreover have "nodes (mem s') pt \<subseteq> nodes (mem s) pt \<union> (set (x # ys) - set ys)"
    using grow_nodes [OF g] x(4) by (auto simp: s'_def nodes_same [OF sn])
  moreover have "same_on {p} (mem s) (mem s')" if "aligned p" "p \<notin> set (x # ys)" "p \<notin> nodes (mem s) pt" for p
    using that in_nodes [OF q(1)] q(2) by (intro same_on_trans [OF other gr]) auto
  moreover have "pt_ok ys (mem s') pt" unfolding s'_def using grow_ok [OF g, of ys] x(4) by auto
  ultimately have "evolves pt (x # ys) s ys s'" by (auto simp: evolves_def)
  moreover have "node (mem s') pt va (Suc d) = Some x" using grow_node [OF g, of "Suc d" va] q(2) by (simp add: s'_def del: node.simps)
  moreover have "ent (mem s') pt vb = ent (mem s) pt vb" for vb
    using grow_ent [OF g, of vb] ent_same [OF sn, of vb] by (simp add: s'_def)
  ultimately show ?thesis using s1(1) x(2) by (simp add: s'_def Let_def del: node.simps)
qed

lemma pte_at_nonzero:
  assumes "pt_ok xs m pt" "node m pt va d = Some q" "d \<le> 2"
  shows "pte_at q l va \<noteq> 0"
proof
  assume a: "pte_at q l va = 0"
  have q: "aligned q" "q \<noteq> 0" using pt_ok_node [OF assms] by auto
  have "unat (q + of_nat (8 * unat (PX l va))) = unat q + 8 * unat (PX l va)"
    using q(1) offset_in_page [of l va] by (intro aligned_unat_add) auto
  then show False using a q(2) unfolding pte_at_offset by (simp del: of_nat_mult)
qed

lemma walk_loop_alloc:
  "kmem_inv xs s \<Longrightarrow> pt_ok xs (mem s) pt \<Longrightarrow> node (mem s) pt va (2 - l) = Some q \<Longrightarrow> l \<le> 2 \<Longrightarrow>
   \<exists>a s' ys. walk_loop l q va True s = (Ret a, s') \<and> evolves pt xs s ys s' \<and>
     (\<forall>vb. ent (mem s') pt vb = ent (mem s) pt vb) \<and>
     (if a = 0 then ys = [] else \<exists>p. node (mem s') pt va 2 = Some p \<and> a = pte_at p 0 va)"
proof (induction l arbitrary: q s xs)
  case 0
  have "pte_at q 0 va \<noteq> 0" using pte_at_nonzero [OF 0(2), of va 2 q] 0(3) by simp
  then show ?case using 0 evolves_refl [of xs s pt] by (auto simp: ret_def)
next
  case (Suc l)
  let ?e = "load64 (mem s) (pte_at q (Suc l) va)"
  have d: "2 - (2 - Suc l) = Suc l" "Suc (2 - Suc l) = 2 - l" "2 - Suc l < 2" "2 - (Suc 0 - l) = Suc l" using Suc.prems by auto
  show ?case
  proof (cases "?e AND PTE_V \<noteq> 0")
    case True
    then have "node (mem s) pt va (2 - l) = Some (PTE2PA ?e)"
      using Suc.prems unfolding d(2) [symmetric] by (simp add: Let_def d(1))
    then show ?thesis using Suc.IH [OF Suc.prems(1,2)] Suc.prems(4) True by (simp add: kdefs ldw_def)
  next
    case False
    show ?thesis
    proof (cases xs)
      case Nil
      then have k: "kalloc s = (Ret 0, s\<lparr>ctl := settle (ctl s)\<rparr>)" using Suc.prems by (intro kalloc_empty) (simp_all add: kmem_inv_def)
      have "keeps s (s\<lparr>ctl := settle (ctl s)\<rparr>)" using keeps_alloc [where f = "freelist s" and m = "mem s" and s = s] by simp
      then have "evolves pt [] s [] (s\<lparr>ctl := settle (ctl s)\<rparr>)"
        using Suc.prems Nil by (simp add: evolves_def kmem_inv_def)
      then show ?thesis using Nil False k by (auto simp: kdefs ldw_def)
    next
      case (Cons x ys)
      obtain s1 s' where s1: "kalloc s = (Ret x, s1)" "x \<noteq> 0" "s' = s1\<lparr>mem := grown (memset (mem s1) x 0 4096) q (2 - Suc l) va x\<rparr>"
          "evolves pt xs s ys s'" "node (mem s') pt va (2 - l) = Some x" "\<forall>vb. ent (mem s') pt vb = ent (mem s) pt vb"
        using walk_grow [OF Suc.prems(1) [unfolded Cons] Suc.prems(2) [unfolded Cons] Suc.prems(3)] d False Cons
        unfolding d(2) by (auto simp: Let_def d simp del: node.simps)
      have "kmem_inv ys s'" "pt_ok ys (mem s') pt" using s1(4) by (simp_all add: evolves_def)
      then obtain a s'' zs where w: "walk_loop l x va True s' = (Ret a, s'')" "evolves pt ys s' zs s''"
          "\<forall>vb. ent (mem s'') pt vb = ent (mem s') pt vb" "if a = 0 then zs = [] else \<exists>p. node (mem s'') pt va 2 = Some p \<and> a = pte_at p 0 va"
        using Suc.IH [of ys s' x] s1(5) Suc.prems(4) by auto
      have "walk_loop (Suc l) q va True s = (Ret a, s'')"
        using False s1 w(1) by (simp add: kdefs ldw_def zero_page_def stw_def grown_def d(1,4))
      then show ?thesis using evolves_trans [OF s1(4) w(2)] w(3,4) s1(6) by auto
    qed
  qed
qed

lemma walk_alloc:
  assumes "va < MAXVA" "kmem_inv xs s" "pt_ok xs (mem s) pt"
  shows "\<exists>a s' ys. walk pt va True s = (Ret a, s') \<and> evolves pt xs s ys s' \<and>
     (\<forall>vb. ent (mem s') pt vb = ent (mem s) pt vb) \<and>
     (if a = 0 then ys = [] else \<exists>p. node (mem s') pt va 2 = Some p \<and> a = pte_at p 0 va)"
  using walk_loop_alloc [OF assms(2,3), of va 2 pt] assms(1) by (auto simp: walk_def)


section \<open>Mapping\<close>

lemma evolves_leaf:
  assumes "kmem_inv ys s" "pt_ok ys (mem s) pt" "node (mem s) pt va 2 = Some p"
  shows "evolves pt ys s ys (s\<lparr>mem := store64 (mem s) (pte_at p 0 va) v\<rparr>)"
proof -
  have p: "aligned p" "p \<notin> set ys" "p \<in> nodes (mem s) pt"
    using pt_ok_node [OF assms(2,3)] in_nodes [OF assms(3)] by auto
  have o: "same_on P (mem s) (store64 (mem s) (pte_at p 0 va) v)" if "\<forall>q\<in>P. aligned q \<and> q \<noteq> p" for P
    unfolding pte_at_offset using p(1) offset_in_page that by (rule same_on_store64)
  have "same_on (set ys) (mem s) (store64 (mem s) (pte_at p 0 va) v)"
    using assms(1) p(2) by (intro o) (auto simp: kmem_inv_def page_ok_def)
  moreover have "same_on {q} (mem s) (store64 (mem s) (pte_at p 0 va) v)" if "aligned q" "q \<notin> nodes (mem s) pt" for q
    using that p(3) by (intro o) auto
  ultimately show ?thesis
    using kmem_inv_same [OF assms(1)] pt_ok_leaf_store [OF assms(2,3)] by (auto simp: evolves_def)
qed

text \<open>\<open>j\<close> pages from \<open>va\<close> on are mapped to the pages from \<open>pa\<close> on, and every other entry is as it was.\<close>

definition maps :: "memory \<Rightarrow> u64 \<Rightarrow> u64 \<Rightarrow> nat \<Rightarrow> u64 \<Rightarrow> u64 \<Rightarrow> memory \<Rightarrow> bool" where
  "maps m pt va j pa perm m' \<longleftrightarrow> (\<forall>vb. aligned vb \<longrightarrow> vb < MAXVA \<longrightarrow>
     ent m' pt vb = (if unat (vb - va) < j * 4096 then PA2PTE (pa + (vb - va)) OR perm OR PTE_V else ent m pt vb))"

lemma maps_0 [simp]: "maps m pt va 0 pa perm m' \<longleftrightarrow> (\<forall>vb. aligned vb \<longrightarrow> vb < MAXVA \<longrightarrow> ent m' pt vb = ent m pt vb)"
  by (simp add: maps_def)

lemma unat_page_diff:
  assumes "aligned va" "aligned vb" "unat va + 4096 \<le> 2 ^ 38" "vb \<noteq> va"
  shows "unat (vb - va) < Suc j * 4096 \<longleftrightarrow> unat (vb - (va + PGSIZE)) < j * 4096"
proof -
  have al: "aligned (vb - va)" "vb - va \<noteq> 0" using assms by (simp_all add: aligned_diff)
  then have ge: "4096 \<le> unat (vb - va)"
    by (metis aligned_unat dvd_imp_le mod_eq_0_iff_dvd not_gr_zero unat_eq_zero)
  then have "unat ((vb - va) - 4096) = unat (vb - va) - 4096"
    by (subst unat_sub) (simp_all add: word_le_nat_alt)
  moreover have "vb - (va + 4096) = (vb - va) - 4096" by simp
  ultimately have "unat (vb - (va + 4096)) = unat (vb - va) - 4096" by (simp only:)
  then show ?thesis using ge by simp linarith
qed

lemma maps_Suc:
  assumes va: "aligned va" "unat va + 4096 \<le> 2 ^ 38" and p: "pt_ok ys m pt" "node m pt va 2 = Some p"
    and m: "maps (store64 m (pte_at p 0 va) (PA2PTE pa OR perm OR PTE_V)) pt (va + PGSIZE) j (pa + PGSIZE) perm m'"
    and far: "unat va + Suc j * 4096 \<le> 2 ^ 38"
  shows "maps m pt va (Suc j) pa perm m'"
  unfolding maps_def
proof (intro allI impI)
  fix vb
  assume vb: "aligned vb" "vb < MAXVA"
  have va': "va < MAXVA" using va by (simp add: word_less_nat_alt)
  let ?m = "store64 m (pte_at p 0 va) (PA2PTE pa OR perm OR PTE_V)"
  have e: "ent ?m pt vb = (if vb = va then PA2PTE pa OR perm OR PTE_V else ent m pt vb)"
    using ent_leaf_store [OF p, of "PA2PTE pa OR perm OR PTE_V" vb] agree_page [OF va' vb(2) va(1) vb(1)] by auto
  show "ent m' pt vb = (if unat (vb - va) < Suc j * 4096 then PA2PTE (pa + (vb - va)) OR perm OR PTE_V else ent m pt vb)"
  proof (cases "vb = va")
    case True
    have "\<not> unat (va - (va + PGSIZE)) < j * 4096" using far by simp
    then show ?thesis using m vb e True by (simp add: maps_def)
  next
    case False
    then show ?thesis using m vb e unat_page_diff [OF va(1) vb(1) va(2) False, of j] by (simp add: maps_def algebra_simps)
  qed
qed


lemma mappages_step:
  assumes "kmem_inv xs s" "pt_ok xs (mem s) pt" "va < MAXVA" "ent (mem s) pt va AND PTE_V = 0"
  shows "(\<exists>s1. mappages_loop (Suc f) pt va lst pa perm s = (Ret (- 1), s1) \<and> evolves pt xs s [] s1 \<and>
       (\<forall>vb. ent (mem s1) pt vb = ent (mem s) pt vb)) \<or>
    (\<exists>s1 ys p. evolves pt xs s ys s1 \<and> (\<forall>vb. ent (mem s1) pt vb = ent (mem s) pt vb) \<and> node (mem s1) pt va 2 = Some p \<and>
       mappages_loop (Suc f) pt va lst pa perm s =
         (if va = lst then ret 0 else mappages_loop f pt (va + PGSIZE) lst (pa + PGSIZE) perm)
           (s1\<lparr>mem := store64 (mem s1) (pte_at p 0 va) (PA2PTE pa OR perm OR PTE_V)\<rparr>))"
proof -
  obtain a s1 ys where w: "walk pt va True s = (Ret a, s1)" "evolves pt xs s ys s1" "\<forall>vb. ent (mem s1) pt vb = ent (mem s) pt vb"
      "if a = 0 then ys = [] else \<exists>p. node (mem s1) pt va 2 = Some p \<and> a = pte_at p 0 va"
    using walk_alloc [OF assms(3,1,2)] by blast
  show ?thesis
  proof (cases "a = 0")
    case True
    then show ?thesis using w by (simp add: kdefs)
  next
    case False
    then obtain p where p: "node (mem s1) pt va 2 = Some p" "a = pte_at p 0 va" using w(4) by auto
    then have "ent (mem s1) pt va = load64 (mem s1) a" by (simp add: ent_def)
    then have "load64 (mem s1) a AND PTE_V = 0" using w(3) assms(4) by simp
    then have "mappages_loop (Suc f) pt va lst pa perm s =
         (if va = lst then ret 0 else mappages_loop f pt (va + PGSIZE) lst (pa + PGSIZE) perm)
           (s1\<lparr>mem := store64 (mem s1) (pte_at p 0 va) (PA2PTE pa OR perm OR PTE_V)\<rparr>)"
      using w(1) False p(2) by (simp add: kdefs ldw_def stw_def)
    then show ?thesis using w(2,3) p(1) by blast
  qed
qed

declare mappages_loop.simps [simp del]

lemma next_page:
  assumes "unat (va :: u64) + Suc (Suc n) * 4096 \<le> 2 ^ 38"
  shows "unat (va + PGSIZE) = unat va + 4096" "va \<noteq> va + of_nat (Suc n) * PGSIZE"
    "va + of_nat (Suc n) * PGSIZE = va + PGSIZE + of_nat n * PGSIZE"
proof -
  show "unat (va + PGSIZE) = unat va + 4096" using unat_add_of_nat [of va 4096] assms by simp
  define k where "k = Suc n * 4096"
  have "unat (of_nat k :: u64) = k" "k \<noteq> 0"
    using assms by (simp_all add: k_def unat_of_nat take_bit_nat_eq_self del: of_nat_mult of_nat_Suc of_nat_add)
  then have "(of_nat k :: u64) \<noteq> 0" by (metis unat_0)
  then show "va \<noteq> va + of_nat (Suc n) * PGSIZE" by (simp add: k_def)
  show "va + of_nat (Suc n) * PGSIZE = va + PGSIZE + of_nat n * PGSIZE" by (simp add: algebra_simps)
qed

lemma leaf_store_unmapped:
  assumes "pt_ok ys m pt" "node m pt va 2 = Some p" "aligned va" "va < MAXVA" "unat va + Suc (Suc n) * 4096 \<le> 2 ^ 38"
    and free: "\<forall>vb. aligned vb \<longrightarrow> vb < MAXVA \<longrightarrow> unat (vb - va) < Suc (Suc n) * 4096 \<longrightarrow> ent m pt vb AND PTE_V = 0"
    and vb: "aligned vb" "vb < MAXVA" "unat (vb - (va + PGSIZE)) < Suc n * 4096"
  shows "ent (store64 m (pte_at p 0 va) v) pt vb AND PTE_V = 0"
proof -
  have ne: "vb \<noteq> va" using vb(3) assms(5) by auto
  then have "ent (store64 m (pte_at p 0 va) v) pt vb = ent m pt vb"
    using ent_leaf_store [OF assms(1,2)] agree_page [OF assms(4) vb(2) assms(3) vb(1)] by auto
  then show ?thesis
    using free vb unat_page_diff [OF assms(3) vb(1) _ ne, of "Suc n"] assms(5) by auto
qed

lemma mappages_loop_ok:
  assumes "kmem_inv xs s" "pt_ok xs (mem s) pt" "aligned va" "unat va + Suc n * 4096 \<le> 2 ^ 38"
    and "\<forall>vb. aligned vb \<longrightarrow> vb < MAXVA \<longrightarrow> unat (vb - va) < Suc n * 4096 \<longrightarrow> ent (mem s) pt vb AND PTE_V = 0"
  shows "\<exists>r s' ys j. mappages_loop (Suc n) pt va (va + of_nat n * PGSIZE) pa perm s = (Ret r, s') \<and>
     evolves pt xs s ys s' \<and> maps (mem s) pt va j pa perm (mem s') \<and>
     (r = 0 \<and> j = Suc n \<or> r = - 1 \<and> ys = [] \<and> j \<le> n)"
  using assms
proof (induction n arbitrary: xs s va pa)
  case (0 xs s va pa)
  then have va: "va < MAXVA" "ent (mem s) pt va AND PTE_V = 0" by (simp_all add: word_less_nat_alt)
  show ?case
    using mappages_step [OF 0(1,2) va, of 0 "va + of_nat 0 * PGSIZE" pa perm]
  proof (elim disjE exE conjE)
    fix s1 :: "'a kmem_state_scheme" and ys p
    assume e: "evolves pt xs s ys s1" "\<forall>vb. ent (mem s1) pt vb = ent (mem s) pt vb" and p: "node (mem s1) pt va 2 = Some p"
      and l: "mappages_loop (Suc 0) pt va (va + of_nat 0 * PGSIZE) pa perm s =
         (if va = va + of_nat 0 * PGSIZE then ret 0 else mappages_loop 0 pt (va + PGSIZE) (va + of_nat 0 * PGSIZE) (pa + PGSIZE) perm)
           (s1\<lparr>mem := store64 (mem s1) (pte_at p 0 va) (PA2PTE pa OR perm OR PTE_V)\<rparr>)"
    have k: "kmem_inv ys s1" "pt_ok ys (mem s1) pt" using e(1) by (simp_all add: evolves_def)
    have "maps (mem s1) pt va 1 pa perm (store64 (mem s1) (pte_at p 0 va) (PA2PTE pa OR perm OR PTE_V))"
      using maps_Suc [OF 0(3) _ k(2) p, of pa perm 0] 0(4) by simp
    then have "maps (mem s) pt va 1 pa perm (store64 (mem s1) (pte_at p 0 va) (PA2PTE pa OR perm OR PTE_V))"
      using e(2) by (simp add: maps_def)
    then show ?thesis using evolves_trans [OF e(1) evolves_leaf [OF k p]] l by (fastforce simp: ret_def)
  qed fastforce
next
  case (Suc n xs s va pa)
  have va: "va < MAXVA" "ent (mem s) pt va AND PTE_V = 0" using Suc.prems(3-5) by (simp_all add: word_less_nat_alt)
  note nxt = next_page [OF Suc.prems(4)]
  show ?case
    using mappages_step [OF Suc.prems(1,2) va, of "Suc n" "va + of_nat (Suc n) * PGSIZE" pa perm]
  proof (elim disjE exE conjE)
    fix s1 :: "'a kmem_state_scheme" and ys p
    let ?m = "store64 (mem s1) (pte_at p 0 va) (PA2PTE pa OR perm OR PTE_V)"
    assume e: "evolves pt xs s ys s1" "\<forall>vb. ent (mem s1) pt vb = ent (mem s) pt vb" and p: "node (mem s1) pt va 2 = Some p"
      and l: "mappages_loop (Suc (Suc n)) pt va (va + of_nat (Suc n) * PGSIZE) pa perm s =
         (if va = va + of_nat (Suc n) * PGSIZE then ret 0 else mappages_loop (Suc n) pt (va + PGSIZE) (va + of_nat (Suc n) * PGSIZE) (pa + PGSIZE) perm)
           (s1\<lparr>mem := ?m\<rparr>)"
    have k: "kmem_inv ys s1" "pt_ok ys (mem s1) pt" using e(1) by (simp_all add: evolves_def)
    have ev: "evolves pt xs s ys (s1\<lparr>mem := ?m\<rparr>)" by (rule evolves_trans [OF e(1) evolves_leaf [OF k p]])
    then have k2: "kmem_inv ys (s1\<lparr>mem := ?m\<rparr>)" "pt_ok ys (mem (s1\<lparr>mem := ?m\<rparr>)) pt" by (simp_all add: evolves_def)
    obtain r s' zs j where r: "mappages_loop (Suc n) pt (va + PGSIZE) (va + PGSIZE + of_nat n * PGSIZE) (pa + PGSIZE) perm (s1\<lparr>mem := ?m\<rparr>) = (Ret r, s')"
        "evolves pt ys (s1\<lparr>mem := ?m\<rparr>) zs s'" "maps ?m pt (va + PGSIZE) j (pa + PGSIZE) perm (mem s')" "r = 0 \<and> j = Suc n \<or> r = - 1 \<and> zs = [] \<and> j \<le> n"
      using Suc.IH [OF k2, of "va + PGSIZE" "pa + PGSIZE"] Suc.prems(3,4) nxt(1)
        leaf_store_unmapped [OF k(2) p Suc.prems(3) va(1) Suc.prems(4)] Suc.prems(5) e(2) by auto
    have "maps (mem s1) pt va (Suc j) pa perm (mem s')"
      by (rule maps_Suc [OF Suc.prems(3) _ k(2) p r(3)]) (use r(4) Suc.prems(4) in auto)
    then have "maps (mem s) pt va (Suc j) pa perm (mem s')" using e(2) by (simp add: maps_def)
    moreover have "mappages_loop (Suc (Suc n)) pt va (va + of_nat (Suc n) * PGSIZE) pa perm s = (Ret r, s')"
      using l nxt(2) r(1) by (simp only: if_False nxt(3))
    ultimately show ?thesis using evolves_trans [OF ev r(2)] r(4) by fastforce
  next
    fix s1 :: "'a kmem_state_scheme"
    assume "mappages_loop (Suc (Suc n)) pt va (va + of_nat (Suc n) * PGSIZE) pa perm s = (Ret (- 1), s1)"
      "evolves pt xs s [] s1" "\<forall>vb. ent (mem s1) pt vb = ent (mem s) pt vb"
    then show ?thesis by (intro exI [of _ "- 1"] exI [of _ s1] exI [of _ "[]"] exI [of _ 0]) simp
  qed
qed


lemma mappages_ok:
  assumes "kmem_inv xs s" "pt_ok xs (mem s) pt" "aligned va" "0 < n" "unat va + n * 4096 \<le> 2 ^ 38"
    and "\<forall>vb. aligned vb \<longrightarrow> vb < MAXVA \<longrightarrow> unat (vb - va) < n * 4096 \<longrightarrow> ent (mem s) pt vb AND PTE_V = 0"
  shows "\<exists>r s' ys j. mappages pt va (of_nat n * PGSIZE) pa perm s = (Ret r, s') \<and>
     evolves pt xs s ys s' \<and> maps (mem s) pt va j pa perm (mem s') \<and>
     (r = 0 \<and> j = n \<or> r = - 1 \<and> ys = [] \<and> j < n)"
proof -
  obtain k where k: "n = Suc k" using assms(4) by (cases n) auto
  have u: "unat (of_nat n * PGSIZE) = n * 4096"
    using unat_add_of_nat [of 0 "n * 4096"] assms(5) by simp
  then have al: "aligned (of_nat n * PGSIZE)" "of_nat n * PGSIZE \<noteq> 0"
    using assms(4) by (auto simp: aligned_unat unat_eq_zero [symmetric] simp del: unat_eq_zero)
  have l: "va + of_nat n * PGSIZE - PGSIZE = va + of_nat k * PGSIZE" "unat (of_nat n * PGSIZE) div 4096 = Suc k"
    using u by (simp_all add: k algebra_simps)
  have "mappages pt va (of_nat n * PGSIZE) pa perm s =
      mappages_loop (unat (of_nat n * PGSIZE) div 4096) pt va (va + of_nat n * PGSIZE - PGSIZE) pa perm s"
    unfolding mappages_def using al assms(3) by (simp add: aligned_def)
  note this [unfolded l]
  then show ?thesis using mappages_loop_ok [OF assms(1-3), of k pa perm] assms(5,6) k by (auto simp: less_Suc_eq_le)
qed


section \<open>Fresh tables\<close>

lemma fresh_node: "zeroed m pt \<Longrightarrow> node m pt va (Suc d) = None"
  by (induction d) (simp_all add: zeroed_entry)

lemma fresh_ent: "zeroed m pt \<Longrightarrow> ent m pt va = 0"
  using fresh_node [of m pt va 1] by (simp add: ent_def numeral_2_eq_2 del: node.simps)

lemma fresh_nodes: "zeroed m pt \<Longrightarrow> nodes m pt = {pt}"
proof -
  assume z: "zeroed m pt"
  have "p = pt" if "node m pt va d = Some p" for va d p
    using that fresh_node [OF z, of va] by (cases d) (simp_all del: node.simps(2))
  then show ?thesis using root_in_nodes by (auto simp: nodes_def)
qed

lemma fresh_ok:
  assumes "zeroed m pt" "aligned pt" "pt \<noteq> 0" "pt \<notin> set xs"
  shows "pt_ok xs m pt"
proof -
  have "d = 0" if "node m pt va d = Some p" for va d p
    using that fresh_node [OF assms(1), of va] by (cases d) (simp_all del: node.simps(2))
  then have "d = e \<and> agree d va vb" if "node m pt va d = Some p" "node m pt vb e = Some p" for va vb d e p
    using that by (metis agree_0)
  then show ?thesis unfolding pt_ok_def fresh_nodes [OF assms(1)] using assms(2-) by simp
qed

section \<open>User memory\<close>

text \<open>The frame behind a page, the pages user code can reach, and the byte it sees at an address.\<close>

definition frame :: "memory \<Rightarrow> u64 \<Rightarrow> u64 \<Rightarrow> u64" where
  "frame m pt va = PTE2PA (ent m pt va)"

definition upage :: "memory \<Rightarrow> u64 \<Rightarrow> u64 \<Rightarrow> bool" where
  "upage m pt va \<longleftrightarrow> aligned va \<and> va < MAXVA \<and> ent m pt va AND PTE_V \<noteq> 0 \<and> ent m pt va AND PTE_U \<noteq> 0"

definition wpage :: "memory \<Rightarrow> u64 \<Rightarrow> u64 \<Rightarrow> bool" where
  "wpage m pt va \<longleftrightarrow> upage m pt va \<and> ent m pt va AND PTE_W \<noteq> 0"

definition ubyte :: "memory \<Rightarrow> u64 \<Rightarrow> u64 \<Rightarrow> byte" where
  "ubyte m pt x = m (frame m pt (PGROUNDDOWN x) + (x - PGROUNDDOWN x))"

text \<open>User pages have frames of their own, apart from the table.\<close>

definition user_ok :: "memory \<Rightarrow> u64 \<Rightarrow> bool" where
  "user_ok m pt \<longleftrightarrow> (\<forall>va. upage m pt va \<longrightarrow> frame m pt va \<noteq> 0 \<and> frame m pt va \<notin> nodes m pt) \<and>
     (\<forall>va vb. upage m pt va \<longrightarrow> upage m pt vb \<longrightarrow> frame m pt va = frame m pt vb \<longrightarrow> va = vb)"

lemma aligned_PTE2PA [simp]: "aligned (PTE2PA e)"
  by (simp add: PTE2PA_def aligned_mask take_bit_push_bit)

lemma user_same:
  assumes "same_on (nodes m pt) m m'"
  shows "ent m' pt = ent m pt" "frame m' pt = frame m pt" "upage m' pt = upage m pt" "wpage m' pt = wpage m pt"
    "user_ok m' pt = user_ok m pt"
proof -
  show e: "ent m' pt = ent m pt" using ent_same [OF assms] by (simp add: fun_eq_iff)
  then show f: "frame m' pt = frame m pt" "upage m' pt = upage m pt" "wpage m' pt = wpage m pt"
    by (auto simp: frame_def upage_def wpage_def fun_eq_iff)
  show "user_ok m' pt = user_ok m pt" unfolding user_ok_def f nodes_same [OF assms] by (rule refl)
qed

lemma walkaddr_eq:
  assumes "va < MAXVA" "pt_ok xs (mem s) pt"
  shows "walkaddr pt va s =
    (Ret (if ent (mem s) pt va AND PTE_V \<noteq> 0 \<and> ent (mem s) pt va AND PTE_U \<noteq> 0 then frame (mem s) pt va else 0), s)"
  using assms(1) pte_at_nonzero [OF assms(2), of va 2 _ 0]
  by (auto simp: walkaddr_def kdefs walk_read ldw_def frame_def ent_def split: option.splits)

lemma user_page_eq:
  assumes "upage (mem s) pt va" "user_ok (mem s) pt" "pt_ok xs (mem s) pt"
  shows "user_page pt va s = (Ret (frame (mem s) pt va), s)"
proof -
  have "frame (mem s) pt va \<noteq> 0" using assms(1,2) unfolding user_ok_def by blast
  moreover have "va < MAXVA" using assms(1) by (simp add: upage_def)
  ultimately show ?thesis using walkaddr_eq [OF _ assms(3)] assms(1) by (simp add: user_page_def kdefs upage_def)
qed

text \<open>A write inside one frame.\<close>

lemma mem_put_frame:
  assumes "aligned p" "off + length bs \<le> 4096" "\<forall>q\<in>P. aligned q \<and> q \<noteq> p"
  shows "same_on P m (mem_put m (p + of_nat off) bs)"
  unfolding same_on_def
proof (intro ballI allI impI)
  fix q x
  assume q: "q \<in> P" "in_page q x"
  have "length bs \<le> unat (x - (p + of_nat off))"
  proof (rule ccontr)
    assume n: "\<not> length bs \<le> unat (x - (p + of_nat off))"
    have "in_page p (p + of_nat (off + unat (x - (p + of_nat off))))" using n assms(2) by (intro in_page_offset) linarith
    then have "in_page p x" by simp
    then show False using assms(1,3) q pages_disjoint by blast
  qed
  then show "m x = mem_put m (p + of_nat off) bs x" by (simp add: mem_put_other)
qed


section \<open>Copying to and from user space\<close>

text \<open>User memory after writing \<open>bs\<close> at \<open>va\<close>, as user code sees it.\<close>

definition uwritten :: "memory \<Rightarrow> u64 \<Rightarrow> u64 \<Rightarrow> byte list \<Rightarrow> memory \<Rightarrow> bool" where
  "uwritten m pt va bs m' \<longleftrightarrow> same_on (nodes m pt) m m' \<and>
     (\<forall>q. aligned q \<longrightarrow> (\<forall>vb. upage m pt vb \<longrightarrow> frame m pt vb \<noteq> q) \<longrightarrow> same_on {q} m m') \<and>
     (\<forall>x. upage m pt (PGROUNDDOWN x) \<longrightarrow>
        ubyte m' pt x = (if unat (x - va) < length bs then bs ! unat (x - va) else ubyte m pt x))"

lemma uwritten_nodes: "uwritten m pt va bs m' \<Longrightarrow> same_on (nodes m pt) m m'"
  unfolding uwritten_def by (rule conjunct1)

lemma uwritten_byte:
  assumes "uwritten m pt va bs m'" "upage m pt (PGROUNDDOWN x)"
  shows "ubyte m' pt x = (if unat (x - va) < length bs then bs ! unat (x - va) else ubyte m pt x)"
  using assms(1) [unfolded uwritten_def, THEN conjunct2, THEN conjunct2] assms(2) by blast

lemma page_offset: "PGROUNDDOWN x + of_nat (unat (x - PGROUNDDOWN x)) = x" "unat (x - PGROUNDDOWN x) < 4096"
  using in_page_aligned [of "PGROUNDDOWN x" x] by (simp_all add: in_page_def)

lemma page_room:
  assumes "j < in_page_room va"
  shows "PGROUNDDOWN (va + of_nat j) = PGROUNDDOWN va"
proof -
  let ?p = "PGROUNDDOWN va"
  have "in_page ?p (?p + of_nat (unat (va - ?p) + j))"
    using assms page_offset(2) [of va] by (intro in_page_offset) (simp add: in_page_room_def)
  moreover have "?p + of_nat (unat (va - ?p) + j) = va + of_nat j"
    using page_offset(1) [of va] by (simp add: add.assoc [symmetric])
  ultimately have "in_page ?p (va + of_nat j)" by (simp only:)
  then show ?thesis using in_page_aligned [of ?p] by simp
qed

text \<open>One page's worth of the copy.\<close>

lemma uwritten_chunk:
  assumes pt: "pt_ok xs m pt" and ok: "user_ok m pt" and p: "upage m pt (PGROUNDDOWN va)" and bs: "length bs \<le> in_page_room va"
  shows "uwritten m pt va bs (mem_put m (frame m pt (PGROUNDDOWN va) + (va - PGROUNDDOWN va)) bs)"
proof -
  let ?p = "PGROUNDDOWN va" and ?o = "unat (va - PGROUNDDOWN va)"
  let ?f = "frame m pt ?p" let ?m = "mem_put m (?f + (va - ?p)) bs"
  have fr: "aligned (frame m pt vb)" for vb by (simp add: frame_def)
  have o: "?o + length bs \<le> 4096" using bs page_offset(2) [of va] by (simp add: in_page_room_def)
  have far: "same_on P m ?m" if "\<forall>q\<in>P. aligned q \<and> q \<noteq> ?f" for P
    using mem_put_frame [OF fr o that, of m] by simp
  have "?f \<notin> nodes m pt" using ok p unfolding user_ok_def by blast
  then have n: "same_on (nodes m pt) m ?m" using pt_ok_nodes [OF pt] by (intro far) auto
  have "ubyte ?m pt x = (if unat (x - va) < length bs then bs ! unat (x - va) else ubyte m pt x)"
    if x: "upage m pt (PGROUNDDOWN x)" for x
  proof (cases "PGROUNDDOWN x = ?p")
    case True
    have e: "?f + (x - ?p) - (?f + (va - ?p)) = x - va" by simp
    have "ubyte ?m pt x = ?m (?f + (x - ?p))" unfolding ubyte_def user_same [OF n] True by (rule refl)
    also have "\<dots> = (if unat (x - va) < length bs then bs ! unat (x - va) else m (?f + (x - ?p)))"
      unfolding mem_put_def e by (rule refl)
    finally show ?thesis by (simp only: ubyte_def True)
  next
    case False
    let ?g = "frame m pt (PGROUNDDOWN x)"
    have "?g \<noteq> ?f" using ok p x False unfolding user_ok_def by blast
    then have "same_on {?g} m ?m" using fr by (intro far) auto
    moreover have "in_page ?g (?g + (x - PGROUNDDOWN x))" using page_offset(2) [of x] by (simp add: in_page_def)
    ultimately have "ubyte ?m pt x = ubyte m pt x" by (simp add: ubyte_def user_same [OF n] same_on_def)
    moreover have "\<not> unat (x - va) < length bs" using page_room [of "unat (x - va)" va] bs False by auto
    ultimately show ?thesis by simp
  qed
  moreover have "same_on {q} m ?m" if "aligned q" "\<forall>vb. upage m pt vb \<longrightarrow> frame m pt vb \<noteq> q" for q
    using that p by (intro far) blast
  ultimately show ?thesis using n by (simp add: uwritten_def)
qed

lemma uwritten_append:
  assumes a: "uwritten m pt va as m1" and b: "uwritten m1 pt (va + of_nat (length as)) bs m2"
    and len: "length as + length bs < 2 ^ 64"
  shows "uwritten m pt va (as @ bs) m2"
proof -
  have n: "same_on (nodes m pt) m m1" using a by (simp add: uwritten_def)
  note u = user_same [OF n] nodes_same [OF n]
  have "ubyte m2 pt x = (if unat (x - va) < length (as @ bs) then (as @ bs) ! unat (x - va) else ubyte m pt x)"
    if x: "upage m pt (PGROUNDDOWN x)" for x
  proof -
    have 1: "ubyte m1 pt x = (if unat (x - va) < length as then as ! unat (x - va) else ubyte m pt x)"
      using a x by (simp add: uwritten_def)
    have 2: "ubyte m2 pt x = (if unat (x - (va + of_nat (length as))) < length bs then bs ! unat (x - (va + of_nat (length as))) else ubyte m1 pt x)"
      using b x u by (simp add: uwritten_def)
    have la: "unat (of_nat (length as) :: u64) = length as" using len by (simp add: unat_of_nat take_bit_nat_eq_self)
    have 3: "unat (x - (va + of_nat (length as))) =
        (if length as \<le> unat (x - va) then unat (x - va) - length as else 2 ^ 64 + unat (x - va) - length as)"
      using unat_sub_if' [of "x - va" "of_nat (length as)"] la by (auto simp: word_le_nat_alt diff_diff_eq)
    show ?thesis using 1 2 3 len by (auto simp: nth_append)
  qed
  moreover have "same_on (nodes m pt) m m2" using a b u same_on_trans by (metis uwritten_def)
  moreover have "same_on {q} m m2" if "aligned q" "\<forall>vb. upage m pt vb \<longrightarrow> frame m pt vb \<noteq> q" for q
    using a b u that same_on_trans [of "{q}" m m1 m2] by (simp add: uwritten_def)
  ultimately show ?thesis by (simp add: uwritten_def)
qed


lemma next_user_page: "PGROUNDDOWN va + PGSIZE = va + of_nat (in_page_room va)"
proof -
  have "of_nat (in_page_room va) = (4096 :: u64) - (va - PGROUNDDOWN va)"
    using page_offset(2) [of va] by (simp add: in_page_room_def of_nat_diff)
  then show ?thesis by simp
qed

lemma copyout_Nil [simp]: "copyout pt va [] s = (Ret 0, s)"
  by (simp add: copyout.simps ret_def)

lemma copyout_step:
  assumes "pt_ok xs (mem s) pt" "user_ok (mem s) pt" "wpage (mem s) pt (PGROUNDDOWN va)" "src \<noteq> []"
  shows "copyout pt va src s = copyout pt (va + of_nat (in_page_room va)) (drop (in_page_room va) src)
    (s\<lparr>mem := mem_put (mem s) (frame (mem s) pt (PGROUNDDOWN va) + (va - PGROUNDDOWN va)) (take (in_page_room va) src)\<rparr>)"
proof -
  let ?p = "PGROUNDDOWN va"
  have u: "upage (mem s) pt ?p" "ent (mem s) pt ?p AND PTE_W \<noteq> 0" "ent (mem s) pt ?p AND PTE_V \<noteq> 0" "?p < MAXVA"
    using assms(3) by (simp_all add: wpage_def upage_def)
  then obtain q where q: "node (mem s) pt ?p 2 = Some q" by (auto simp: ent_def split: option.splits)
  have e: "load64 (mem s) (pte_at q 0 ?p) = ent (mem s) pt ?p" "pte_at q 0 ?p \<noteq> 0"
    using q pte_at_nonzero [OF assms(1) q] by (simp_all add: ent_def)
  have f: "frame (mem s) pt ?p \<noteq> 0" using assms(2) u(1) unfolding user_ok_def by blast
  have "\<not> MAXVA \<le> ?p" using u(4) by simp
  then show ?thesis
    using u(2) e f assms(4) walk_read [OF u(4), of pt s] q
    by (subst copyout.simps) (simp add: kdefs user_page_eq [OF u(1) assms(2,1)] ldw_def next_user_page)
qed

lemma copyout_ok:
  assumes "pt_ok xs (mem s) pt" "user_ok (mem s) pt" "length src < 2 ^ 64"
    and "\<forall>j<length src. wpage (mem s) pt (PGROUNDDOWN (dstva + of_nat j))"
  shows "\<exists>m'. copyout pt dstva src s = (Ret 0, s\<lparr>mem := m'\<rparr>) \<and> uwritten (mem s) pt dstva src m'"
  using assms
proof (induction src arbitrary: dstva s rule: length_induct)
  case (1 src dstva s)
  show ?case
  proof (cases "src = []")
    case True
    then show ?thesis by (intro exI [of _ "mem s"]) (simp add: uwritten_def)
  next
    case False
    let ?r = "in_page_room dstva"
    let ?m = "mem_put (mem s) (frame (mem s) pt (PGROUNDDOWN dstva) + (dstva - PGROUNDDOWN dstva)) (take ?r src)"
    have w: "wpage (mem s) pt (PGROUNDDOWN dstva)" using 1(5) False by (auto dest: spec [of _ 0])
    have c: "uwritten (mem s) pt dstva (take ?r src) ?m"
      using uwritten_chunk [OF 1(2,3)] w by (simp add: wpage_def)
    then have n: "same_on (nodes (mem s) pt) (mem s) ?m" by (simp add: uwritten_def)
    have lt: "length (drop ?r src) < length src" using False in_page_room_pos [of dstva] by simp
    have l64: "length (drop ?r src) < 2 ^ 64" using lt 1(4) by (rule less_trans)
    have w': "\<forall>j<length (drop ?r src). wpage ?m pt (PGROUNDDOWN (dstva + of_nat ?r + of_nat j))"
    proof (intro allI impI)
      fix j assume "j < length (drop ?r src)"
      then have "wpage (mem s) pt (PGROUNDDOWN (dstva + of_nat (?r + j)))" using 1(5) by (intro 1(5) [rule_format]) auto
      then show "wpage ?m pt (PGROUNDDOWN (dstva + of_nat ?r + of_nat j))"
        by (simp add: user_same [OF n] add.assoc)
    qed
    obtain m' where m': "copyout pt (dstva + of_nat ?r) (drop ?r src) (s\<lparr>mem := ?m\<rparr>) = (Ret 0, s\<lparr>mem := m'\<rparr>)"
        "uwritten ?m pt (dstva + of_nat ?r) (drop ?r src) m'"
      using 1(1) [rule_format, OF lt, of "s\<lparr>mem := ?m\<rparr>" "dstva + of_nat ?r"] pt_ok_same [OF 1(2) n] user_same(5) [OF n] 1(3) l64 w'
      by auto
    have "uwritten (mem s) pt dstva src m'"
    proof (cases "length src \<le> ?r")
      case True
      have "copyout pt (dstva + of_nat ?r) (drop ?r src) (s\<lparr>mem := ?m\<rparr>) = (Ret 0, s\<lparr>mem := ?m\<rparr>)"
        using True by simp
      then have "mem (s\<lparr>mem := m'\<rparr>) = mem (s\<lparr>mem := ?m\<rparr>)" using m'(1) by simp
      then show ?thesis using c True by simp
    next
      case False
      then show ?thesis using uwritten_append [OF c, of "drop ?r src" m'] m'(2) 1(4) by simp
    qed
    then show ?thesis using copyout_step [OF 1(2,3) w False] m'(1) by auto
  qed
qed


lemma copyin_Nil [simp]: "copyin pt va 0 s = (Ret ([], 0), s)"
  by (simp add: copyin.simps ret_def)

lemma ubyte_page:
  assumes "j < in_page_room va"
  shows "ubyte m pt (va + of_nat j) = m (frame m pt (PGROUNDDOWN va) + (va - PGROUNDDOWN va) + of_nat j)"
proof -
  have "frame m pt (PGROUNDDOWN va) + (va + of_nat j - PGROUNDDOWN va) =
      frame m pt (PGROUNDDOWN va) + (va - PGROUNDDOWN va) + of_nat j" by simp
  then show ?thesis unfolding ubyte_def page_room [OF assms] by (simp only:)
qed

lemma copyin_ok:
  assumes "pt_ok xs (mem s) pt" "user_ok (mem s) pt"
    and "\<forall>j<len. upage (mem s) pt (PGROUNDDOWN (srcva + of_nat j))"
  shows "copyin pt srcva len s = (Ret (map (\<lambda>j. ubyte (mem s) pt (srcva + of_nat j)) [0..<len], 0), s)"
  using assms(3)
proof (induction len arbitrary: srcva rule: less_induct)
  case (less len srcva)
  show ?case
  proof (cases "len = 0")
    case False
    let ?k = "min (in_page_room srcva) len"
    have u: "upage (mem s) pt (PGROUNDDOWN srcva)" using less.prems False by (auto dest: spec [of _ 0])
    have f: "frame (mem s) pt (PGROUNDDOWN srcva) \<noteq> 0" using assms(2) u unfolding user_ok_def by blast
    have "\<forall>j<len - ?k. upage (mem s) pt (PGROUNDDOWN (srcva + of_nat (in_page_room srcva) + of_nat j))"
    proof (intro allI impI)
      fix j assume "j < len - ?k"
      then have "in_page_room srcva + j < len" by (auto simp: min_def split: if_splits)
      then have "upage (mem s) pt (PGROUNDDOWN (srcva + of_nat (in_page_room srcva + j)))" using less.prems by blast
      then show "upage (mem s) pt (PGROUNDDOWN (srcva + of_nat (in_page_room srcva) + of_nat j))" by (simp add: add.assoc)
    qed
    moreover have "len - ?k < len" using False in_page_room_pos [of srcva] by simp
    ultimately have rest: "copyin pt (srcva + of_nat (in_page_room srcva)) (len - ?k) s =
        (Ret (map (\<lambda>j. ubyte (mem s) pt (srcva + of_nat (in_page_room srcva) + of_nat j)) [0..<len - ?k], 0), s)"
      by (rule less.IH [rotated])
    have get: "mem_get (mem s) (frame (mem s) pt (PGROUNDDOWN srcva) + (srcva - PGROUNDDOWN srcva)) ?k =
        map (\<lambda>j. ubyte (mem s) pt (srcva + of_nat j)) [0..<?k]"
      by (simp add: mem_get_def ubyte_page)
    have cat: "map (\<lambda>j. ubyte (mem s) pt (srcva + of_nat j)) [0..<?k] @
        map (\<lambda>j. ubyte (mem s) pt (srcva + of_nat (in_page_room srcva) + of_nat j)) [0..<len - ?k] =
        map (\<lambda>j. ubyte (mem s) pt (srcva + of_nat j)) [0..<len]"
      by (rule nth_equalityI) (auto simp: nth_append min_def add.assoc of_nat_diff)
    show ?thesis
      by (subst copyin.simps)
        (simp add: False kdefs user_page_eq [OF u assms(2,1)] f next_user_page rest get cat del: map_append min.commute)
  qed simp
qed


lemma ismapped_eq:
  assumes "va < MAXVA" "pt_ok xs (mem s) pt"
  shows "ismapped pt va s = (Ret (ent (mem s) pt va AND PTE_V \<noteq> 0), s)"
  using assms(1) pte_at_nonzero [OF assms(2), of va 2 _ 0]
  by (auto simp: ismapped_def kdefs walk_read ldw_def ent_def split: option.splits)

lemma PGROUNDDOWN_less: "va < MAXVA \<Longrightarrow> PGROUNDDOWN va < MAXVA"
  using PGROUNDDOWN_le [of va] by (rule order_le_less_trans)

lemma one_page: "aligned va \<Longrightarrow> aligned vb \<Longrightarrow> unat (vb - va) < 4096 \<longleftrightarrow> vb = va"
  using pages_disjoint [of va vb vb] in_page_offset [of 0 vb] by (auto simp: in_page_def)

text \<open>The last step of a page fault: the page is mapped, or given back when the table cannot grow.\<close>

lemma vmfault_map:
  assumes inv: "kmem_inv ys s" and ok: "pt_ok ys (mem s) pt" and x: "page_ok (kend s) x" "x \<notin> set ys" "x \<notin> nodes (mem s) pt"
    and va: "aligned va" "va < MAXVA" "ent (mem s) pt va AND PTE_V = 0"
  shows "\<exists>pa s' zs. bind (mappages pt va PGSIZE x perm) (\<lambda>r. if r \<noteq> 0 then seq (kfree x) (ret 0) else ret x) s = (Ret pa, s') \<and>
    kmem_inv zs s' \<and> pt_ok zs (mem s') pt \<and> (pa = 0 \<and> maps (mem s) pt va 0 x perm (mem s') \<or>
      pa = x \<and> maps (mem s) pt va 1 x perm (mem s') \<and> same_on {x} (mem s) (mem s'))"
proof -
  have "unat va + 1 * 4096 \<le> 2 ^ 38"
    using va(1,2) by (auto simp: aligned_unat word_less_nat_alt elim!: dvdE simp flip: dvd_eq_mod_eq_0)
  moreover have "\<forall>vb. aligned vb \<longrightarrow> vb < MAXVA \<longrightarrow> unat (vb - va) < 1 * 4096 \<longrightarrow> ent (mem s) pt vb AND PTE_V = 0"
    using va one_page [OF va(1)] by simp
  ultimately obtain r s' zs j where m: "mappages pt va PGSIZE x perm s = (Ret r, s')" "evolves pt ys s zs s'"
      "maps (mem s) pt va j x perm (mem s')" "r = 0 \<and> j = 1 \<or> r = - 1 \<and> zs = [] \<and> j < 1"
    using mappages_ok [OF inv ok va(1), of 1 x perm] by auto
  have e: "kmem_inv zs s'" "pt_ok zs (mem s') pt" "kend s' = kend s" "x \<notin> set zs" "x \<notin> nodes (mem s') pt"
    using m(2) x by (auto simp: evolves_def keeps_def)
  show ?thesis
  proof (cases "r = 0")
    case True
    have "same_on {x} (mem s) (mem s')" using m(2) x by (auto simp: evolves_def page_ok_def)
    then show ?thesis using True m e by (auto simp: kdefs)
  next
    case False
    then have r: "r = - 1" "j = 0" using m(4) by auto
    obtain s2 where s2: "kfree x s' = (Ret (), s2)" "kmem_inv (x # zs) s2"
        "\<forall>P. (\<forall>q\<in>P. aligned q \<and> q \<noteq> x) \<longrightarrow> same_on P (mem s') (mem s2)"
      using km.free_some [OF e(1) _ e(4)] x(1) e(3) by auto
    then have n: "same_on (nodes (mem s') pt) (mem s') (mem s2)" using pt_ok_nodes [OF e(2)] e(5) by blast
    have "pt_ok zs (mem s2) pt" by (rule pt_ok_same [OF e(2) n])
    moreover have "maps (mem s) pt va 0 x perm (mem s2)" using m(3) r(2) by (simp add: ent_same [OF n])
    moreover have "kmem_inv (x # zs) s2 \<and> pt_ok (x # zs) (mem s2) pt"
      using s2(2) calculation(1) e(5) nodes_same [OF n] unfolding pt_ok_def by auto
    ultimately show ?thesis using m(1) r s2(1) by (auto simp: kdefs)
  qed
qed


end
