(* ===== verification/Uvm.thy ===== *)
theory Uvm
  imports Pagetable
begin

text \<open>
  The correctness of mapping, of page faults and of copies between kernel and user space, with a concrete
  address space to apply them to: one user page at address 0, behind a three-level table.
\<close>

section \<open>A concrete address space\<close>

abbreviation (input) ROOT :: u64 where "ROOT \<equiv> 0x80100000"
abbreviation (input) MID :: u64 where "MID \<equiv> 0x80101000"
abbreviation (input) LEAF :: u64 where "LEAF \<equiv> 0x80102000"
abbreviation (input) FRAME :: u64 where "FRAME \<equiv> 0x80103000"

definition demo1 :: memory where
  "demo1 = grown (\<lambda>_. 0) ROOT 0 0 MID"

definition demo2 :: memory where
  "demo2 = grown demo1 MID 1 0 LEAF"

definition demo :: memory where
  "demo = store64 demo2 (pte_at LEAF 0 0) (PA2PTE FRAME OR (PTE_R OR PTE_W OR PTE_U) OR PTE_V)"

lemma demo_aligned [simp]: "aligned ROOT" "aligned MID" "aligned LEAF" "aligned FRAME"
  by (simp_all add: aligned_def)

lemma zeroed_zero [simp]: "zeroed (\<lambda>_. 0) p"
  by (simp add: zeroed_def)

lemma zeroed_same: "zeroed m p \<Longrightarrow> same_on {p} m m' \<Longrightarrow> zeroed m' p"
  by (simp add: zeroed_def same_on_def)

lemma zeroed_store:
  "zeroed m p \<Longrightarrow> aligned p \<Longrightarrow> aligned q \<Longrightarrow> q \<noteq> p \<Longrightarrow> zeroed (store64 m (pte_at q l va) v) p"
  unfolding pte_at_offset by (erule zeroed_same, rule same_on_store64 [OF _ offset_in_page]) auto

lemma demo1_grow: "can_grow [] (\<lambda>_. 0) ROOT 0 0 ROOT MID"
  unfolding can_grow_def using fresh_ok [of "\<lambda>_. 0" ROOT "[]"] fresh_nodes [of "\<lambda>_. 0" ROOT]
  by (simp add: zeroed_entry)

lemma demo1_node: "node demo1 ROOT 0 1 = Some MID"
  using grow_node [OF demo1_grow, of 1 0] by (simp add: demo1_def)

lemma demo1_zeroed: "zeroed demo1 p" if "aligned p" "p \<noteq> ROOT"
  using that unfolding demo1_def grown_def by (intro zeroed_store) auto

lemma demo2_grow: "can_grow [] demo1 ROOT 0 1 MID LEAF"
proof -
  have "pt_ok [] demo1 ROOT" unfolding demo1_def by (rule grow_ok [OF demo1_grow]) auto
  moreover have "LEAF \<notin> nodes demo1 ROOT"
    using grow_nodes [OF demo1_grow] fresh_nodes [of "\<lambda>_. 0" ROOT] unfolding demo1_def by auto
  ultimately show ?thesis
    using demo1_node demo1_zeroed [of LEAF] zeroed_entry [OF demo1_zeroed [of MID]] by (simp add: can_grow_def)
qed

lemma demo2_node: "node demo2 ROOT 0 2 = Some LEAF"
  using grow_node [OF demo2_grow, of 2 0] by (simp add: demo2_def)

lemma demo2_ok: "pt_ok [] demo2 ROOT"
  unfolding demo2_def by (rule grow_ok [OF demo2_grow]) auto

lemma demo2_ent: "ent demo2 ROOT va = 0"
  using grow_ent [OF demo2_grow] grow_ent [OF demo1_grow] fresh_ent [of "\<lambda>_. 0" ROOT]
  by (simp add: demo1_def demo2_def)

lemma demo_ok: "pt_ok [] demo ROOT"
  unfolding demo_def by (rule pt_ok_leaf_store(1) [OF demo2_ok demo2_node])

lemma demo_ent:
  "ent demo ROOT va = (if agree 3 0 va then PA2PTE FRAME OR (PTE_R OR PTE_W OR PTE_U) OR PTE_V else 0)"
  unfolding demo_def using ent_leaf_store [OF demo2_ok demo2_node] demo2_ent by simp

lemma demo_nodes: "FRAME \<notin> nodes demo ROOT"
proof -
  have "nodes demo1 ROOT \<subseteq> {MID, ROOT}"
    using grow_nodes [OF demo1_grow] fresh_nodes [of "\<lambda>_. 0" ROOT] by (simp add: demo1_def)
  then have "nodes demo2 ROOT \<subseteq> {LEAF, MID, ROOT}" using grow_nodes [OF demo2_grow] unfolding demo2_def by blast
  moreover have "nodes demo ROOT = nodes demo2 ROOT"
    unfolding demo_def by (rule pt_ok_leaf_store(2) [OF demo2_ok demo2_node])
  ultimately show ?thesis by auto
qed

lemma demo_entry [simp]: "PA2PTE FRAME = 0x20040c00"
  by (simp add: PA2PTE_def)

lemma demo_upage: "upage demo ROOT va \<longleftrightarrow> va = 0"
  using agree_page [of 0 va] by (auto simp: upage_def demo_ent demo_entry)

lemma demo_user: "user_ok demo ROOT" "wpage demo ROOT 0" "frame demo ROOT 0 = FRAME"
proof -
  show f: "frame demo ROOT 0 = FRAME" by (simp add: frame_def demo_ent demo_entry PTE2PA_def)
  show "user_ok demo ROOT" unfolding user_ok_def demo_upage using f demo_nodes by simp
  show "wpage demo ROOT 0" by (simp add: wpage_def demo_upage demo_ent demo_entry)
qed

section \<open>A machine with that address space\<close>

definition demo_proc :: proc where
  "demo_proc = \<lparr>pstate = RUNNING, pchan = None, pkilled = False, xstate = 0, pid = 1, parent = None, kstack = KSTACK 0,
     sz = 0x3000, pagetable = ROOT, trapframe = 0, pcontext = \<lparr>ctx_ra = 0, ctx_sp = 0, ctx_s = (\<lambda>_. 0)\<rparr>,
     ofile = (\<lambda>_. None), cwd = None, pname = (\<lambda>_. 0)\<rparr>"

definition demo_state :: proc_state where
  "demo_state = \<lparr>ctl = idle_ctl 0, uart_lsr = 32, uart_rx = [], uart_log = [], panicking = False, panicked = False,
     mem = demo, freelist = 0, kend = 0x80021530, procs = (\<lambda>_. demo_proc), nextpid = 2, initproc = None, klocal = (\<lambda>_. 0)\<rparr>"

lemma demo_state_simps [simp]: "mem demo_state = demo" "freelist demo_state = 0" "kend demo_state = 0x80021530"
  "cproc (mycpu (ctl demo_state)) = Some 0" "procs demo_state p = demo_proc" "lock_free lk (ctl demo_state)"
  "sz demo_proc = 0x3000" "pagetable demo_proc = ROOT"
  by (simp_all add: demo_state_def demo_proc_def)

lemma demo_inv: "kmem_inv [] demo_state"
  by (simp add: kmem_inv_def)

lemma demo_page: "j < 3 \<Longrightarrow> PGROUNDDOWN (0x20 + of_nat j) = 0"
  using unat_PGROUNDDOWN [of "0x20 + of_nat j"] unat_add_of_nat [of "0x20" j]
  by (simp add: unat_eq_zero [symmetric] del: unat_eq_zero)

section \<open>Properties\<close>

text \<open>C10. \<open>mappages\<close>.  On a page table that is a tree of pages none of which is free, and a range of \<open>n\<close> pages
  below \<open>MAXVA\<close> none of which is mapped, the call returns.  With the result 0, the pages of the range are mapped
  to the consecutive physical pages with the permissions asked for, and no other page's entry has changed; with
  the result \<open>-1\<close> the free list is empty and a prefix of the range is mapped.  In both cases the table is again
  such a tree, made of the old pages and of pages taken from the free list, and memory outside the table and the
  free list is untouched.\<close>

theorem mappages_maps:
  assumes "kmem_inv xs s" "pt_ok xs (mem s) pt" "aligned va" "0 < n" "unat va + n * 4096 \<le> unat MAXVA"
    and "\<forall>vb. aligned vb \<longrightarrow> vb < MAXVA \<longrightarrow> unat (vb - va) < n * 4096 \<longrightarrow> ent (mem s) pt vb AND PTE_V = 0"
  shows "\<exists>r s' ys j. mappages pt va (of_nat n * PGSIZE) pa perm s = (Ret r, s') \<and>
     evolves pt xs s ys s' \<and> maps (mem s) pt va j pa perm (mem s') \<and>
     (r = 0 \<and> j = n \<or> r = - 1 \<and> ys = [] \<and> j < n)"
  using mappages_ok [OF assms(1-4)] assms(5,6) by simp

theorem mappages_maps_witness:
  "\<exists>r s' ys j. mappages ROOT 0x1000 (of_nat 1 * PGSIZE) 0x80104000 (PTE_R OR PTE_U) demo_state = (Ret r, s') \<and>
     evolves ROOT [] demo_state ys s' \<and> maps demo ROOT 0x1000 j 0x80104000 (PTE_R OR PTE_U) (mem s') \<and>
     (r = 0 \<and> j = 1 \<or> r = - 1 \<and> ys = [] \<and> j < 1)"
proof -
  have "\<forall>vb. aligned vb \<longrightarrow> vb < MAXVA \<longrightarrow> unat (vb - 0x1000) < 1 * 4096 \<longrightarrow> ent (mem demo_state) ROOT vb AND PTE_V = 0"
  proof (intro allI impI)
    fix vb :: u64
    assume vb: "aligned vb" "vb < MAXVA" "unat (vb - 0x1000) < 1 * 4096"
    then have "vb \<noteq> 0" by auto
    then show "ent (mem demo_state) ROOT vb AND PTE_V = 0" using vb agree_page [of 0 vb] by (auto simp: demo_ent)
  qed
  then show ?thesis
    using mappages_maps [of "[]" demo_state ROOT "0x1000" 1 "0x80104000" "PTE_R OR PTE_U"] demo_inv demo_ok
    by (simp add: aligned_def)
qed

text \<open>C11. \<open>copyout\<close>.  When every page of the destination range is a writable user page, the copy succeeds:
  afterwards user code sees the copied bytes at the destination and its old bytes everywhere else, and neither
  the page table nor any page that is not a user page has changed.\<close>

theorem copyout_writes:
  assumes "pt_ok xs (mem s) pt" "user_ok (mem s) pt" "length src < 2 ^ 64"
    and "\<forall>j<length src. wpage (mem s) pt (PGROUNDDOWN (dstva + of_nat j))"
  shows "\<exists>m'. copyout pt dstva src s = (Ret 0, s\<lparr>mem := m'\<rparr>) \<and> uwritten (mem s) pt dstva src m'"
  using assms by (rule copyout_ok)

theorem copyout_writes_witness:
  "\<exists>m'. copyout ROOT 0x20 [1, 2, 3] demo_state = (Ret 0, demo_state\<lparr>mem := m'\<rparr>) \<and> uwritten demo ROOT 0x20 [1, 2, 3] m'"
proof -
  have "\<forall>j<length [1, 2, 3 :: byte]. wpage (mem demo_state) ROOT (PGROUNDDOWN (0x20 + of_nat j))"
    using demo_page demo_user(2) by simp
  then show ?thesis
    using copyout_writes [of "[]" demo_state ROOT "[1, 2, 3]" "0x20"] demo_ok demo_user(1) by simp
qed

text \<open>C12. A round trip through user memory: what \<open>copyout\<close> has written, \<open>copyin\<close> reads back.\<close>

theorem copyout_copyin:
  assumes "pt_ok xs (mem s) pt" "user_ok (mem s) pt" "length src < 2 ^ 64"
    and "\<forall>j<length src. wpage (mem s) pt (PGROUNDDOWN (va + of_nat j))"
  shows "\<exists>s'. copyout pt va src s = (Ret 0, s') \<and> copyin pt va (length src) s' = (Ret (src, 0), s')"
proof -
  obtain m' where m': "copyout pt va src s = (Ret 0, s\<lparr>mem := m'\<rparr>)" "uwritten (mem s) pt va src m'"
    using copyout_ok [OF assms] by blast
  have n: "same_on (nodes (mem s) pt) (mem s) m'" by (rule uwritten_nodes [OF m'(2)])
  have u: "upage (mem s) pt (PGROUNDDOWN (va + of_nat j))" if "j < length src" for j
    using assms(4) that by (simp add: wpage_def)
  have w: "\<And>x. upage (mem s) pt (PGROUNDDOWN x) \<Longrightarrow>
      ubyte m' pt x = (if unat (x - va) < length src then src ! unat (x - va) else ubyte (mem s) pt x)"
    by (rule uwritten_byte [OF m'(2)])
  have "ubyte m' pt (va + of_nat j) = src ! j" if j: "j < length src" for j
  proof -
    have "unat (va + of_nat j - va) = j" using j assms(3) by (simp add: unat_of_nat take_bit_nat_eq_self)
    then show ?thesis using w [OF u [OF j]] j by simp
  qed
  then have "map (\<lambda>j. ubyte m' pt (va + of_nat j)) [0..<length src] = src" by (intro nth_equalityI) simp_all
  moreover have "copyin pt va (length src) (s\<lparr>mem := m'\<rparr>) =
      (Ret (map (\<lambda>j. ubyte m' pt (va + of_nat j)) [0..<length src], 0), s\<lparr>mem := m'\<rparr>)"
  proof -
    have "pt_ok xs (mem (s\<lparr>mem := m'\<rparr>)) pt" "user_ok (mem (s\<lparr>mem := m'\<rparr>)) pt"
      "\<forall>j<length src. upage (mem (s\<lparr>mem := m'\<rparr>)) pt (PGROUNDDOWN (va + of_nat j))"
      using pt_ok_same [OF assms(1) n] assms(2) u by (simp_all add: user_same(3,5) [OF n])
    from copyin_ok [OF this] show ?thesis by simp
  qed
  ultimately have "copyin pt va (length src) (s\<lparr>mem := m'\<rparr>) = (Ret (src, 0), s\<lparr>mem := m'\<rparr>)" by (simp only:)
  then show ?thesis using m'(1) by blast
qed

theorem copyout_copyin_witness:
  "\<exists>s'. copyout ROOT 0x20 [1, 2, 3] demo_state = (Ret 0, s') \<and> copyin ROOT 0x20 3 s' = (Ret ([1, 2, 3], 0), s')"
proof -
  have "\<forall>j<length [1, 2, 3 :: byte]. wpage (mem demo_state) ROOT (PGROUNDDOWN (0x20 + of_nat j))"
    using demo_page demo_user(2) by simp
  then show ?thesis
    using copyout_copyin [of "[]" demo_state ROOT "[1, 2, 3]" "0x20"] demo_ok demo_user(1) by (simp add: numeral_3_eq_3)
qed





end
