(* ===== verification/Userbuf.thy ===== *)
theory Userbuf
  imports Uvm
begin

text \<open>
  Buffers in the memory of the running process, as the console and the pipes fill and read them: one byte per
  \<open>copyout\<close> or \<open>copyin\<close>.  \<open>user_buf p s va n\<close> says that the \<open>n\<close> bytes at \<open>va\<close> are writable pages of the
  process \<open>p\<close>, which runs on this CPU.
\<close>

definition user_buf :: "nat \<Rightarrow> 'a proc_state_scheme \<Rightarrow> u64 \<Rightarrow> nat \<Rightarrow> bool" where
  "user_buf p s va n \<longleftrightarrow> cproc (mycpu (ctl s)) = Some p \<and> n < 2 ^ 64 \<and>
     (\<exists>xs. pt_ok xs (mem s) (pagetable (procs s p))) \<and> user_ok (mem s) (pagetable (procs s p)) \<and>
     (\<forall>j<n. wpage (mem s) (pagetable (procs s p)) (PGROUNDDOWN (va + of_nat j)))"

text \<open>The address space of the process as a byte-addressed memory, before and after.\<close>

abbreviation uput :: "nat \<Rightarrow> 'a proc_state_scheme \<Rightarrow> u64 \<Rightarrow> byte list \<Rightarrow> memory \<Rightarrow> bool" where
  "uput p s va bs m' \<equiv> uwritten (mem s) (pagetable (procs s p)) va bs m'"

lemma user_buf_proc: "user_buf p s va n \<Longrightarrow> cproc (mycpu (ctl s)) = Some p"
  by (simp add: user_buf_def)

lemma user_buf_cong:
  assumes "user_buf p s va n" "mem t = mem s" "pagetable (procs t p) = pagetable (procs s p)" "cproc (mycpu (ctl t)) = Some p"
  shows "user_buf p t va n"
  using assms unfolding user_buf_def by simp

lemma user_buf_put:
  assumes "user_buf p s va n"
  shows "\<exists>m'. copyout (pagetable (procs s p)) va (take n bs) s = (Ret 0, s\<lparr>mem := m'\<rparr>) \<and> uput p s va (take n bs) m'"
proof -
  obtain xs where "pt_ok xs (mem s) (pagetable (procs s p))" using assms by (auto simp: user_buf_def)
  then show ?thesis using assms by (intro copyout_ok) (auto simp: user_buf_def)
qed

lemma user_buf_byte:
  assumes "user_buf p s va (Suc n)"
  shows "\<exists>m'. copyout (pagetable (procs s p)) va [c] s = (Ret 0, s\<lparr>mem := m'\<rparr>) \<and> uput p s va [c] m'"
  using user_buf_put [OF assms, of "[c]"] by simp

lemma user_buf_next:
  assumes "user_buf p s va (Suc n)" "uput p s va [c] m'"
    and "mem t = m'" "pagetable (procs t p) = pagetable (procs s p)" "cproc (mycpu (ctl t)) = Some p"
  shows "user_buf p t (va + 1) n"
proof -
  have n: "same_on (nodes (mem s) (pagetable (procs s p))) (mem s) m'" by (rule uwritten_nodes [OF assms(2)])
  obtain xs where "pt_ok xs (mem s) (pagetable (procs s p))" using assms(1) by (auto simp: user_buf_def)
  then have "pt_ok xs m' (pagetable (procs s p))" using n by (rule pt_ok_same)
  moreover have "wpage m' (pagetable (procs s p)) (PGROUNDDOWN (va + 1 + of_nat j))" if "j < n" for j
  proof -
    have "wpage (mem s) (pagetable (procs s p)) (PGROUNDDOWN (va + of_nat (Suc j)))"
      using assms(1) that unfolding user_buf_def by blast
    then show ?thesis by (simp add: user_same [OF n] add.assoc)
  qed
  moreover have "user_ok m' (pagetable (procs s p))" using assms(1) by (simp add: user_same [OF n] user_buf_def)
  ultimately show ?thesis using assms unfolding user_buf_def by auto
qed

lemma uput_Nil: "uput p s va [] (mem s)"
  by (simp add: uwritten_def)

lemma uput_Cons:
  assumes "user_buf p s va (Suc n)" "uput p s va [c] m1" "uwritten m1 (pagetable (procs s p)) (va + 1) bs m2" "length bs \<le> n"
  shows "uput p s va (c # bs) m2"
  using uwritten_append [OF assms(2), of bs m2] assms by (simp add: user_buf_def)

lemma either_copyout_user:
  assumes "user_buf p s va (Suc n)" "settle (ctl s) = ctl s"
  shows "\<exists>m'. either_copyout (ToUser va) [c] s = (Ret 0, s\<lparr>mem := m'\<rparr>) \<and> uput p s va [c] m'"
proof -
  have "either_copyout (ToUser va) [c] s = copyout (pagetable (procs s p)) va [c] s"
    using assms user_buf_proc [OF assms(1)] by (simp add: either_copyout_def bind_def gets_def myproc_eq)
  then show ?thesis using user_buf_byte [OF assms(1)] by simp
qed

text \<open>The bytes of a buffer to read.\<close>

definition user_src :: "nat \<Rightarrow> 'a proc_state_scheme \<Rightarrow> u64 \<Rightarrow> byte list \<Rightarrow> bool" where
  "user_src p s va bs \<longleftrightarrow> cproc (mycpu (ctl s)) = Some p \<and>
     (\<exists>xs. pt_ok xs (mem s) (pagetable (procs s p))) \<and> user_ok (mem s) (pagetable (procs s p)) \<and>
     (\<forall>j<length bs. upage (mem s) (pagetable (procs s p)) (PGROUNDDOWN (va + of_nat j)) \<and>
        ubyte (mem s) (pagetable (procs s p)) (va + of_nat j) = bs ! j)"

lemma user_src_cong:
  assumes "user_src p s va bs" "mem t = mem s" "pagetable (procs t p) = pagetable (procs s p)" "cproc (mycpu (ctl t)) = Some p"
  shows "user_src p t va bs"
  using assms unfolding user_src_def by simp

lemma user_src_get:
  assumes "user_src p s va (b # bs)"
  shows "copyin (pagetable (procs s p)) va 1 s = (Ret ([b], 0), s)"
proof -
  obtain xs where xs: "pt_ok xs (mem s) (pagetable (procs s p))" using assms by (auto simp: user_src_def)
  have v: "upage (mem s) (pagetable (procs s p)) (PGROUNDDOWN va) \<and> ubyte (mem s) (pagetable (procs s p)) va = b"
    using assms unfolding user_src_def by (auto dest: spec [of _ 0])
  have "copyin (pagetable (procs s p)) va 1 s =
      (Ret (map (\<lambda>j. ubyte (mem s) (pagetable (procs s p)) (va + of_nat j)) [0..<1], 0), s)"
    by (rule copyin_ok [OF xs]) (use assms v in \<open>simp_all add: user_src_def\<close>)
  then show ?thesis using v by simp
qed

lemma user_src_next:
  assumes "user_src p s va (b # bs)"
  shows "user_src p s (va + 1) bs"
proof -
  have "upage (mem s) (pagetable (procs s p)) (PGROUNDDOWN (va + 1 + of_nat j)) \<and>
      ubyte (mem s) (pagetable (procs s p)) (va + 1 + of_nat j) = bs ! j" if "j < length bs" for j
  proof -
    have "upage (mem s) (pagetable (procs s p)) (PGROUNDDOWN (va + of_nat (Suc j))) \<and>
      ubyte (mem s) (pagetable (procs s p)) (va + of_nat (Suc j)) = (b # bs) ! Suc j"
      using assms that unfolding user_src_def by (metis Suc_less_eq length_Cons)
    then show ?thesis by (simp add: add.assoc)
  qed
  then show ?thesis using assms unfolding user_src_def by blast
qed

end
