(* ===== verification/Machine.thy ===== *)
theory Machine
  imports File Boot Userbuf
begin

text \<open>A concrete machine with a console, an empty inode cache and an empty file table; the running process has the
  address space \<open>demo\<close>, with one writable page at address 0.  The theorems on files are instantiated at it.\<close>

definition null_inode :: inode where
  "null_inode = \<lparr>idev = 0, inum = 0, iref = 0, ivalid = False, itype = 0, imajor = 0, iminor = 0, inlink = 0, isize = 0,
     iaddrs = (\<lambda>_. 0), iiops = False, iext = None\<rparr>"

definition null_file :: open_file where
  "null_file = \<lparr>ftype = FD_NONE, fref = 0, readable = False, writable = False, fpipe = 0, fip = None, foff = 0, fmajor = 0\<rparr>"

definition null_pipe :: pipe where
  "null_pipe = \<lparr>pdata = (\<lambda>_. 0), nread = 0, nwrite = 0, readopen = True, writeopen = True\<rparr>"

definition null_sb :: superblock where
  "null_sb = \<lparr>sb_magic = 0, sb_size = 0, sb_nblocks = 0, sb_ninodes = 0, sb_nlog = 0, sb_logstart = 0, sb_inodestart = 0,
     sb_bmapstart = 0\<rparr>"

definition file_boot :: "'a \<Rightarrow> 'a file_state_scheme" where
  "file_boot z = (boot \<lparr>cons_buf = (\<lambda>_. 0), cons_r = 0, cons_w = 0, cons_e = 0, tx_busy = False,
     devsw_read = (\<lambda>_. None), devsw_write = (\<lambda>_. None), icache = (\<lambda>_. null_inode),
     ext2fs_addrs = (\<lambda>_. \<lparr>abusy = False, aaddrs = (\<lambda>_. 0)\<rparr>), ext2_sb = (\<lambda>_. 0), sb = null_sb, kstack_junk = (\<lambda>_. 0),
     ftable = (\<lambda>_. null_file), pipes = (\<lambda>_. null_pipe), \<dots> = z\<rparr>)\<lparr>mem := demo, procs := (\<lambda>_. demo_proc)\<rparr>"

lemma file_boot_simps [simp]:
  "ctl (file_boot z) = idle_ctl 0" "mem (file_boot z) = demo" "procs (file_boot z) p = demo_proc"
  "icache (file_boot z) i = null_inode" "ftable (file_boot z) f = null_file" "pipes (file_boot z) a = null_pipe"
  "freelist (file_boot z) = 0" "kend (file_boot z) = 0x80021530" "uart_ready (file_boot z)"
  by (simp_all add: file_boot_def boot_def uart_ready_def)

lemma file_boot_running: "running 0 (file_boot z)"
  by (simp add: running_def)

lemma demo_buf:
  assumes "mem s = demo" "pagetable (procs s 0) = ROOT" "cproc (mycpu (ctl s)) = Some 0" "n \<le> 3"
  shows "user_buf 0 s 0x20 n"
  using assms demo_ok demo_user demo_page unfolding user_buf_def by auto

text \<open>The page of \<open>demo\<close> is all zero.\<close>

lemma zeroed_demo: "zeroed demo FRAME"
  unfolding demo_def demo2_def demo1_def grown_def by (intro zeroed_store) auto

lemma demo_src:
  assumes "mem s = demo" "pagetable (procs s 0) = ROOT" "cproc (mycpu (ctl s)) = Some 0"
  shows "user_src 0 s 0x20 [0, 0]"
proof -
  have "upage demo ROOT (PGROUNDDOWN (0x20 + of_nat j)) \<and> ubyte demo ROOT (0x20 + of_nat j) = 0" if "j < 2" for j
  proof -
    have j: "j = 0 \<or> j = 1" using that by linarith
    have p: "PGROUNDDOWN (0x20 + of_nat j) = 0" using demo_page [of j] that by simp
    have "ubyte demo ROOT (0x20 + of_nat j) = demo (FRAME + (0x20 + of_nat j))"
      unfolding ubyte_def p using demo_user(3) by simp
    moreover have "demo (FRAME + (0x20 + of_nat j)) = 0"
      using zeroed_demo [unfolded zeroed_def in_page_def, rule_format, of "FRAME + (0x20 + of_nat j)"] j by auto
    ultimately show ?thesis using p demo_user(2) by (simp add: wpage_def)
  qed
  from this [of 0] this [of 1] show ?thesis using assms demo_ok demo_user unfolding user_src_def
    by (auto simp: less_Suc_eq)
qed

section \<open>A process with a trapframe\<close>

text \<open>The address space \<open>demo\<close> with the page \<open>TFRAME\<close> mapped at \<open>TRAPFRAME\<close>, for the kernel only.\<close>

abbreviation (input) MID' :: u64 where "MID' \<equiv> 0x80104000"
abbreviation (input) LEAF' :: u64 where "LEAF' \<equiv> 0x80105000"
abbreviation (input) TFRAME :: u64 where "TFRAME \<equiv> 0x80106000"

definition udemo1 :: memory where
  "udemo1 = grown demo ROOT 0 TRAPFRAME MID'"

definition udemo2 :: memory where
  "udemo2 = grown udemo1 MID' 1 TRAPFRAME LEAF'"

definition udemo :: memory where
  "udemo = store64 udemo2 (pte_at LEAF' 0 TRAPFRAME) (PA2PTE TFRAME OR (PTE_R OR PTE_W) OR PTE_V)"

lemma udemo_aligned [simp]: "aligned MID'" "aligned LEAF'" "aligned TFRAME"
  by (simp_all add: aligned_def)

lemma demo_nodes_in: "nodes demo ROOT \<subseteq> {LEAF, MID, ROOT}"
proof -
  have "nodes demo1 ROOT \<subseteq> {MID, ROOT}"
    using grow_nodes [OF demo1_grow] fresh_nodes [of "\<lambda>_. 0" ROOT] by (simp add: demo1_def)
  then have "nodes demo2 ROOT \<subseteq> {LEAF, MID, ROOT}" using grow_nodes [OF demo2_grow] unfolding demo2_def by blast
  then show ?thesis unfolding demo_def pt_ok_leaf_store(2) [OF demo2_ok demo2_node] .
qed

lemma demo_zeroed: "zeroed demo p" if "aligned p" "p \<notin> {LEAF, MID, ROOT}"
  using that unfolding demo_def demo2_def demo1_def grown_def by (intro zeroed_store) auto

lemma PX_trapframe: "PX 2 TRAPFRAME = 255" "PX 2 0 = 0"
  by (simp_all add: PX_def PXSHIFT_def)

lemma udemo1_grow: "can_grow [] demo ROOT TRAPFRAME 0 ROOT MID'"
proof -
  have "load64 demo (pte_at ROOT 2 TRAPFRAME) = 0"
    unfolding demo_def demo2_def demo1_def grown_def by (simp add: load_store_entry PX_trapframe zeroed_entry)
  then show ?thesis
    unfolding can_grow_def using demo_ok demo_nodes_in demo_zeroed [of MID'] by (auto simp: node.simps)
qed

lemma udemo1_node: "node udemo1 ROOT TRAPFRAME 1 = Some MID'"
  using grow_node [OF udemo1_grow, of 1 TRAPFRAME] by (simp add: udemo1_def)

lemma udemo1_zeroed: "zeroed udemo1 p" if "aligned p" "p \<notin> {LEAF, MID, ROOT}"
  using that demo_zeroed unfolding udemo1_def grown_def by (intro zeroed_store) auto

lemma udemo1_nodes: "nodes udemo1 ROOT \<subseteq> {MID', LEAF, MID, ROOT}"
  using grow_nodes [OF udemo1_grow] demo_nodes_in unfolding udemo1_def by blast

lemma udemo2_grow: "can_grow [] udemo1 ROOT TRAPFRAME 1 MID' LEAF'"
proof -
  have "pt_ok [] udemo1 ROOT" unfolding udemo1_def by (rule grow_ok [OF udemo1_grow]) auto
  moreover have "LEAF' \<notin> nodes udemo1 ROOT" using subsetD [OF udemo1_nodes, of LEAF'] by auto
  ultimately show ?thesis
    using udemo1_node udemo1_zeroed [of LEAF'] zeroed_entry [OF udemo1_zeroed [of MID']] by (simp add: can_grow_def)
qed

lemma udemo2_ok: "pt_ok [] udemo2 ROOT" "node udemo2 ROOT TRAPFRAME 2 = Some LEAF'"
  unfolding udemo2_def using grow_ok [OF udemo2_grow] grow_node [OF udemo2_grow, of 2 TRAPFRAME] by simp_all

lemma udemo_ok: "pt_ok [] udemo ROOT"
  unfolding udemo_def by (rule pt_ok_leaf_store(1) [OF udemo2_ok])

lemma udemo_nodes: "nodes udemo ROOT \<subseteq> {LEAF', MID', LEAF, MID, ROOT}"
proof -
  have "nodes udemo2 ROOT \<subseteq> {LEAF', MID', LEAF, MID, ROOT}"
    using udemo1_nodes grow_nodes [OF udemo2_grow] unfolding udemo2_def by blast
  then show ?thesis unfolding udemo_def pt_ok_leaf_store(2) [OF udemo2_ok] .
qed

lemma udemo_ent:
  "ent udemo ROOT va = (if agree 3 TRAPFRAME va then PA2PTE TFRAME OR (PTE_R OR PTE_W) OR PTE_V else ent demo ROOT va)"
  unfolding udemo_def using ent_leaf_store [OF udemo2_ok] grow_ent [OF udemo2_grow] grow_ent [OF udemo1_grow]
  by (simp add: udemo1_def udemo2_def)

lemma udemo_entry [simp]: "PA2PTE TFRAME = 0x20041800"
  by (simp add: PA2PTE_def)

lemma trapframe_va [simp]: "aligned TRAPFRAME" "TRAPFRAME < MAXVA"
  by (simp_all add: aligned_def)

lemma udemo_upage: "upage udemo ROOT va \<longleftrightarrow> va = 0"
  using demo_upage [of va] agree_page [of TRAPFRAME va] by (auto simp: upage_def udemo_ent demo_ent agree_def PX_trapframe dest: spec [of _ 0])

end
