(* ===== verification/Console_Input.thy ===== *)
theory Console_Input
  imports Machine
begin

text \<open>
  The console's input side refines a pair of lists: the complete lines, and the line being edited.
  \<open>type_char\<close> is what one typed character does to them, \<open>take_line\<close> what a read takes.
\<close>

interpretation cr: ring_size 128
  by unfold_locales simp_all

section \<open>The abstract console\<close>

definition cons_lines :: "'a cons_state_scheme \<Rightarrow> byte list" where
  "cons_lines s = ring_list 128 (cons_buf s) (cons_r s) (cons_w s)"

definition cons_edit :: "'a cons_state_scheme \<Rightarrow> byte list" where
  "cons_edit s = ring_list 128 (cons_buf s) (cons_w s) (cons_e s)"

text \<open>The read index is behind the write index, which is behind the edit index, by no more than the size of the
  buffer in all.\<close>

definition cons_ok :: "'a cons_state_scheme \<Rightarrow> bool" where
  "cons_ok s \<longleftrightarrow> unat (cons_w s - cons_r s) + unat (cons_e s - cons_w s) \<le> 128"

definition type_char :: "int \<Rightarrow> byte list \<times> byte list \<Rightarrow> byte list \<times> byte list" where
  "type_char c st = (case st of (ls, ed) \<Rightarrow>
     if c = ctrl (CHR ''U'') then (ls, rev (dropWhile (\<lambda>b. b \<noteq> 10) (rev ed)))
     else if c = ctrl (CHR ''H'') \<or> c = 0x7f then (ls, butlast ed)
     else if c \<noteq> 0 \<and> length ls + length ed < 128 then
       let b = (if c = 13 then 10 else of_int c) in
       if b = 10 \<or> b = 4 \<or> length ls + length ed + 1 = 128 then (ls @ ed @ [b], []) else (ls, ed @ [b])
     else (ls, ed))"

lemma ctrl_values: "ctrl (CHR ''U'') = 21" "ctrl (CHR ''H'') = 8" "ctrl (CHR ''P'') = 16" "ctrl (CHR ''D'') = 4"
  by (simp_all add: ctrl_def ascii_def)

lemma ring_split:
  assumes "unat (w - r) + unat (e - w) < 2 ^ 32"
  shows "ring_list cap buf r e = ring_list cap buf r w @ ring_list cap buf w e"
proof -
  have e: "e - r = (w - r) + (e - w)" by simp
  have "unat ((w - r) + (e - w)) = (unat (w - r) + unat (e - w)) mod 2 ^ 32" by (simp only: unat_word_ariths) simp
  then have u: "unat (e - r) = unat (w - r) + unat (e - w)" unfolding e using assms by simp
  have "w + of_nat (i - unat (w - r)) = r + of_nat i" if "unat (w - r) \<le> i" for i
    using that by (simp add: of_nat_diff)
  then show ?thesis unfolding ring_list_def u by (intro nth_equalityI) (auto simp: nth_append add.commute)
qed

lemma cons_ok_all:
  assumes "cons_ok s"
  shows "ring_list 128 (cons_buf s) (cons_r s) (cons_e s) = cons_lines s @ cons_edit s"
    "unat (cons_e s - cons_r s) = length (cons_lines s) + length (cons_edit s)"
proof -
  show a: "ring_list 128 (cons_buf s) (cons_r s) (cons_e s) = cons_lines s @ cons_edit s"
    unfolding cons_lines_def cons_edit_def using assms by (intro ring_split) (simp add: cons_ok_def)
  show "unat (cons_e s - cons_r s) = length (cons_lines s) + length (cons_edit s)"
    using arg_cong [OF a, of length] by simp
qed

lemma cons_ok_length: "cons_ok s \<longleftrightarrow> length (cons_lines s) + length (cons_edit s) \<le> 128"
  by (simp add: cons_ok_def cons_lines_def cons_edit_def)

section \<open>Editing\<close>

lemma consputc_backspace: "uart_ready s \<Longrightarrow> calm s \<Longrightarrow> consputc BACKSPACE s = (Ret (), emit [8, 32, 8] s)"
  by (simp add: consputc_def uartputc_sync_calm seq_def bind_def)

lemma cons_emit [simp]:
  "cons_buf (emit bs s) = cons_buf s" "cons_r (emit bs s) = cons_r s" "cons_w (emit bs s) = cons_w s"
  "cons_e (emit bs s) = cons_e s" "cons_lines (emit bs s) = cons_lines s" "cons_edit (emit bs s) = cons_edit s"
  "procs (emit bs s) = procs s" "ctl (emit bs s) = ctl s" "uart_lsr (emit bs s) = uart_lsr s"
  "panicked (emit bs s) = panicked s" "panicking (emit bs s) = panicking s"
  by (simp_all add: emit_def cons_lines_def cons_edit_def)

lemma cons_unput:
  assumes "cons_e s \<noteq> cons_w s"
  shows "cons_edit (s\<lparr>cons_e := cons_e s - 1\<rparr>) = butlast (cons_edit s)"
  using assms cr.unput [of "cons_w s" "cons_e s" "cons_buf s"] by (simp add: cons_edit_def)

lemma cons_edit_Nil: "cons_edit s = [] \<longleftrightarrow> cons_e s = cons_w s"
  by (auto simp: cons_edit_def ring_list_empty)

lemma cons_last:
  assumes "cons_e s \<noteq> cons_w s"
  shows "last (cons_edit s) = cons_buf s (unat (cons_e s - 1) mod 128)"
proof -
  have u: "unat (cons_e s - cons_w s) = Suc (unat (cons_e s - 1 - cons_w s))"
  proof -
    have e: "cons_e s - 1 - cons_w s = (cons_e s - cons_w s) - 1" by simp
    show ?thesis unfolding e using assms by (intro Suc_unat_minus_one [symmetric]) simp
  qed
  show ?thesis unfolding cons_edit_def ring_list_def u by simp
qed

text \<open>What an editing routine may change: the edit index and the screen.\<close>

definition edited :: "'a cons_state_scheme \<Rightarrow> 'a cons_state_scheme \<Rightarrow> bool" where
  "edited s s' \<longleftrightarrow> (\<exists>e bs. s' = emit bs (s\<lparr>cons_e := e\<rparr>))"

lemma edited_again:
  assumes "edited (emit bs (s\<lparr>cons_e := e\<rparr>)) s'"
  shows "edited s s'"
proof -
  obtain e' cs where s': "s' = emit cs ((emit bs (s\<lparr>cons_e := e\<rparr>))\<lparr>cons_e := e'\<rparr>)" using assms by (auto simp: edited_def)
  have "s' = emit (bs @ cs) (s\<lparr>cons_e := e'\<rparr>)" unfolding s' by (simp add: emit_def)
  then show ?thesis by (auto simp: edited_def)
qed

lemma kill_line_ok:
  "uart_ready s \<Longrightarrow> calm s \<Longrightarrow> length (cons_edit s) \<le> n \<Longrightarrow>
   \<exists>s'. kill_line n s = (Ret (), s') \<and> edited s s' \<and> cons_edit s' = rev (dropWhile (\<lambda>b. b \<noteq> 10) (rev (cons_edit s)))"
proof (induction n arbitrary: s)
  case 0
  then have "cons_e s = cons_w s" by (simp add: cons_edit_Nil [symmetric])
  moreover have "edited s s" unfolding edited_def by (intro exI [of _ "cons_e s"] exI [of _ "[]"]) simp
  ultimately show ?case using 0 by (simp add: kill_line.simps kdefs)
next
  case (Suc n)
  show ?case
  proof (cases "cons_e s \<noteq> cons_w s \<and> cons_buf s (unat (cons_e s - 1) mod 128) \<noteq> 10")
    case True
    let ?t = "emit [8, 32, 8] (s\<lparr>cons_e := cons_e s - 1\<rparr>)"
    have ne: "cons_edit s \<noteq> []" and l: "last (cons_edit s) \<noteq> 10" using True cons_last [of s] by (auto simp: cons_edit_Nil)
    have b: "cons_edit ?t = butlast (cons_edit s)" using True cons_unput [of s] by simp
    have "uart_ready (s\<lparr>cons_e := cons_e s - 1\<rparr>)" "calm (s\<lparr>cons_e := cons_e s - 1\<rparr>)" using Suc.prems by (simp_all add: uart_ready_def calm_def)
    then have put: "consputc BACKSPACE (s\<lparr>cons_e := cons_e s - 1\<rparr>) = (Ret (), ?t)" by (rule consputc_backspace)
    have ready: "uart_ready ?t" "calm ?t" using Suc.prems by (simp_all add: uart_ready_def calm_def)
    have len: "length (cons_edit ?t) \<le> n" using Suc.prems(3) b by simp
    have "kill_line (Suc n) s = kill_line n ?t" using put True by (subst kill_line.simps) (simp add: kdefs)
    moreover obtain s' where s': "kill_line n ?t = (Ret (), s')" "edited ?t s'"
        "cons_edit s' = rev (dropWhile (\<lambda>b. b \<noteq> 10) (rev (cons_edit ?t)))"
      using Suc.IH [OF ready len] by blast
    moreover have "edited s s'" using s'(2) by (rule edited_again)
    moreover have "dropWhile (\<lambda>b. b \<noteq> 10) (rev (cons_edit s)) = dropWhile (\<lambda>b. b \<noteq> 10) (rev (butlast (cons_edit s)))"
      using ne l by (cases "cons_edit s" rule: rev_cases) auto
    ultimately show ?thesis using b by simp
  next
    case False
    then have "kill_line (Suc n) s = (Ret (), s)" by (subst kill_line.simps) (simp add: kdefs)
    moreover have "edited s s" unfolding edited_def by (intro exI [of _ "cons_e s"] exI [of _ "[]"]) simp
    moreover have "rev (dropWhile (\<lambda>b. b \<noteq> 10) (rev (cons_edit s))) = cons_edit s"
    proof (cases "cons_edit s = []")
      case ne: False
      then have "last (cons_edit s) = 10" using False cons_last [of s] by (auto simp: cons_edit_Nil)
      then have "rev (cons_edit s) = 10 # tl (rev (cons_edit s))" using ne by (metis hd_rev list.collapse rev_is_Nil_conv)
      then show ?thesis by (metis (mono_tags, lifting) dropWhile.simps(2) rev_rev_ident)
    qed simp
    ultimately show ?thesis by metis
  qed
qed


lemma edited_keeps:
  assumes "edited s s'"
  shows "cons_buf s' = cons_buf s" "cons_r s' = cons_r s" "cons_w s' = cons_w s" "ctl s' = ctl s" "procs s' = procs s"
    "cons_lines s' = cons_lines s" "mem s' = mem s"
  using assms by (auto simp: edited_def emit_def cons_lines_def)

lemma erase_char_ok:
  assumes "uart_ready s" "calm s"
  shows "\<exists>s'. erase_char s = (Ret (), s') \<and> edited s s' \<and> cons_edit s' = butlast (cons_edit s)"
proof (cases "cons_e s = cons_w s")
  case True
  moreover have "edited s s" unfolding edited_def by (intro exI [of _ "cons_e s"] exI [of _ "[]"]) simp
  moreover have "cons_edit s = []" using True by (simp add: cons_edit_Nil)
  ultimately show ?thesis by (simp add: erase_char_def kdefs)
next
  case False
  let ?t = "emit [8, 32, 8] (s\<lparr>cons_e := cons_e s - 1\<rparr>)"
  have "consputc BACKSPACE (s\<lparr>cons_e := cons_e s - 1\<rparr>) = (Ret (), ?t)"
    by (rule consputc_backspace) (use assms in \<open>simp_all add: uart_ready_def calm_def\<close>)
  then have "erase_char s = (Ret (), ?t)" using False by (simp add: erase_char_def kdefs)
  moreover have "edited s ?t" by (auto simp: edited_def)
  moreover have "cons_edit ?t = butlast (cons_edit s)" using False cons_unput [of s] by simp
  ultimately show ?thesis by blast
qed

text \<open>A character that fits is stored behind the edited line; a line end, an end-of-file mark or the last free
  place commits the line and wakes the readers.\<close>

lemma store_char_ok:
  assumes ok: "cons_ok s" and pf: "procs_free s" and held: "settle (ctl s) = ctl s"
    and room: "length (cons_lines s) + length (cons_edit s) < 128"
  shows "\<exists>s'. store_char b s = (Ret (), s') \<and> ctl s' = ctl s \<and> mem s' = mem s \<and>
     (if b = 10 \<or> b = 4 \<or> length (cons_lines s) + length (cons_edit s) + 1 = 128
      then cons_lines s' = cons_lines s @ cons_edit s @ [b] \<and> cons_edit s' = [] \<and>
           procs s' = wake_all ChanConsR (cproc (mycpu (ctl s))) (procs s)
      else cons_lines s' = cons_lines s \<and> cons_edit s' = cons_edit s @ [b] \<and> procs s' = procs s)"
proof -
  let ?buf = "(cons_buf s)(unat (cons_e s) mod 128 := b)"
  let ?t = "s\<lparr>cons_buf := ?buf, cons_e := cons_e s + 1\<rparr>"
  have n: "unat (cons_e s - cons_r s) < 128" using cons_ok_all(2) [OF ok] room by simp
  have all: "ring_list 128 ?buf (cons_r s) (cons_e s + 1) = (cons_lines s @ cons_edit s) @ [b]"
    using cr.put [OF n] cons_ok_all(1) [OF ok] by simp
  have ed: "ring_list 128 ?buf (cons_w s) (cons_e s + 1) = cons_edit s @ [b]"
    using cr.put [of "cons_e s" "cons_w s"] room by (simp add: cons_edit_def)
  have sum: "unat (cons_w s - cons_r s) + unat (cons_e s + 1 - cons_w s) < 2 ^ 32"
    using arg_cong [OF ed, of length] room by (simp add: cons_lines_def)
  have ln: "ring_list 128 ?buf (cons_r s) (cons_w s) = cons_lines s"
    using all unfolding ring_split [OF sum] ed by simp
  have full: "(cons_e s - cons_r s = 127) = (length (cons_lines s) + length (cons_edit s) = 127)"
    using cons_ok_all(2) [OF ok] word_unat_eq_iff [of "cons_e s - cons_r s" 127] by simp
  have eof: "(uint b = 4) = (b = 4)" using word_uint_eq_iff [of b 4] by simp
  show ?thesis
  proof (cases "b = 10 \<or> b = 4 \<or> length (cons_lines s) + length (cons_edit s) + 1 = 128")
    case True
    let ?u = "?t\<lparr>cons_w := cons_e s + 1\<rparr>"
    have "wakeup ChanConsR ?u = (Ret (), ?u\<lparr>procs := wake_all ChanConsR (cproc (mycpu (ctl s))) (procs s), ctl := ctl s\<rparr>)"
      using wakeup_eq [of ?u] pf held by (simp add: procs_free_def)
    then have "store_char b s = (Ret (), ?u\<lparr>procs := wake_all ChanConsR (cproc (mycpu (ctl s))) (procs s), ctl := ctl s\<rparr>)"
      using True by (simp add: store_char_def kdefs ctrl_values full eof)
    then show ?thesis using True all by (simp add: cons_lines_def cons_edit_def)
  next
    case False
    then have "store_char b s = (Ret (), ?t)" by (simp add: store_char_def kdefs ctrl_values full eof)
    then show ?thesis using False ed ln by (simp add: cons_lines_def cons_edit_def)
  qed
qed


section \<open>The interrupt handler\<close>

lemma consoleintr_body:
  assumes ok: "cons_ok s" and up: "uart_ready s" and pf: "procs_free s" and held: "settle (ctl s) = ctl s"
    and c: "0 \<le> c" "c < 256" "c \<noteq> ctrl (CHR ''P'')"
  shows "\<exists>s'. consoleintr_char c s = (Ret (), s') \<and> ctl s' = ctl s \<and>
     (cons_lines s', cons_edit s') = type_char c (cons_lines s, cons_edit s) \<and>
     procs s' = (if cons_lines s' = cons_lines s then procs s else wake_all ChanConsR (cproc (mycpu (ctl s))) (procs s))"
proof -
  have calm: "calm s" using held by (simp add: calm_def)
  have rm: "cons_e s - cons_r s < 128 \<longleftrightarrow> length (cons_lines s) + length (cons_edit s) < 128"
    using cons_ok_all(2) [OF ok] by (simp add: word_less_nat_alt)
  consider (kill) "c = 21" | (erase) "c = 8 \<or> c = 0x7f"
    | (skip) "c \<noteq> 21" "c \<noteq> 8" "c \<noteq> 0x7f" "c = 0 \<or> \<not> cons_e s - cons_r s < 128"
    | (put) "c \<noteq> 21" "c \<noteq> 8" "c \<noteq> 0x7f" "c \<noteq> 0" "cons_e s - cons_r s < 128" by blast
  then show ?thesis
  proof cases
    case kill
    have "consoleintr_char c s = kill_line (length (cons_edit s)) s" using kill by (simp add: consoleintr_char_def ctrl_values kdefs cons_edit_def)
    moreover obtain s' where "kill_line (length (cons_edit s)) s = (Ret (), s')" "edited s s'"
        "cons_edit s' = rev (dropWhile (\<lambda>b. b \<noteq> 10) (rev (cons_edit s)))"
      using kill_line_ok [OF up calm order_refl] by blast
    ultimately show ?thesis using kill edited_keeps [of s s'] by (simp add: type_char_def ctrl_values)
  next
    case erase
    then have "consoleintr_char c s = erase_char s" by (auto simp: consoleintr_char_def ctrl_values kdefs)
    moreover obtain s' where "erase_char s = (Ret (), s')" "edited s s'" "cons_edit s' = butlast (cons_edit s)"
      using erase_char_ok [OF up calm] by blast
    ultimately show ?thesis using erase edited_keeps [of s s'] by (auto simp: type_char_def ctrl_values)
  next
    case skip
    then have "consoleintr_char c s = (Ret (), s)" using c by (auto simp: consoleintr_char_def ctrl_values kdefs)
    then show ?thesis using skip rm by (auto simp: type_char_def ctrl_values)
  next
    case put
    define c' where "c' = (if c = 13 then 10 else c)"
    define b :: byte where "b = of_int c'"
    let ?t = "emit [b] s"
    have "consputc c' s = (Ret (), ?t)" using consputc_ok [OF up calm, of c'] c by (simp add: b_def c'_def)
    then have e: "consoleintr_char c s = store_char b ?t" using put c by (simp add: consoleintr_char_def ctrl_values kdefs c'_def [symmetric] b_def)
    have t: "cons_ok ?t" "procs_free ?t" "settle (ctl ?t) = ctl ?t" "length (cons_lines ?t) + length (cons_edit ?t) < 128"
      using ok pf held put(5) rm by (simp_all add: cons_ok_def procs_free_def)
    have "(if c = 13 then 10 else of_int c) = b" by (simp add: b_def c'_def)
    then have tc: "type_char c (cons_lines s, cons_edit s) =
       (if b = 10 \<or> b = 4 \<or> length (cons_lines s) + length (cons_edit s) + 1 = 128
        then (cons_lines s @ cons_edit s @ [b], []) else (cons_lines s, cons_edit s @ [b]))"
      using put rm by (simp add: type_char_def ctrl_values Let_def)
    obtain s' where "store_char b ?t = (Ret (), s')" "ctl s' = ctl s"
      "if b = 10 \<or> b = 4 \<or> length (cons_lines s) + length (cons_edit s) + 1 = 128
       then cons_lines s' = cons_lines s @ cons_edit s @ [b] \<and> cons_edit s' = [] \<and>
           procs s' = wake_all ChanConsR (cproc (mycpu (ctl s))) (procs s)
       else cons_lines s' = cons_lines s \<and> cons_edit s' = cons_edit s @ [b] \<and> procs s' = procs s"
      using store_char_ok [OF t, of b] unfolding cons_emit by blast
    then show ?thesis unfolding e tc by (intro exI [of _ s']) (simp split: if_splits)
  qed
qed


lemma length_type_char:
  "length ls + length ed \<le> 128 \<Longrightarrow> type_char c (ls, ed) = (ls', ed') \<Longrightarrow> length ls' + length ed' \<le> 128"
proof -
  assume a: "length ls + length ed \<le> 128" "type_char c (ls, ed) = (ls', ed')"
  have "length (dropWhile (\<lambda>b. b \<noteq> 10) (rev ed)) \<le> length ed" using length_dropWhile_le [of _ "rev ed"] by simp
  then show ?thesis using a by (auto simp: type_char_def Let_def split: if_splits)
qed

text \<open>C5. The interrupt handler of the console does to the input buffer exactly what the editor does to the pair of
  complete lines and line being edited, for every character but the one that prints the process table; when it
  completes a line it wakes the readers, and it leaves the lock free.\<close>

theorem consoleintr_edits:
  assumes "cons_ok s" "uart_ready s" "procs_free s" "lock_free ConsLock (ctl s)"
    and "0 \<le> c" "c < 256" "c \<noteq> ctrl (CHR ''P'')"
  shows "\<exists>s'. consoleintr c s = (Ret (), s') \<and> cons_ok s' \<and> ctl s' = settle (ctl s) \<and>
     (cons_lines s', cons_edit s') = type_char c (cons_lines s, cons_edit s) \<and>
     procs s' = (if cons_lines s' = cons_lines s then procs s else wake_all ChanConsR (cproc (mycpu (ctl s))) (procs s))"
proof -
  let ?t = "s\<lparr>ctl := acq ConsLock (ctl s)\<rparr>"
  have view: "cons_lines ?t = cons_lines s" "cons_edit ?t = cons_edit s" by (simp_all add: cons_lines_def cons_edit_def)
  have "cons_ok ?t" "uart_ready ?t" "procs_free ?t" "settle (ctl ?t) = ctl ?t"
    using assms by (simp_all add: cons_ok_def uart_ready_def procs_free_def)
  from consoleintr_body [OF this assms(5-7)] obtain u where
    u: "consoleintr_char c ?t = (Ret (), u)"
      "ctl u = acq ConsLock (ctl s)" "(cons_lines u, cons_edit u) = type_char c (cons_lines s, cons_edit s)"
      "procs u = (if cons_lines u = cons_lines s then procs s else wake_all ChanConsR (cproc (mycpu (ctl s))) (procs s))"
    unfolding view by auto
  let ?u = "u\<lparr>ctl := settle (ctl s)\<rparr>"
  have "consoleintr c s = (Ret (), ?u)"
    using u(1,2) assms(4) by (simp add: consoleintr_def seq_def bind_def acquire_ok release_ok)
  moreover have vu: "cons_lines ?u = cons_lines u" "cons_edit ?u = cons_edit u" by (simp_all add: cons_lines_def cons_edit_def)
  moreover have "cons_ok ?u" using length_type_char [OF _ u(3) [symmetric]] assms(1) unfolding cons_ok_length vu by simp
  ultimately show ?thesis using u by (intro exI [of _ ?u]) simp
qed


section \<open>Reading\<close>

text \<open>What a read of up to \<open>n\<close> more of \<open>target\<close> bytes takes from the complete lines: a line end is the last byte taken, an
  end-of-file mark is not given to the reader and stays for the next read if this one has something.  \<open>None\<close> means
  that the reader has to wait.\<close>

fun take_line :: "nat \<Rightarrow> nat \<Rightarrow> byte list \<Rightarrow> (byte list \<times> byte list) option" where
  "take_line target 0 ls = Some ([], ls)"
| "take_line target (Suc m) [] = None"
| "take_line target (Suc m) (c # cs) =
     (if c = 4 then Some ([], if Suc m < target then c # cs else cs)
      else if c = 10 then Some ([c], cs)
      else map_option (\<lambda>(bs, rest). (c # bs, rest)) (take_line target m cs))"

lemma take_line_length: "take_line target n ls = Some (bs, rest) \<Longrightarrow> length bs \<le> n"
  by (induction target n ls arbitrary: bs rule: take_line.induct) (auto split: if_splits)

lemma take_line_rest: "take_line target n ls = Some (bs, rest) \<Longrightarrow> length rest \<le> length ls"
  by (induction target n ls arbitrary: bs rule: take_line.induct) (fastforce split: if_splits)+

lemma u8_int: "(uint (c :: byte) = 4) = (c = 4)"
  using word_uint_eq_iff [of c 4] by simp

lemma consoleread_done_ok:
  assumes "ctl s = acq ConsLock c" "lock_free ConsLock c"
  shows "consoleread_done target n s = (Ret (int target - int n), s\<lparr>ctl := settle c\<rparr>)"
  using assms by (simp add: consoleread_done_def seq_def bind_def release_ok ret_def)

lemma consoleread_loop_ok:
  assumes "take_line target n ls = Some (bs, rest)" "cons_lines s = ls" "user_buf p s va n"
    "ctl s = acq ConsLock c" "lock_free ConsLock c"
  shows "\<exists>r m'. consoleread_loop target n (ToUser va) s =
      (Ret (int target - int n + int (length bs)), s\<lparr>cons_r := r, mem := m', ctl := settle c\<rparr>) \<and>
     ring_list 128 (cons_buf s) r (cons_w s) = rest \<and> uput p s va bs m'"
  using assms
proof (induction target n ls arbitrary: s va bs rule: take_line.induct)
  case (1 target ls)
  then show ?case using consoleread_done_ok [OF 1(4,5), of target 0] uput_Nil [of s p va]
    by (intro exI [of _ "cons_r s"] exI [of _ "mem s"]) (simp add: cons_lines_def)
next
  case (2 target m)
  then show ?case by simp
next
  case (3 target m b cs)
  have ring: "ring_list 128 (cons_buf s) (cons_r s) (cons_w s) = b # cs" using 3(3) by (simp add: cons_lines_def)
  then have ne: "cons_r s \<noteq> cons_w s" by auto
  note g = cr.get [OF ring]
  let ?t = "s\<lparr>cons_r := cons_r s + 1\<rparr>"
  show ?case
  proof (cases "b = 4")
    case True
    have "consoleread_loop target (Suc m) (ToUser va) s =
        consoleread_done target (Suc m) (if Suc m < target then s else ?t)"
      using ne True by (simp add: kdefs g ctrl_values u8_int)
    then show ?thesis using 3(2,5,6) True ring g uput_Nil [of s p va] consoleread_done_ok [OF 3(5,6)]
        consoleread_done_ok [of ?t c target "Suc m"]
      by (intro exI [of _ "if Suc m < target then cons_r s else cons_r s + 1"] exI [of _ "mem s"]) auto
  next
    case False
    have ub: "user_buf p ?t va (Suc m)" by (rule user_buf_cong [OF 3(4)]) (use user_buf_proc [OF 3(4)] in simp_all)
    then obtain m1 where m1: "either_copyout (ToUser va) [b] ?t = (Ret 0, ?t\<lparr>mem := m1\<rparr>)" "uput p ?t va [b] m1"
      using either_copyout_user [OF ub, of b] 3(5) by auto
    let ?u = "?t\<lparr>mem := m1\<rparr>"
    have step: "consoleread_loop target (Suc m) (ToUser va) s =
        (if b = 10 then consoleread_done target m else consoleread_loop target m (ToUser (va + 1))) ?u"
      using ne False m1(1) by (cases "b = 10") (simp_all add: kdefs g ctrl_values u8_int)
    show ?thesis
    proof (cases "b = 10")
      case True
      have "consoleread_done target m ?u = (Ret (int target - int m), ?u\<lparr>ctl := settle c\<rparr>)"
        by (rule consoleread_done_ok) (use 3(5,6) in simp_all)
      then show ?thesis using step True 3(2) g m1(2)
        by (intro exI [of _ "cons_r s + 1"] exI [of _ m1]) auto
    next
      case n10: False
      obtain bs' where bs': "take_line target m cs = Some (bs', rest)" "bs = b # bs'" using 3(2) False n10 by auto
      have "user_buf p ?u (va + 1) m" by (rule user_buf_next [OF ub m1(2)]) (use user_buf_proc [OF ub] in simp_all)
      then obtain r m' where r: "consoleread_loop target m (ToUser (va + 1)) ?u =
          (Ret (int target - int m + int (length bs')), ?u\<lparr>cons_r := r, mem := m', ctl := settle c\<rparr>)"
          "ring_list 128 (cons_buf s) r (cons_w s) = rest" "uput p ?u (va + 1) bs' m'"
        using 3(1) [OF False n10 bs'(1), of ?u "va + 1"] g 3(5,6) by (auto simp: cons_lines_def)
      have "uput p ?t va (b # bs') m'"
        by (rule uput_Cons [OF ub m1(2)]) (use r(3) take_line_length [OF bs'(1)] in simp_all)
      then show ?thesis using step n10 r bs' by (intro exI [of _ r] exI [of _ m']) simp
    qed
  qed
qed


text \<open>C8. A read of the console into the memory of the running process, when the complete lines hold what the read
  waits for, returns the number of bytes the specification takes, leaves exactly those bytes at the buffer and the
  rest of the lines for the next reader, keeps the line being edited, and gives the lock back.\<close>

theorem consoleread_takes:
  assumes "take_line n n (cons_lines s) = Some (bs, rest)" "cons_ok s" "user_buf p s va n" "lock_free ConsLock (ctl s)"
  shows "\<exists>s'. consoleread (ToUser va) (int n) s = (Ret (int (length bs)), s') \<and>
     cons_lines s' = rest \<and> cons_edit s' = cons_edit s \<and> cons_ok s' \<and> ctl s' = settle (ctl s) \<and> uput p s va bs (mem s')"
proof -
  let ?t = "s\<lparr>ctl := acq ConsLock (ctl s)\<rparr>"
  have "user_buf p ?t va n" by (rule user_buf_cong [OF assms(3)]) (use user_buf_proc [OF assms(3)] in simp_all)
  moreover have "cons_lines ?t = cons_lines s" by (simp add: cons_lines_def)
  ultimately obtain r m' where r: "consoleread_loop n n (ToUser va) ?t =
      (Ret (int (length bs)), s\<lparr>ctl := acq ConsLock (ctl s), cons_r := r, mem := m', ctl := settle (ctl s)\<rparr>)"
      "ring_list 128 (cons_buf s) r (cons_w s) = rest" "uput p s va bs m'"
    using consoleread_loop_ok [OF assms(1), of ?t p va "ctl s"] assms(4) by auto
  let ?s = "s\<lparr>ctl := acq ConsLock (ctl s), cons_r := r, mem := m', ctl := settle (ctl s)\<rparr>"
  have "consoleread (ToUser va) (int n) s = (Ret (int (length bs)), ?s)"
    using r(1) assms(4) by (simp add: consoleread_def seq_def bind_def acquire_ok)
  moreover have "length rest \<le> length (cons_lines s)" using take_line_rest [OF assms(1)] .
  moreover have "cons_lines ?s = rest" "cons_edit ?s = cons_edit s" using r(2) by (simp_all add: cons_lines_def cons_edit_def)
  ultimately show ?thesis using r(3) assms(2) by (intro exI [of _ ?s]) (simp add: cons_ok_length)
qed

lemma cons_boot [simp]: "cons_r (file_boot z) = 0" "cons_w (file_boot z) = 0" "cons_e (file_boot z) = 0"
  "cons_lines (file_boot z) = []" "cons_edit (file_boot z) = []" "cons_ok (file_boot z)"
  by (simp_all add: file_boot_def boot_def cons_lines_def cons_edit_def cons_ok_def)

text \<open>The machine after a line was typed.\<close>

definition cons_typed :: file_state where
  "cons_typed = (file_boot ())\<lparr>cons_buf := (\<lambda>_. 0)(0 := 104, 1 := 105, 2 := 10), cons_w := 3, cons_e := 3\<rparr>"

theorem consoleintr_edits_witness:
  "\<exists>s'. consoleintr 104 (file_boot ()) = (Ret (), s') \<and> cons_ok s' \<and> cons_lines s' = [] \<and> cons_edit s' = [104]"
  using consoleintr_edits [of "file_boot ()" 104]
  by (auto simp: procs_free_def ctrl_values type_char_def Let_def)

theorem consoleread_takes_witness:
  "\<exists>s'. consoleread (ToUser 0x20) 3 cons_typed = (Ret 3, s') \<and> cons_lines s' = [] \<and>
     uwritten demo ROOT 0x20 [104, 105, 10] (mem s')"
proof -
  have l: "cons_lines cons_typed = [104, 105, 10]"
    by (simp add: cons_typed_def cons_lines_def ring_list_def upt_rec)
  have "user_buf 0 cons_typed 0x20 3" by (rule demo_buf) (simp_all add: cons_typed_def)
  moreover have "cons_ok cons_typed" "lock_free ConsLock (ctl cons_typed)" by (simp_all add: cons_typed_def cons_ok_def)
  moreover have "take_line 3 3 [104, 105, 10] = Some ([104, 105, 10], [])" by code_simp
  ultimately show ?thesis using consoleread_takes [of 3 cons_typed "[104, 105, 10]" "[]" 0 "0x20"]
    by (auto simp: l) (auto simp: cons_typed_def)
qed


end
