(* ===== verification/Asm.thy ===== *)
theory Asm
  imports Uvm
begin

text \<open>
  The assembly files of the kernel: \<open>swtch.S\<close>, \<open>trampoline.S\<close>, \<open>kernelvec.S\<close> and \<open>entry.S\<close>, as lists of instructions
  over the integer registers, the CSRs they use and byte memory.  A memory access is translated by the page table
  that \<open>satp\<close> names, in supervisor mode; one that the table does not allow has no result.  \<open>sfence.vma\<close> has no effect:
  translation always reads the current table.  The code does not branch; the instruction that leaves it sets \<open>apc\<close>.
  The C functions it calls are parameters, since their machine code is not part of the sources.
\<close>

section \<open>The machine\<close>

datatype reg = RA | SP | GP | TP | T0 | T1 | T2 | T3 | T4 | T5 | T6
  | S0 | S1 | S2 | S3 | S4 | S5 | S6 | S7 | S8 | S9 | S10 | S11
  | A0 | A1 | A2 | A3 | A4 | A5 | A6 | A7

datatype csr = Satp | Sscratch | Sepc | Mhartid

datatype instr =
    SD reg nat reg
  | LD reg nat reg
  | ADDI reg reg int
  | ADD reg reg reg
  | MUL reg reg reg
  | LI reg u64
  | CSRW csr reg
  | CSRR reg csr
  | SFENCE
  | JALR reg u64
  | CALL u64 u64
  | RETI
  | SRET

record asm_state =
  xr :: "reg \<Rightarrow> u64"
  acsr :: "csr \<Rightarrow> u64"
  amem :: memory
  apc :: u64

text \<open>Sv39 translation in supervisor mode, which may not touch user pages.\<close>

definition translate :: "memory \<Rightarrow> u64 \<Rightarrow> u64 \<Rightarrow> bool \<Rightarrow> u64 option" where
  "translate m at va wr =
     (if at = 0 then Some va else
      let e = ent m (push_bit 12 at) va in
      if va \<ge> MAXVA \<or> e AND PTE_V = 0 \<or> e AND PTE_U \<noteq> 0 \<or> e AND (if wr then PTE_W else PTE_R) = 0 then None
      else Some (PTE2PA e + (va - PGROUNDDOWN va)))"

definition set_xr :: "reg \<Rightarrow> u64 \<Rightarrow> asm_state \<Rightarrow> asm_state" where
  "set_xr r v s = s\<lparr>xr := (xr s)(r := v)\<rparr>"

text \<open>The second operand of \<open>JALR\<close> and \<open>CALL\<close> is the address of the next instruction.\<close>

fun exec1 :: "instr \<Rightarrow> asm_state \<Rightarrow> asm_state option" where
  "exec1 (SD r k b) s = map_option (\<lambda>a. s\<lparr>amem := store64 (amem s) a (xr s r)\<rparr>)
     (translate (amem s) (acsr s Satp) (xr s b + of_nat k) True)"
| "exec1 (LD r k b) s = map_option (\<lambda>a. set_xr r (load64 (amem s) a) s)
     (translate (amem s) (acsr s Satp) (xr s b + of_nat k) False)"
| "exec1 (ADDI d r i) s = Some (set_xr d (xr s r + of_int i) s)"
| "exec1 (ADD d r q) s = Some (set_xr d (xr s r + xr s q) s)"
| "exec1 (MUL d r q) s = Some (set_xr d (xr s r * xr s q) s)"
| "exec1 (LI d v) s = Some (set_xr d v s)"
| "exec1 (CSRW c r) s = Some (s\<lparr>acsr := (acsr s)(c := xr s r)\<rparr>)"
| "exec1 (CSRR d c) s = Some (set_xr d (acsr s c) s)"
| "exec1 SFENCE s = Some s"
| "exec1 (JALR r link) s = Some (set_xr RA link (s\<lparr>apc := xr s r\<rparr>))"
| "exec1 (CALL f link) s = Some (set_xr RA link (s\<lparr>apc := f\<rparr>))"
| "exec1 RETI s = Some (s\<lparr>apc := xr s RA\<rparr>)"
| "exec1 SRET s = Some (s\<lparr>apc := acsr s Sepc\<rparr>)"

fun exec :: "instr list \<Rightarrow> asm_state \<Rightarrow> asm_state option" where
  "exec [] s = Some s"
| "exec (i # is) s = (case exec1 i s of None \<Rightarrow> None | Some t \<Rightarrow> exec is t)"

section \<open>The code\<close>

text \<open>\<open>entry.S\<close>: every hart gets its own stack; \<open>spin\<close> is the address of the loop behind the call.\<close>

definition entry_code :: "u64 \<Rightarrow> u64 \<Rightarrow> u64 \<Rightarrow> instr list" where
  "entry_code stack0 start spin =
    [LI SP stack0, LI A0 (1024 * 4), CSRR A1 Mhartid, ADDI A1 A1 1, MUL A0 A0 A1, ADD SP SP A0, CALL start spin]"

text \<open>\<open>swtch.S\<close>: the stores into the old context and the loads from the new one.\<close>

definition swtch_save :: "instr list" where
  "swtch_save =
    [SD RA 0 A0, SD SP 8 A0, SD S0 16 A0, SD S1 24 A0, SD S2 32 A0, SD S3 40 A0, SD S4 48 A0, SD S5 56 A0,
     SD S6 64 A0, SD S7 72 A0, SD S8 80 A0, SD S9 88 A0, SD S10 96 A0, SD S11 104 A0]"

definition swtch_load :: "instr list" where
  "swtch_load =
    [LD RA 0 A1, LD SP 8 A1, LD S0 16 A1, LD S1 24 A1, LD S2 32 A1, LD S3 40 A1, LD S4 48 A1, LD S5 56 A1,
     LD S6 64 A1, LD S7 72 A1, LD S8 80 A1, LD S9 88 A1, LD S10 96 A1, LD S11 104 A1]"

definition swtch :: "instr list" where
  "swtch = swtch_save @ swtch_load @ [RETI]"

text \<open>\<open>kernelvec.S\<close>: a trap from supervisor mode saves the caller-saved registers on the kernel stack, calls
  \<open>kerneltrap\<close> and restores them, except \<open>tp\<close>.\<close>

definition kernelvec_save :: "instr list" where
  "kernelvec_save =
    [SD RA 0 SP, SD GP 16 SP, SD TP 24 SP, SD T0 32 SP, SD T1 40 SP, SD T2 48 SP, SD A0 72 SP, SD A1 80 SP,
     SD A2 88 SP, SD A3 96 SP, SD A4 104 SP, SD A5 112 SP, SD A6 120 SP, SD A7 128 SP, SD T3 216 SP,
     SD T4 224 SP, SD T5 232 SP, SD T6 240 SP]"

definition kernelvec_load :: "instr list" where
  "kernelvec_load =
    [LD RA 0 SP, LD GP 16 SP, LD T0 32 SP, LD T1 40 SP, LD T2 48 SP, LD A0 72 SP, LD A1 80 SP, LD A2 88 SP,
     LD A3 96 SP, LD A4 104 SP, LD A5 112 SP, LD A6 120 SP, LD A7 128 SP, LD T3 216 SP, LD T4 224 SP,
     LD T5 232 SP, LD T6 240 SP]"

definition kernelvec :: "(asm_state \<Rightarrow> asm_state) \<Rightarrow> asm_state \<Rightarrow> asm_state option" where
  "kernelvec kerneltrap s =
     (case exec (ADDI SP SP (- 256) # kernelvec_save) s of None \<Rightarrow> None | Some t \<Rightarrow>
      exec (kernelvec_load @ [ADDI SP SP 256, SRET]) (kerneltrap t))"

text \<open>\<open>trampoline.S\<close>: traps from user mode and the way back.\<close>

definition uservec_save :: "instr list" where
  "uservec_save =
    [SD RA 40 A0, SD SP 48 A0, SD GP 56 A0, SD TP 64 A0, SD T0 72 A0, SD T1 80 A0, SD T2 88 A0, SD S0 96 A0,
     SD S1 104 A0, SD A1 120 A0, SD A2 128 A0, SD A3 136 A0, SD A4 144 A0, SD A5 152 A0, SD A6 160 A0,
     SD A7 168 A0, SD S2 176 A0, SD S3 184 A0, SD S4 192 A0, SD S5 200 A0, SD S6 208 A0, SD S7 216 A0,
     SD S8 224 A0, SD S9 232 A0, SD S10 240 A0, SD S11 248 A0, SD T3 256 A0, SD T4 264 A0, SD T5 272 A0,
     SD T6 280 A0]"

definition uservec :: "u64 \<Rightarrow> instr list" where
  "uservec link =
     [CSRW Sscratch A0, LI A0 TRAPFRAME] @ uservec_save @
     [CSRR T0 Sscratch, SD T0 112 A0, LD SP 8 A0, LD TP 32 A0, LD T0 16 A0, LD T1 0 A0,
      SFENCE, CSRW Satp T1, SFENCE, JALR T0 link]"

definition userret_load :: "instr list" where
  "userret_load =
    [LD RA 40 A0, LD SP 48 A0, LD GP 56 A0, LD TP 64 A0, LD T0 72 A0, LD T1 80 A0, LD T2 88 A0, LD S0 96 A0,
     LD S1 104 A0, LD A1 120 A0, LD A2 128 A0, LD A3 136 A0, LD A4 144 A0, LD A5 152 A0, LD A6 160 A0,
     LD A7 168 A0, LD S2 176 A0, LD S3 184 A0, LD S4 192 A0, LD S5 200 A0, LD S6 208 A0, LD S7 216 A0,
     LD S8 224 A0, LD S9 232 A0, LD S10 240 A0, LD S11 248 A0, LD T3 256 A0, LD T4 264 A0, LD T5 272 A0,
     LD T6 280 A0]"

definition userret :: "instr list" where
  "userret = [SFENCE, CSRW Satp A0, SFENCE, LI A0 TRAPFRAME] @ userret_load @ [LD A0 112 A0, SRET]"

section \<open>Saving and restoring\<close>

lemma exec_append: "exec (is @ js) s = (case exec is s of None \<Rightarrow> None | Some t \<Rightarrow> exec js t)"
  by (induction "is" arbitrary: s) (auto split: option.splits)

lemma set_xr_sel [simp]:
  "xr (set_xr r v s) = (xr s)(r := v)" "acsr (set_xr r v s) = acsr s" "amem (set_xr r v s) = amem s" "apc (set_xr r v s) = apc s"
  by (simp_all add: set_xr_def)

text \<open>\<open>window P m at va pa\<close>: under the table \<open>at\<close> the page at \<open>va\<close> is the physical page \<open>pa\<close>, readable and writable, and it
  stays so whatever is written to the pages \<open>P\<close>, \<open>pa\<close> among them: they are not part of the table.\<close>

definition outside :: "u64 set \<Rightarrow> memory \<Rightarrow> memory \<Rightarrow> bool" where
  "outside P m m' \<longleftrightarrow> (\<forall>x. (\<forall>q\<in>P. \<not> in_page q x) \<longrightarrow> m' x = m x)"

definition window :: "u64 set \<Rightarrow> memory \<Rightarrow> u64 \<Rightarrow> u64 \<Rightarrow> u64 \<Rightarrow> bool" where
  "window P m at va pa \<longleftrightarrow> pa \<in> P \<and> (\<forall>m' i wr. outside P m m' \<longrightarrow> i < 4096 \<longrightarrow>
     translate m' at (va + of_nat i) wr = Some (pa + of_nat i))"

lemma outside_refl [simp]: "outside P m m"
  by (simp add: outside_def)

lemma outside_trans: "outside P m m1 \<Longrightarrow> outside P m1 m2 \<Longrightarrow> outside P m m2"
  by (simp add: outside_def)

lemma window_at: "window P m at va pa \<Longrightarrow> outside P m m' \<Longrightarrow> i < 4096 \<Longrightarrow> translate m' at (va + of_nat i) wr = Some (pa + of_nat i)"
  by (simp add: window_def)

lemma window_upd: "window P m at va pa \<Longrightarrow> outside P m m' \<Longrightarrow> window P m' at va pa"
  unfolding window_def using outside_trans by blast

lemma window_in: "window P m at va pa \<Longrightarrow> pa \<in> P"
  by (simp add: window_def)

definition save_regs :: "u64 \<Rightarrow> (reg \<times> nat) list \<Rightarrow> (reg \<Rightarrow> u64) \<Rightarrow> memory \<Rightarrow> memory" where
  "save_regs a xs v m = fold (\<lambda>(r, k) m. store64 m (a + of_nat k) (v r)) xs m"

lemma save_regs_Cons: "save_regs a ((r, k) # xs) v m = save_regs a xs v (store64 m (a + of_nat k) (v r))"
  by (simp add: save_regs_def)

lemma store64_page:
  assumes "i + 8 \<le> 4096" "\<not> in_page pa x"
  shows "store64 m (pa + of_nat i) v x = m x"
proof (rule store64_other, rule ccontr)
  assume n: "\<not> 8 \<le> unat (x - (pa + of_nat i))"
  let ?j = "unat (x - (pa + of_nat i))"
  have "in_page pa (pa + of_nat (i + ?j))" using n assms by (intro in_page_offset) linarith
  moreover have "pa + of_nat (i + ?j) = x" by simp
  ultimately show False using assms(2) by (simp only:)
qed

text \<open>Two words of one page that do not overlap.\<close>

lemma load_store_apart:
  assumes "i + 8 \<le> 4096" "j + 8 \<le> 4096" "i + 8 \<le> j \<or> j + 8 \<le> i"
  shows "load64 (store64 m (pa + of_nat i) v) (pa + of_nat j) = load64 m (pa + of_nat j)"
proof (rule load64_cong)
  fix k :: nat
  assume k: "k < 8"
  have e: "pa + of_nat j + of_nat k - (pa + of_nat i) = of_nat (j + k) - of_nat i" by simp
  show "store64 m (pa + of_nat i) v (pa + of_nat j + of_nat k) = m (pa + of_nat j + of_nat k)"
    by (rule store64_other) (use assms k unat_diff_of_nat [of "j + k" i] in \<open>auto simp: e split: if_splits\<close>)
qed

text \<open>The offsets of a save area: words inside the page, none overlapping another.\<close>

definition slots_ok :: "nat \<Rightarrow> (reg \<times> nat) list \<Rightarrow> bool" where
  "slots_ok b xs \<longleftrightarrow> (\<forall>(r, k)\<in>set xs. b + k + 8 \<le> 4096) \<and> sorted_wrt (\<lambda>(_, k) (_, l). k + 8 \<le> l \<or> l + 8 \<le> k) xs"

lemma save_regs_page: "slots_ok b xs \<Longrightarrow> \<not> in_page pa x \<Longrightarrow> save_regs (pa + of_nat b) xs v m x = m x"
proof (induction xs arbitrary: m)
  case (Cons p xs)
  obtain r k where p: "p = (r, k)" by (cases p)
  have "store64 m (pa + of_nat b + of_nat k) (v r) x = m x"
    using store64_page [of "b + k" pa x m "v r"] Cons.prems p by (simp add: slots_ok_def add.assoc)
  then show ?case using Cons p by (simp add: save_regs_Cons slots_ok_def)
qed (simp add: save_regs_def)

lemma save_regs_outside: "slots_ok b xs \<Longrightarrow> pa \<in> P \<Longrightarrow> outside P m (save_regs (pa + of_nat b) xs v m)"
  using save_regs_page [of b xs pa _ v m] unfolding outside_def by blast

lemma save_regs_apart:
  "slots_ok b xs \<Longrightarrow> b + j + 8 \<le> 4096 \<Longrightarrow> \<forall>(r, k)\<in>set xs. k + 8 \<le> j \<or> j + 8 \<le> k \<Longrightarrow>
   load64 (save_regs (pa + of_nat b) xs v m) (pa + of_nat b + of_nat j) = load64 m (pa + of_nat b + of_nat j)"
proof (induction xs arbitrary: m)
  case (Cons p xs)
  obtain r k where p: "p = (r, k)" by (cases p)
  have "load64 (store64 m (pa + of_nat b + of_nat k) (v r)) (pa + of_nat b + of_nat j) = load64 m (pa + of_nat b + of_nat j)"
    using load_store_apart [of "b + k" "b + j" m pa "v r"] Cons.prems p by (auto simp: slots_ok_def add.assoc)
  then show ?case using Cons p by (simp add: save_regs_Cons slots_ok_def)
qed (simp add: save_regs_def)

lemma save_regs_at:
  "slots_ok b xs \<Longrightarrow> (r, k) \<in> set xs \<Longrightarrow> load64 (save_regs (pa + of_nat b) xs v m) (pa + of_nat b + of_nat k) = v r"
proof (induction xs arbitrary: m)
  case (Cons p xs)
  obtain q l where p: "p = (q, l)" by (cases p)
  have ok: "slots_ok b xs" using Cons.prems p by (simp add: slots_ok_def)
  show ?case
  proof (cases "(r, k) \<in> set xs")
    case True
    then show ?thesis using Cons.IH [OF ok] p by (simp add: save_regs_Cons)
  next
    case False
    then have "q = r" "l = k" using Cons.prems p by auto
    moreover have "\<forall>(r, l)\<in>set xs. l + 8 \<le> k \<or> k + 8 \<le> l" "b + k + 8 \<le> 4096"
      using Cons.prems p calculation by (auto simp: slots_ok_def)
    ultimately show ?thesis using save_regs_apart [OF ok, of k] p by (simp add: save_regs_Cons)
  qed
qed simp

lemma exec_save:
  assumes "window P (amem s) (acsr s Satp) va pa" "slots_ok b xs" "xr s a = va + of_nat b"
  shows "exec (map (\<lambda>(r, k). SD r k a) xs) s = Some (s\<lparr>amem := save_regs (pa + of_nat b) xs (xr s) (amem s)\<rparr>)"
  using assms
proof (induction xs arbitrary: s)
  case (Cons p xs)
  obtain r k where p: "p = (r, k)" by (cases p)
  have k: "b + k + 8 \<le> 4096" using Cons.prems(2) p by (simp add: slots_ok_def)
  have tr: "translate (amem s) (acsr s Satp) (xr s a + of_nat k) True = Some (pa + of_nat b + of_nat k)"
    using window_at [OF Cons.prems(1) outside_refl, of "b + k"] Cons.prems(3) k by (simp add: add.assoc)
  let ?t = "s\<lparr>amem := store64 (amem s) (pa + of_nat b + of_nat k) (xr s r)\<rparr>"
  have "outside P (amem s) (amem ?t)"
    using store64_page [of "b + k" pa _ "amem s" "xr s r"] k window_in [OF Cons.prems(1)] by (auto simp: outside_def add.assoc)
  then have "window P (amem ?t) (acsr ?t Satp) va pa" using window_upd [OF Cons.prems(1)] by simp
  then show ?case using Cons.IH [of ?t] Cons.prems p tr by (simp add: save_regs_Cons slots_ok_def)
qed (simp add: save_regs_def)

definition load_regs :: "u64 \<Rightarrow> (reg \<times> nat) list \<Rightarrow> memory \<Rightarrow> (reg \<Rightarrow> u64) \<Rightarrow> reg \<Rightarrow> u64" where
  "load_regs a xs m v r = (case map_of xs r of None \<Rightarrow> v r | Some k \<Rightarrow> load64 m (a + of_nat k))"

lemma exec_load:
  assumes "window P (amem s) (acsr s Satp) va pa" "\<forall>(r, k)\<in>set xs. b + k + 8 \<le> 4096" "xr s a = va + of_nat b"
    and "a \<notin> fst ` set xs" "distinct (map fst xs)"
  shows "exec (map (\<lambda>(r, k). LD r k a) xs) s = Some (s\<lparr>xr := load_regs (pa + of_nat b) xs (amem s) (xr s)\<rparr>)"
  using assms
proof (induction xs arbitrary: s)
  case (Cons p xs)
  obtain r k where p: "p = (r, k)" by (cases p)
  have k: "b + k + 8 \<le> 4096" using Cons.prems(2) p by simp
  have tr: "translate (amem s) (acsr s Satp) (xr s a + of_nat k) False = Some (pa + of_nat b + of_nat k)"
    using window_at [OF Cons.prems(1) outside_refl, of "b + k"] Cons.prems(3) k by (simp add: add.assoc)
  let ?t = "set_xr r (load64 (amem s) (pa + of_nat b + of_nat k)) s"
  have n: "map_of xs r = None" using Cons.prems(5) p by (auto simp: map_of_eq_None_iff)
  have "exec (map (\<lambda>(r, k). LD r k a) xs) ?t = Some (?t\<lparr>xr := load_regs (pa + of_nat b) xs (amem ?t) (xr ?t)\<rparr>)"
    by (rule Cons.IH) (use Cons.prems p in auto)
  moreover have "load_regs (pa + of_nat b) xs (amem ?t) (xr ?t) = load_regs (pa + of_nat b) (p # xs) (amem s) (xr s)"
    using p n by (auto simp: load_regs_def fun_eq_iff split: option.splits)
  ultimately show ?case using p tr by (simp add: set_xr_def)
qed (simp add: load_regs_def [abs_def])


section \<open>Context switches\<close>

definition context_slots :: "(reg \<times> nat) list" where
  "context_slots = [(RA, 0), (SP, 8), (S0, 16), (S1, 24), (S2, 32), (S3, 40), (S4, 48), (S5, 56), (S6, 64), (S7, 72),
     (S8, 80), (S9, 88), (S10, 96), (S11, 104)]"

lemma swtch_slots: "swtch_save = map (\<lambda>(r, k). SD r k A0) context_slots" "swtch_load = map (\<lambda>(r, k). LD r k A1) context_slots"
  by (simp_all add: swtch_save_def swtch_load_def context_slots_def)

lemma context_slots_ok: "b + 112 \<le> 4096 \<Longrightarrow> slots_ok b context_slots" "distinct (map fst context_slots)"
  by (simp_all add: slots_ok_def context_slots_def)

definition callee_saved :: "reg set" where
  "callee_saved = fst ` set context_slots"

lemma A_not_saved: "A0 \<notin> callee_saved" "A1 \<notin> callee_saved" "A0 \<notin> fst ` set context_slots" "A1 \<notin> fst ` set context_slots"
  by (simp_all add: callee_saved_def context_slots_def)

text \<open>The two contexts of a switch: \<open>ctx P m at a p\<close> says that the 112 bytes at the address \<open>a\<close> are those at \<open>p\<close> of physical
  memory, in one of the pages \<open>P\<close>.\<close>

definition ctx :: "u64 set \<Rightarrow> memory \<Rightarrow> u64 \<Rightarrow> u64 \<Rightarrow> u64 \<Rightarrow> bool" where
  "ctx P m at a p \<longleftrightarrow> (\<exists>va pa i. window P m at va pa \<and> a = va + of_nat i \<and> p = pa + of_nat i \<and> i + 112 \<le> 4096)"

lemma ctx_upd: "ctx P m at a p \<Longrightarrow> outside P m m' \<Longrightarrow> ctx P m' at a p"
  unfolding ctx_def using window_upd by blast

lemma ctx_save: "ctx P m at a p \<Longrightarrow> outside P m (save_regs p context_slots v m)"
  unfolding ctx_def using save_regs_outside [OF context_slots_ok(1) window_in] by blast

lemma ctx_saved: "ctx P m at a p \<Longrightarrow> (r, k) \<in> set context_slots \<Longrightarrow> load64 (save_regs p context_slots v m) (p + of_nat k) = v r"
  unfolding ctx_def using save_regs_at [OF context_slots_ok(1)] by blast

lemma swtch_ok:
  assumes a: "ctx P (amem s) (acsr s Satp) (xr s A0) p" and b: "ctx P (amem s) (acsr s Satp) (xr s A1) q"
  shows "\<exists>t. exec swtch s = Some t \<and> amem t = save_regs p context_slots (xr s) (amem s) \<and>
    xr t = load_regs q context_slots (amem t) (xr s) \<and> apc t = xr t RA \<and> acsr t = acsr s"
proof -
  let ?m = "save_regs p context_slots (xr s) (amem s)"
  let ?s = "s\<lparr>amem := ?m\<rparr>"
  have "exec swtch_save s = Some ?s"
    unfolding swtch_slots using a exec_save [OF _ context_slots_ok(1)] unfolding ctx_def by blast
  moreover have "exec swtch_load ?s = Some (?s\<lparr>xr := load_regs q context_slots (amem ?s) (xr ?s)\<rparr>)"
  proof -
    obtain vb pb j where w: "window P ?m (acsr s Satp) vb pb" "xr s A1 = vb + of_nat j" "q = pb + of_nat j" "j + 112 \<le> 4096"
      using ctx_upd [OF b ctx_save [OF a]] unfolding ctx_def by blast
    show ?thesis unfolding swtch_slots w(3)
      by (rule exec_load [of P _ vb]) (use w A_not_saved context_slots_ok(2) context_slots_ok(1) [OF w(4)] in \<open>auto simp: slots_ok_def\<close>)
  qed
  ultimately show ?thesis by (simp add: swtch_def exec_append)
qed

lemma load_regs_at: "distinct (map fst xs) \<Longrightarrow> (r, k) \<in> set xs \<Longrightarrow> load_regs a xs m v r = load64 m (a + of_nat k)"
  by (simp add: load_regs_def)

lemma load_regs_other: "r \<notin> fst ` set xs \<Longrightarrow> load_regs a xs m v r = v r"
proof -
  assume "r \<notin> fst ` set xs"
  then have "map_of xs r = None" by (simp add: map_of_eq_None_iff)
  then show ?thesis by (simp add: load_regs_def)
qed

section \<open>Traps\<close>

definition caller_slots :: "(reg \<times> nat) list" where
  "caller_slots = [(RA, 0), (GP, 16), (T0, 32), (T1, 40), (T2, 48), (A0, 72), (A1, 80), (A2, 88), (A3, 96), (A4, 104),
     (A5, 112), (A6, 120), (A7, 128), (T3, 216), (T4, 224), (T5, 232), (T6, 240)]"

definition kvec_slots :: "(reg \<times> nat) list" where
  "kvec_slots = [(RA, 0), (GP, 16), (TP, 24)] @ drop 2 caller_slots"

lemma kernelvec_slots:
  "kernelvec_save = map (\<lambda>(r, k). SD r k SP) kvec_slots" "kernelvec_load = map (\<lambda>(r, k). LD r k SP) caller_slots"
  by (simp_all add: kernelvec_save_def kernelvec_load_def caller_slots_def kvec_slots_def)

lemma kvec_slots_ok: "b + 256 \<le> 4096 \<Longrightarrow> slots_ok b kvec_slots" "b + 256 \<le> 4096 \<Longrightarrow> slots_ok b caller_slots"
  "distinct (map fst caller_slots)" "set caller_slots \<subseteq> set kvec_slots"
  by (simp_all add: slots_ok_def kvec_slots_def caller_slots_def)

definition frame_slots :: "(reg \<times> nat) list" where
  "frame_slots = [(RA, 40), (SP, 48), (GP, 56), (TP, 64), (T0, 72), (T1, 80), (T2, 88), (S0, 96), (S1, 104), (A1, 120),
     (A2, 128), (A3, 136), (A4, 144), (A5, 152), (A6, 160), (A7, 168), (S2, 176), (S3, 184), (S4, 192), (S5, 200),
     (S6, 208), (S7, 216), (S8, 224), (S9, 232), (S10, 240), (S11, 248), (T3, 256), (T4, 264), (T5, 272), (T6, 280)]"

lemma uservec_slots:
  "uservec_save = map (\<lambda>(r, k). SD r k A0) frame_slots" "userret_load = map (\<lambda>(r, k). LD r k A0) frame_slots"
  by (simp_all add: uservec_save_def userret_load_def frame_slots_def)

lemma frame_slots_ok: "slots_ok 0 frame_slots" "slots_ok 0 (frame_slots @ [(A0, 112)])" "distinct (map fst frame_slots)"
  "A0 \<notin> fst ` set frame_slots" "\<forall>(r, k)\<in>set frame_slots. k + 8 \<le> 4096" "\<forall>(r, k)\<in>set frame_slots. 40 \<le> k"
  by (simp_all add: slots_ok_def frame_slots_def)

lemma all_regs: "r = A0 \<or> r \<in> fst ` set frame_slots"
  by (cases r) (simp_all add: frame_slots_def)


text \<open>A page that the table maps for the kernel, and that is not part of the table, is such a window.\<close>

lemma PGROUNDDOWN_bits: "PGROUNDDOWN va = push_bit 12 (drop_bit 12 va)"
  by (simp only: PGROUNDDOWN_def and_not_mask12 [symmetric] mask12_eq [symmetric]) simp

lemma PX_PGROUNDDOWN: "PX l (PGROUNDDOWN va) = PX l va"
proof -
  have "unat (PGROUNDDOWN va) div 4096 = unat va div 4096" by (simp add: unat_PGROUNDDOWN)
  then have "drop_bit 12 (PGROUNDDOWN va) = drop_bit 12 va"
    by (simp add: word_unat_eq_iff drop_bit_eq_div unat_div_distrib)
  moreover have "PX l y = drop_bit (9 * l) (drop_bit 12 y) AND 511" for y
    unfolding PX_def PXSHIFT_def drop_bit_drop_bit by (subst add.commute) (rule refl)
  ultimately show ?thesis by (simp only:)
qed

lemma ent_PGROUNDDOWN: "ent m pt (PGROUNDDOWN va) = ent m pt va"
proof -
  have "agree 3 (PGROUNDDOWN va) va" by (simp add: agree_def PX_PGROUNDDOWN)
  then have "node m pt (PGROUNDDOWN va) 2 = node m pt va 2" by (intro node_agree) (auto intro: agree_mono)
  then show ?thesis by (simp add: ent_def pte_at_def PX_PGROUNDDOWN cong: option.case_cong)
qed

lemma satp_table:
  assumes "aligned pt"
  shows "push_bit 12 (MAKE_SATP pt) = pt"
proof -
  have "push_bit 12 (push_bit 60 8 :: u64) = 0" by (simp add: word_uint_eq_iff)
  moreover have "push_bit 12 (drop_bit 12 pt) = pt" using PGROUNDDOWN_aligned [OF assms] unfolding PGROUNDDOWN_bits .
  ultimately show ?thesis by (simp only: MAKE_SATP_def push_bit_or or.left_neutral)
qed

lemma satp_on:
  assumes "aligned pt" "pt \<noteq> 0"
  shows "MAKE_SATP pt \<noteq> 0"
  using satp_table [OF assms(1)] assms(2) push_bit_of_0 by metis

lemma window_mapped:
  assumes pt: "pt_ok xs m pt" and va: "aligned va" "va < MAXVA"
    and e: "ent m pt va AND PTE_V \<noteq> 0" "ent m pt va AND PTE_U = 0" "ent m pt va AND PTE_R \<noteq> 0" "ent m pt va AND PTE_W \<noteq> 0"
    and pa: "PTE2PA (ent m pt va) \<in> P" "\<forall>q\<in>P. aligned q \<and> q \<notin> nodes m pt"
  shows "window P m (MAKE_SATP pt) va (PTE2PA (ent m pt va))"
  unfolding window_def
proof (intro conjI allI impI pa(1))
  fix m' i wr
  let ?pa = "PTE2PA (ent m pt va)"
  assume m': "outside P m m'" and i: "(i :: nat) < 4096"
  have al: "aligned q" if "q \<in> nodes m pt" for q using pt_ok_nodes [OF pt that] by simp
  have "same_on (nodes m pt) m m'"
    unfolding same_on_def
  proof (intro ballI allI impI)
    fix q x
    assume q: "q \<in> nodes m pt" "in_page q x"
    have "\<not> in_page p x" if "p \<in> P" for p using pa(2) that q al [OF q(1)] pages_disjoint [of p q x] by blast
    then show "m x = m' x" using m' by (simp add: outside_def)
  qed
  then have ent': "ent m' pt x = ent m pt x" for x by (rule ent_same)
  have down: "PGROUNDDOWN (va + of_nat i) = va" using in_page_aligned [OF va(1)] in_page_offset [OF i] by blast
  have ei: "ent m' pt (va + of_nat i) = ent m pt va" using ent_PGROUNDDOWN [of m pt "va + of_nat i"] ent' down by simp
  have lt: "va + of_nat i < MAXVA"
  proof -
    have "unat va mod 4096 = 0" "unat va < 274877906944" using va by (simp_all add: aligned_unat word_less_nat_alt)
    moreover from this(1) obtain q where "unat va = 4096 * q" by (metis dvd_def mod_0_imp_dvd)
    ultimately have "unat va + 4096 \<le> 274877906944" by simp
    then show ?thesis using i by (simp add: word_less_nat_alt unat_add_of_nat)
  qed
  have root: "aligned pt" "pt \<noteq> 0" using pt_ok_nodes [OF pt root_in_nodes] by simp_all
  show "translate m' (MAKE_SATP pt) (va + of_nat i) wr = Some (?pa + of_nat i)"
    unfolding translate_def satp_table [OF root(1)] ei down Let_def
    using satp_on [OF root] lt e by (simp add: not_le)
qed


text \<open>Where \<open>struct trapframe\<close> has the registers.\<close>

fun tf_off :: "reg \<Rightarrow> nat" where
  "tf_off RA = 40" | "tf_off SP = 48" | "tf_off GP = 56" | "tf_off TP = 64" | "tf_off T0 = 72" | "tf_off T1 = 80"
| "tf_off T2 = 88" | "tf_off S0 = 96" | "tf_off S1 = 104" | "tf_off A0 = 112" | "tf_off A1 = 120" | "tf_off A2 = 128"
| "tf_off A3 = 136" | "tf_off A4 = 144" | "tf_off A5 = 152" | "tf_off A6 = 160" | "tf_off A7 = 168" | "tf_off S2 = 176"
| "tf_off S3 = 184" | "tf_off S4 = 192" | "tf_off S5 = 200" | "tf_off S6 = 208" | "tf_off S7 = 216" | "tf_off S8 = 224"
| "tf_off S9 = 232" | "tf_off S10 = 240" | "tf_off S11 = 248" | "tf_off T3 = 256" | "tf_off T4 = 264" | "tf_off T5 = 272"
| "tf_off T6 = 280"

lemma frame_slots_off: "r \<noteq> A0 \<Longrightarrow> (r, tf_off r) \<in> set frame_slots"
  by (cases r) (simp_all add: frame_slots_def)

lemma exec_LI: "exec (LI r v # is) s = exec is (set_xr r v s)"
  by simp

lemma uservec_ok:
  assumes w: "window P (amem s) (acsr s Satp) TRAPFRAME tf"
  shows "\<exists>t. exec (uservec link) s = Some t \<and> amem t = save_regs tf (frame_slots @ [(A0, 112)]) (xr s) (amem s) \<and>
    xr t SP = load64 (amem s) (tf + 8) \<and> xr t TP = load64 (amem s) (tf + 32) \<and> acsr t Satp = load64 (amem s) tf \<and>
    apc t = load64 (amem s) (tf + 16) \<and> xr t RA = link"
proof -
  let ?a = "set_xr A0 TRAPFRAME (s\<lparr>acsr := (acsr s)(Sscratch := xr s A0)\<rparr>)"
  let ?m = "save_regs tf frame_slots (xr s) (amem s)"
  let ?b = "?a\<lparr>amem := ?m\<rparr>"
  let ?m' = "save_regs tf (frame_slots @ [(A0, 112)]) (xr s) (amem s)"
  have ns: "save_regs tf frame_slots (xr ?a) (amem ?a) = ?m"
  proof -
    have "fold (\<lambda>(r, k) m. store64 m (tf + of_nat k) (xr ?a r)) xs n = fold (\<lambda>(r, k) m. store64 m (tf + of_nat k) (xr s r)) xs n"
      if "A0 \<notin> fst ` set xs" for xs n
      using that by (induction xs arbitrary: n) auto
    then show ?thesis using frame_slots_ok(4) by (simp add: save_regs_def)
  qed
  have save: "exec uservec_save ?a = Some ?b"
    unfolding uservec_slots using exec_save [of P ?a TRAPFRAME tf 0 frame_slots A0] w frame_slots_ok(1) ns by simp
  have page: "outside P (amem s) ?m" "outside P (amem s) ?m'"
    using save_regs_outside [OF frame_slots_ok(1) window_in [OF w]] save_regs_outside [OF frame_slots_ok(2) window_in [OF w]]
    by simp_all
  have tr: "translate ?m (acsr s Satp) (TRAPFRAME + 112) True = Some (tf + 112)"
    "translate ?m' (acsr s Satp) (TRAPFRAME + of_nat k) False = Some (tf + of_nat k)" if "k < 4096" for k
    using window_at [OF w page(1), of 112 True] window_at [OF w page(2) that, of False] by simp_all
  have keep: "load64 ?m' (tf + of_nat k) = load64 (amem s) (tf + of_nat k)" if "k \<le> 32" for k
    using save_regs_apart [OF frame_slots_ok(2), of k tf] that frame_slots_ok(6) by fastforce
  have last: "store64 ?m (tf + 112) (xr s A0) = ?m'" by (simp add: save_regs_def)
  show ?thesis
    unfolding uservec_def exec_append
    using save tr(1) [of 0] tr(2) [of 0] tr(2) [of 8] tr(2) [of 16] tr(2) [of 32] keep [of 0] keep [of 8] keep [of 16] keep [of 32] last
    by simp
qed

lemma userret_ok:
  assumes w: "window P (amem s) (xr s A0) TRAPFRAME tf"
  shows "\<exists>t. exec userret s = Some t \<and> amem t = amem s \<and> (\<forall>r. xr t r = load64 (amem s) (tf + of_nat (tf_off r))) \<and>
    acsr t Satp = xr s A0 \<and> apc t = acsr s Sepc"
proof -
  let ?a = "set_xr A0 TRAPFRAME (s\<lparr>acsr := (acsr s)(Satp := xr s A0)\<rparr>)"
  let ?r = "load_regs tf frame_slots (amem s) (xr ?a)"
  let ?b = "?a\<lparr>xr := ?r\<rparr>"
  have load: "exec userret_load ?a = Some ?b"
    unfolding uservec_slots using exec_load [of P ?a TRAPFRAME tf frame_slots 0 A0] w frame_slots_ok by simp
  have a0: "?r A0 = TRAPFRAME" using load_regs_other [OF frame_slots_ok(4)] by simp
  have tr: "translate (amem s) (xr s A0) (TRAPFRAME + 112) False = Some (tf + 112)"
    using window_at [OF w outside_refl, of 112 False] by simp
  have "?r r = load64 (amem s) (tf + of_nat (tf_off r))" if "r \<noteq> A0" for r
    using load_regs_at [OF frame_slots_ok(3) frame_slots_off [OF that]] .
  then show ?thesis unfolding userret_def exec_append using load a0 tr by simp
qed


section \<open>Properties\<close>

text \<open>C18. The user's registers survive a trap.  \<open>uservec\<close> stores each of them at its place in \<open>struct trapframe\<close>, takes the kernel's
  stack pointer, hart id, page table and trap handler from there and changes no other memory; \<open>userret\<close>, entered
  with the user's page table in \<open>a0\<close> and a trapframe in which the kernel has changed at most the saved \<open>a0\<close>, brings
  all of them back, and \<open>a0\<close> is what the kernel has stored.\<close>

theorem user_registers_survive:
  assumes "window P (amem s) (acsr s Satp) TRAPFRAME tf"
  shows "\<exists>t. exec (uservec link) s = Some t \<and> (\<forall>r. load64 (amem t) (tf + of_nat (tf_off r)) = xr s r) \<and>
    xr t SP = load64 (amem s) (tf + 8) \<and> xr t TP = load64 (amem s) (tf + 32) \<and> acsr t Satp = load64 (amem s) tf \<and>
    apc t = load64 (amem s) (tf + 16) \<and> xr t RA = link \<and> (\<forall>x. \<not> in_page tf x \<longrightarrow> amem t x = amem s x) \<and>
    (\<forall>u. window P (amem u) (xr u A0) TRAPFRAME tf \<and>
         (\<forall>r. r \<noteq> A0 \<longrightarrow> load64 (amem u) (tf + of_nat (tf_off r)) = load64 (amem t) (tf + of_nat (tf_off r))) \<longrightarrow>
       (\<exists>v. exec userret u = Some v \<and> xr v = (xr s)(A0 := load64 (amem u) (tf + of_nat (tf_off A0))) \<and>
         acsr v Satp = xr u A0 \<and> apc v = acsr u Sepc \<and> amem v = amem u))"
proof -
  obtain t where t: "exec (uservec link) s = Some t" "amem t = save_regs tf (frame_slots @ [(A0, 112)]) (xr s) (amem s)"
    "xr t SP = load64 (amem s) (tf + 8)" "xr t TP = load64 (amem s) (tf + 32)" "acsr t Satp = load64 (amem s) tf"
    "apc t = load64 (amem s) (tf + 16)" "xr t RA = link"
    using uservec_ok [OF assms] by blast
  have at: "load64 (amem t) (tf + of_nat (tf_off r)) = xr s r" for r
    unfolding t(2) using save_regs_at [OF frame_slots_ok(2), of r "tf_off r" tf] frame_slots_off [of r] by (cases "r = A0") auto
  have page: "\<forall>x. \<not> in_page tf x \<longrightarrow> amem t x = amem s x"
    unfolding t(2) using save_regs_page [OF frame_slots_ok(2)] by simp
  have "\<exists>v. exec userret u = Some v \<and> xr v = (xr s)(A0 := load64 (amem u) (tf + of_nat (tf_off A0))) \<and>
      acsr v Satp = xr u A0 \<and> apc v = acsr u Sepc \<and> amem v = amem u"
    if u: "window P (amem u) (xr u A0) TRAPFRAME tf"
      "\<forall>r. r \<noteq> A0 \<longrightarrow> load64 (amem u) (tf + of_nat (tf_off r)) = load64 (amem t) (tf + of_nat (tf_off r))" for u
  proof -
    obtain v where v: "exec userret u = Some v" "amem v = amem u" "\<And>r. xr v r = load64 (amem u) (tf + of_nat (tf_off r))"
      "acsr v Satp = xr u A0" "apc v = acsr u Sepc"
      using userret_ok [OF u(1)] by blast
    have "xr v = (xr s)(A0 := load64 (amem u) (tf + of_nat (tf_off A0)))"
      using v(3) u(2) at by (intro ext) (simp add: fun_upd_apply)
    then show ?thesis using v by blast
  qed
  then show ?thesis using t at page by (intro exI [of _ t]) simp
qed

lemma window_bare: "window UNIV m 0 va va"
  by (simp add: window_def translate_def)

definition asm_boot :: asm_state where
  "asm_boot = \<lparr>xr = (\<lambda>_. 7), acsr = (\<lambda>_. 0), amem = (\<lambda>_. 0), apc = 0\<rparr>"

theorem user_registers_survive_witness:
  "\<exists>t. exec (uservec 0) asm_boot = Some t \<and> load64 (amem t) (TRAPFRAME + 112) = 7 \<and>
    (\<exists>v. exec userret (t\<lparr>xr := (xr t)(A0 := 0)\<rparr>) = Some v \<and> xr v = (\<lambda>_. 7))"
proof -
  have w: "window UNIV m 0 TRAPFRAME TRAPFRAME" for m by (rule window_bare)
  have "window UNIV (amem asm_boot) (acsr asm_boot Satp) TRAPFRAME TRAPFRAME" using w by (simp add: asm_boot_def)
  then obtain t where t: "exec (uservec 0) asm_boot = Some t"
      "\<And>r. load64 (amem t) (TRAPFRAME + of_nat (tf_off r)) = xr asm_boot r"
      "\<And>u. window UNIV (amem u) (xr u A0) TRAPFRAME TRAPFRAME \<Longrightarrow>
        \<forall>r. r \<noteq> A0 \<longrightarrow> load64 (amem u) (TRAPFRAME + of_nat (tf_off r)) = load64 (amem t) (TRAPFRAME + of_nat (tf_off r)) \<Longrightarrow>
        \<exists>v. exec userret u = Some v \<and> xr v = (xr asm_boot)(A0 := load64 (amem u) (TRAPFRAME + of_nat (tf_off A0)))"
    using user_registers_survive [of UNIV asm_boot TRAPFRAME 0] by blast
  have seven: "xr asm_boot = (\<lambda>_. 7)" by (simp add: asm_boot_def)
  obtain v where v: "exec userret (t\<lparr>xr := (xr t)(A0 := 0)\<rparr>) = Some v"
      "xr v = (xr asm_boot)(A0 := load64 (amem t) (TRAPFRAME + of_nat (tf_off A0)))"
    using t(3) [of "t\<lparr>xr := (xr t)(A0 := 0)\<rparr>"] w by auto
  have "load64 (amem t) (TRAPFRAME + 112) = 7" using t(2) [of A0] seven by simp
  then show ?thesis using t(1) v seven by auto
qed


text \<open>Two contexts that do not overlap.\<close>

definition apart :: "u64 \<Rightarrow> u64 \<Rightarrow> bool" where
  "apart p q \<longleftrightarrow> 112 \<le> unat (p - q) \<and> 112 \<le> unat (q - p)"

lemma apart_byte:
  assumes "apart p q" "a < 112" "b \<le> 104"
  shows "8 \<le> unat (p + of_nat a - (q + of_nat b))"
proof -
  have "unat (q - p) = 2 ^ 64 - unat (p - q)"
  proof -
    have "p \<noteq> q" using assms(1) by (auto simp: apart_def)
    then have "unat p \<noteq> unat q" by (simp only: word_unat_eq_iff [symmetric] not_False_eq_True)
    then show ?thesis using unat_less_2p64 [of p] unat_less_2p64 [of q] by (auto simp: unat_sub_if')
  qed
  then have d: "112 \<le> unat (p - q)" "unat (p - q) + 112 \<le> 2 ^ 64" using assms(1) by (auto simp: apart_def)
  have e: "p + of_nat a - (q + of_nat b) = (p - q - of_nat b) + of_nat a" by simp
  have "unat (p - q - of_nat b) = unat (p - q) - b"
    using d assms(3) by (subst unat_sub) (simp_all add: word_le_nat_alt unat_of_nat take_bit_nat_eq_self)
  then show ?thesis unfolding e using d assms by (subst unat_add_of_nat) simp_all
qed

lemma context_slot_bound: "(r, k) \<in> set context_slots \<Longrightarrow> k \<le> 104"
  by (auto simp: context_slots_def)

lemma save_apart:
  assumes "apart p q" "(r, k) \<in> set context_slots"
  shows "load64 (save_regs q context_slots v m) (p + of_nat k) = load64 m (p + of_nat k)"
proof (rule load64_cong)
  fix j :: nat
  assume "j < 8"
  then have j: "k + j < 112" using context_slot_bound [OF assms(2)] by simp
  have "fold (\<lambda>(r, k) m. store64 m (q + of_nat k) (v r)) xs n (p + of_nat (k + j)) = n (p + of_nat (k + j))"
    if "\<forall>(r, k)\<in>set xs. k \<le> 104" for xs n
    using that apart_byte [OF assms(1) j] by (induction xs arbitrary: n) (auto simp: store64_other)
  then have "save_regs q context_slots v m (p + of_nat (k + j)) = m (p + of_nat (k + j))"
    unfolding save_regs_def using context_slot_bound by blast
  then show "save_regs q context_slots v m (p + of_nat k + of_nat j) = m (p + of_nat k + of_nat j)" by (simp add: add.assoc)
qed

text \<open>C25. A context switch is a round trip.  \<open>swtch\<close> goes on in the new context; when a later \<open>swtch\<close>, away from any context that
  does not overlap the old one, names the old context and its words are unchanged, it returns to the caller of the
  first \<open>swtch\<close> with the return address, the stack pointer and the callee-saved registers it had.\<close>

theorem swtch_returns:
  assumes "ctx P (amem s) (acsr s Satp) (xr s A0) p" "ctx P (amem s) (acsr s Satp) (xr s A1) q"
  shows "\<exists>t. exec swtch s = Some t \<and> (\<forall>(r, k)\<in>set context_slots. xr t r = load64 (amem t) (q + of_nat k)) \<and> apc t = xr t RA \<and>
    (\<forall>u o'. ctx P (amem u) (acsr u Satp) (xr u A0) o' \<and> ctx P (amem u) (acsr u Satp) (xr u A1) p \<and> apart p o' \<and>
         (\<forall>(r, k)\<in>set context_slots. load64 (amem u) (p + of_nat k) = load64 (amem t) (p + of_nat k)) \<longrightarrow>
       (\<exists>v. exec swtch u = Some v \<and> (\<forall>r\<in>callee_saved. xr v r = xr s r) \<and> apc v = xr s RA))"
proof -
  obtain t where t: "exec swtch s = Some t" "amem t = save_regs p context_slots (xr s) (amem s)"
    "xr t = load_regs q context_slots (amem t) (xr s)" "apc t = xr t RA"
    using swtch_ok [OF assms] by blast
  have new: "\<forall>(r, k)\<in>set context_slots. xr t r = load64 (amem t) (q + of_nat k)"
    unfolding t(3) using load_regs_at [OF context_slots_ok(2)] by blast
  have "\<exists>v. exec swtch u = Some v \<and> (\<forall>r\<in>callee_saved. xr v r = xr s r) \<and> apc v = xr s RA"
    if u: "ctx P (amem u) (acsr u Satp) (xr u A0) o'" "ctx P (amem u) (acsr u Satp) (xr u A1) p" "apart p o'"
      and same: "\<forall>(r, k)\<in>set context_slots. load64 (amem u) (p + of_nat k) = load64 (amem t) (p + of_nat k)" for u o'
  proof -
    obtain v where v: "exec swtch u = Some v" "amem v = save_regs o' context_slots (xr u) (amem u)"
      "xr v = load_regs p context_slots (amem v) (xr u)" "apc v = xr v RA"
      using swtch_ok [OF u(1,2)] by blast
    have "xr v r = xr s r" if r: "(r, k) \<in> set context_slots" for r k
    proof -
      have "xr v r = load64 (amem v) (p + of_nat k)" unfolding v(3) by (rule load_regs_at [OF context_slots_ok(2) r])
      also have "\<dots> = load64 (amem u) (p + of_nat k)" unfolding v(2) by (rule save_apart [OF u(3) r])
      also have "\<dots> = xr s r" using same r ctx_saved [OF assms(1) r] t(2) by auto
      finally show ?thesis .
    qed
    then have all: "\<forall>r\<in>callee_saved. xr v r = xr s r" unfolding callee_saved_def by auto
    moreover have "RA \<in> callee_saved" by (simp add: callee_saved_def context_slots_def)
    ultimately show ?thesis using v(1,4) by auto
  qed
  then show ?thesis using t(1,4) new by blast
qed

definition asm_switch :: asm_state where
  "asm_switch = asm_boot\<lparr>xr := (\<lambda>_. 7)(A0 := 0x80020000, A1 := 0x80021000)\<rparr>"

lemma ctx_bare: "aligned a \<Longrightarrow> ctx UNIV m 0 a a"
  unfolding ctx_def using window_bare [of m a] by (intro exI [of _ a] exI [of _ 0]) simp

theorem swtch_returns_witness:
  "\<exists>t. exec swtch asm_switch = Some t \<and>
    (\<exists>v. exec swtch (asm_switch\<lparr>amem := amem t, xr := (\<lambda>_. 1)(A0 := 0x80021000, A1 := 0x80020000)\<rparr>) = Some v \<and>
      xr v SP = 7 \<and> apc v = 7)"
proof -
  have c: "ctx UNIV m 0 0x80020000 0x80020000" "ctx UNIV m 0 0x80021000 0x80021000" for m
    by (rule ctx_bare, simp add: aligned_def)+
  have sel: "xr asm_switch A0 = 0x80020000" "xr asm_switch A1 = 0x80021000" "xr asm_switch SP = 7"
    "xr asm_switch RA = 7" "acsr asm_switch = (\<lambda>_. 0)"
    by (simp_all add: asm_switch_def asm_boot_def)
  have "ctx UNIV (amem asm_switch) (acsr asm_switch Satp) (xr asm_switch A0) 0x80020000"
    "ctx UNIV (amem asm_switch) (acsr asm_switch Satp) (xr asm_switch A1) 0x80021000" using c sel by simp_all
  from swtch_returns [OF this] obtain t where t: "exec swtch asm_switch = Some t"
    "\<And>u o'. ctx UNIV (amem u) (acsr u Satp) (xr u A0) o' \<Longrightarrow> ctx UNIV (amem u) (acsr u Satp) (xr u A1) 0x80020000 \<Longrightarrow>
       apart 0x80020000 o' \<Longrightarrow> \<forall>(r, k)\<in>set context_slots. load64 (amem u) (0x80020000 + of_nat k) = load64 (amem t) (0x80020000 + of_nat k) \<Longrightarrow>
       \<exists>v. exec swtch u = Some v \<and> (\<forall>r\<in>callee_saved. xr v r = xr asm_switch r) \<and> apc v = xr asm_switch RA" by blast
  let ?u = "asm_switch\<lparr>amem := amem t, xr := (\<lambda>_. 1)(A0 := 0x80021000, A1 := 0x80020000)\<rparr>"
  have "apart 0x80020000 0x80021000" by (simp add: apart_def)
  moreover have "SP \<in> callee_saved" by (simp add: callee_saved_def context_slots_def)
  ultimately obtain v where "exec swtch ?u = Some v" "xr v SP = 7" "apc v = 7"
    using t(2) [of ?u "0x80021000"] c sel by auto
  then show ?thesis using t(1) by blast
qed

text \<open>What a C function promises its caller: the stack pointer and the callee-saved registers are as before, and so is the
  caller's frame, the 256 bytes above the stack pointer.\<close>

definition c_function :: "u64 set \<Rightarrow> u64 \<Rightarrow> u64 \<Rightarrow> nat \<Rightarrow> (asm_state \<Rightarrow> asm_state) \<Rightarrow> bool" where
  "c_function P va pa b f \<longleftrightarrow> (\<forall>t. window P (amem t) (acsr t Satp) va pa \<longrightarrow> xr t SP = va + of_nat b \<longrightarrow>
     (\<forall>r\<in>callee_saved - {RA}. xr (f t) r = xr t r) \<and> window P (amem (f t)) (acsr (f t) Satp) va pa \<and>
     (\<forall>k\<le>248. load64 (amem (f t)) (pa + of_nat b + of_nat k) = load64 (amem t) (pa + of_nat b + of_nat k)))"

lemma SP_saved: "SP \<in> callee_saved - {RA}" "SP \<notin> fst ` set caller_slots" "SP \<notin> fst ` set kvec_slots"
  by (simp_all add: callee_saved_def context_slots_def caller_slots_def kvec_slots_def)

lemma caller_or_callee: "r \<noteq> TP \<Longrightarrow> r \<in> fst ` set caller_slots \<or> r \<in> callee_saved - {RA}"
  by (cases r) (simp_all add: caller_slots_def callee_saved_def context_slots_def)

lemma callee_not_caller: "r \<in> callee_saved - {RA} \<Longrightarrow> r \<notin> fst ` set caller_slots"
  by (auto simp: caller_slots_def callee_saved_def context_slots_def)

lemma caller_slots_bound: "(r, k) \<in> set caller_slots \<Longrightarrow> k \<le> 248 \<and> r \<noteq> SP"
  by (auto simp: caller_slots_def)

text \<open>C27. An interrupt in the kernel is invisible to the code it interrupts: \<open>kernelvec\<close> restores every register but \<open>tp\<close>, given a
  handler that keeps to the C calling convention, and goes where the handler has set \<open>sepc\<close> to; the handler finds the
  registers of the interrupted code, on a stack 256 bytes lower.\<close>

theorem kernelvec_transparent:
  assumes "window P (amem s) (acsr s Satp) va pa" "xr s SP = va + of_nat (b + 256)" "b + 256 \<le> 4096"
    and "c_function P va pa b kerneltrap"
  shows "\<exists>t u. kernelvec kerneltrap s = Some u \<and> (\<forall>r. r \<noteq> TP \<longrightarrow> xr u r = xr s r) \<and> apc u = acsr (kerneltrap t) Sepc \<and>
    xr t = (xr s)(SP := xr s SP - 256) \<and> acsr t = acsr s"
proof -
  let ?a = "set_xr SP (va + of_nat b) s"
  let ?t = "?a\<lparr>amem := save_regs (pa + of_nat b) kvec_slots (xr ?a) (amem s)\<rparr>"
  let ?f = "kerneltrap ?t"
  have sp: "xr s SP + of_int (- 256) = va + of_nat b" using assms(2) by simp
  have save: "exec (ADDI SP SP (- 256) # kernelvec_save) s = Some ?t"
    unfolding kernelvec_slots using exec_save [of P ?a va pa b kvec_slots SP] assms kvec_slots_ok(1) sp by simp
  have "window P (amem ?t) (acsr ?t Satp) va pa"
    using window_upd [OF assms(1) save_regs_outside [OF kvec_slots_ok(1) window_in [OF assms(1)]]] assms(3) by simp
  then have f: "\<And>r. r \<in> callee_saved - {RA} \<Longrightarrow> xr ?f r = xr ?t r" "window P (amem ?f) (acsr ?f Satp) va pa"
      "\<And>k. k \<le> 248 \<Longrightarrow> load64 (amem ?f) (pa + of_nat b + of_nat k) = load64 (amem ?t) (pa + of_nat b + of_nat k)"
    using assms(4) unfolding c_function_def by auto
  have fsp: "xr ?f SP = va + of_nat b" using f(1) [OF SP_saved(1)] by simp
  let ?r = "load_regs (pa + of_nat b) caller_slots (amem ?f) (xr ?f)"
  have load: "exec kernelvec_load ?f = Some (?f\<lparr>xr := ?r\<rparr>)"
    unfolding kernelvec_slots
    by (rule exec_load [OF f(2)]) (use fsp SP_saved kvec_slots_ok(2) [OF assms(3)] kvec_slots_ok(3) in \<open>auto simp: slots_ok_def\<close>)
  have rsp: "?r SP = va + of_nat b" using load_regs_other [OF SP_saved(2)] fsp by simp
  have regs: "?r r = xr s r" if r: "r \<noteq> TP" "r \<noteq> SP" for r
  proof (cases "r \<in> fst ` set caller_slots")
    case True
    then obtain k where k: "(r, k) \<in> set caller_slots" by auto
    then have "?r r = load64 (amem ?f) (pa + of_nat b + of_nat k)" by (rule load_regs_at [OF kvec_slots_ok(3)])
    also have "\<dots> = load64 (amem ?t) (pa + of_nat b + of_nat k)" using f(3) caller_slots_bound [OF k] by blast
    also have "\<dots> = xr ?a r" using save_regs_at [OF kvec_slots_ok(1) [OF assms(3)], of r k] k kvec_slots_ok(4) by auto
    finally show ?thesis using r by simp
  next
    case False
    then have "r \<in> callee_saved - {RA}" using caller_or_callee [OF r(1)] by blast
    then show ?thesis using load_regs_other [OF False] f(1) r by simp
  qed
  define u where "u = set_xr SP (va + of_nat b + 256) (?f\<lparr>xr := ?r\<rparr>)\<lparr>apc := acsr ?f Sepc\<rparr>"
  have "kernelvec kerneltrap s = Some u"
    unfolding kernelvec_def save u_def using load rsp by (simp add: exec_append)
  moreover have "xr u r = xr s r" if "r \<noteq> TP" for r
    using regs [OF that] assms(2) by (cases "r = SP") (simp_all add: u_def add.assoc)
  moreover have "apc u = acsr ?f Sepc" by (simp add: u_def)
  moreover have "xr ?t = (xr s)(SP := xr s SP - 256)" "acsr ?t = acsr s" using assms(2) by simp_all
  ultimately show ?thesis by blast
qed

theorem kernelvec_transparent_witness:
  "\<exists>u. kernelvec (\<lambda>t. t) (asm_boot\<lparr>xr := (\<lambda>_. 7)(SP := 0x80020100)\<rparr>) = Some u \<and> xr u A0 = 7 \<and> xr u SP = 0x80020100"
proof -
  let ?s = "asm_boot\<lparr>xr := (\<lambda>_. 7)(SP := 0x80020100)\<rparr>"
  have "window UNIV (amem ?s) (acsr ?s Satp) 0x80020000 0x80020000" using window_bare by (simp add: asm_boot_def)
  moreover have "c_function UNIV 0x80020000 0x80020000 0 (\<lambda>t. t)" by (simp add: c_function_def)
  ultimately obtain u where "kernelvec (\<lambda>t. t) ?s = Some u" "\<And>r. r \<noteq> TP \<Longrightarrow> xr u r = xr ?s r"
    using kernelvec_transparent [of UNIV ?s "0x80020000" "0x80020000" 0 "\<lambda>t. t"] by auto
  then show ?thesis by simp
qed

abbreviation (input) NCPU :: nat where "NCPU \<equiv> 8"

text \<open>C33. Every hart starts on a stack of its own: hart \<open>h\<close> enters \<open>start\<close> with the stack pointer at the end of the \<open>h\<close>-th 4096
  bytes of \<open>stack0\<close>, inside the array for every hart below \<open>NCPU\<close>.\<close>

theorem entry_stack:
  assumes "unat stack0 + 4096 * NCPU < 2 ^ 64" "unat (acsr s Mhartid) < NCPU"
  shows "\<exists>t. exec (entry_code stack0 start spin) s = Some t \<and> apc t = start \<and>
    unat (xr t SP) = unat stack0 + 4096 * (unat (acsr s Mhartid) + 1) \<and> unat (xr t SP) \<le> unat stack0 + 4096 * NCPU"
proof -
  let ?h = "acsr s Mhartid"
  have "of_nat (4096 * (unat ?h + 1)) = (4096 :: u64) * (?h + 1)" by simp
  moreover have "unat stack0 + 4096 * (unat ?h + 1) < 2 ^ 64" using assms by simp
  ultimately have "unat (stack0 + 4096 * (?h + 1)) = unat stack0 + 4096 * (unat ?h + 1)"
    using unat_add_of_nat [of stack0 "4096 * (unat ?h + 1)"] by (simp only:)
  moreover have "\<exists>t. exec (entry_code stack0 start spin) s = Some t \<and> apc t = start \<and> xr t SP = stack0 + 4096 * (?h + 1)"
    by (simp add: entry_code_def add.commute)
  ultimately show ?thesis using assms by auto
qed

theorem entry_stack_witness:
  "\<exists>t. exec (entry_code 0x80010000 0x80000100 0x80000020) (asm_boot\<lparr>acsr := (\<lambda>_. 7)\<rparr>) = Some t \<and> xr t SP = 0x80018000"
proof -
  obtain t where "exec (entry_code 0x80010000 0x80000100 0x80000020) (asm_boot\<lparr>acsr := (\<lambda>_. 7)\<rparr>) = Some t"
      "unat (xr t SP) = unat (0x80018000 :: u64)"
    using entry_stack [of "0x80010000" "asm_boot\<lparr>acsr := (\<lambda>_. 7)\<rparr>" "0x80000100" "0x80000020"] by auto
  then show ?thesis using word_unat_eq_iff by blast
qed


end
