(* ===== verification/Process.thy ===== *)
theory Process
  imports File
begin

text \<open>
  The life of a process, from \<open>kernel/proc.c\<close>: allocation, the user address space, \<open>fork\<close>, \<open>exit\<close> and
  \<open>wait\<close>.

  \<open>kernel_state\<close> completes the state of the kernel: the tick counter, the trap registers of the hart, the
  interrupt controller, and the addresses of the kernel's entry points, which the linker chooses.

  The trapframe is the first 288 bytes of the page the process entry points to; its fields are read and
  written in memory.  A process that waits for a child sleeps (outcome \<open>Swtch\<close>) and continues in
  \<open>kwait_loop\<close>.
\<close>

section \<open>State\<close>

record kernel_state = file_state +
  ticks :: u32
  forkret_first :: bool
  started :: bool
  stvec :: u64
  sepc :: u64
  scause :: u64
  stval :: u64
  sstatus :: u64
  timer :: u64
  stimecmp :: u64
  plic :: "u64 \<Rightarrow> u32"
  plic_pending :: u32
  forkret_addr :: u64
  usertrap_addr :: u64
  kernelvec_addr :: u64
  uservec_addr :: u64
  userret_addr :: u64

text \<open>Fields of the trapframe, by offset.\<close>

abbreviation (input) TF_KERNEL_SATP :: u64 where "TF_KERNEL_SATP \<equiv> 0"
abbreviation (input) TF_KERNEL_SP :: u64 where "TF_KERNEL_SP \<equiv> 8"
abbreviation (input) TF_KERNEL_TRAP :: u64 where "TF_KERNEL_TRAP \<equiv> 16"
abbreviation (input) TF_EPC :: u64 where "TF_EPC \<equiv> 24"
abbreviation (input) TF_KERNEL_HARTID :: u64 where "TF_KERNEL_HARTID \<equiv> 32"
abbreviation (input) TF_SP :: u64 where "TF_SP \<equiv> 48"
abbreviation (input) TF_A0 :: u64 where "TF_A0 \<equiv> 112"
abbreviation (input) TF_A1 :: u64 where "TF_A1 \<equiv> 120"
abbreviation (input) TF_A7 :: u64 where "TF_A7 \<equiv> 168"
abbreviation (input) TF_SIZE :: nat where "TF_SIZE \<equiv> 288"

definition tf_get :: "nat \<Rightarrow> u64 \<Rightarrow> (u64, 'a proc_state_scheme) routine" where
  "tf_get p off =
     bind (gets (\<lambda>s. trapframe (procs s p))) (\<lambda>tf.
     if tf = 0 then undef ''trapframe'' else ldw (tf + off))"

definition tf_put :: "nat \<Rightarrow> u64 \<Rightarrow> u64 \<Rightarrow> (unit, 'a proc_state_scheme) routine" where
  "tf_put p off v =
     bind (gets (\<lambda>s. trapframe (procs s p))) (\<lambda>tf.
     if tf = 0 then undef ''trapframe'' else stw (tf + off) v)"

section \<open>Allocation\<close>

definition proc_freepagetable :: "u64 \<Rightarrow> u64 \<Rightarrow> (unit, 'a kmem_state_scheme) routine" where
  "proc_freepagetable pt nb =
     seq (uvmunmap pt TRAMPOLINE 1 False) (
     seq (uvmunmap pt TRAPFRAME 1 False) (
     uvmfree pt nb))"

definition freeproc :: "nat \<Rightarrow> (unit, 'a proc_state_scheme) routine" where
  "freeproc p =
     bind (gets (\<lambda>s. procs s p)) (\<lambda>pr.
     seq (only_if (trapframe pr \<noteq> 0) (kfree (trapframe pr))) (
     seq (upd_proc p (trapframe_update (\<lambda>_. 0))) (
     seq (only_if (pagetable pr \<noteq> 0) (proc_freepagetable (pagetable pr) (sz pr))) (
     upd_proc p (\<lambda>x. x\<lparr>pagetable := 0, sz := 0, pid := 0, parent := None, pname := (pname x)(0 := 0),
                      pchan := None, pkilled := False, xstate := 0, pstate := UNUSED\<rparr>)))))"

definition proc_pagetable :: "nat \<Rightarrow> (u64, 'a vm_state_scheme) routine" where
  "proc_pagetable p =
     bind uvmcreate (\<lambda>pt.
     if pt = 0 then ret 0 else
     bind (gets trampoline) (\<lambda>tr.
     bind (mappages pt TRAMPOLINE PGSIZE tr (PTE_R OR PTE_X)) (\<lambda>r.
     if r < 0 then seq (uvmfree pt 0) (ret 0) else
     bind (gets (\<lambda>s. trapframe (procs s p))) (\<lambda>tf.
     bind (mappages pt TRAPFRAME PGSIZE tf (PTE_R OR PTE_W)) (\<lambda>r.
     if r < 0 then seq (uvmunmap pt TRAMPOLINE 1 False) (seq (uvmfree pt 0) (ret 0))
     else ret pt)))))"

definition allocproc_fail :: "nat \<Rightarrow> (nat option, 'a proc_state_scheme) routine" where
  "allocproc_fail p = seq (freeproc p) (seq (release (ProcLock p)) (ret None))"

definition allocproc_found :: "nat \<Rightarrow> (nat option, 'a kernel_state_scheme) routine" where
  "allocproc_found p =
     bind allocpid (\<lambda>i.
     seq (upd_proc p (\<lambda>x. x\<lparr>pid := i, pstate := USED\<rparr>)) (
     bind kalloc (\<lambda>tf.
     seq (upd_proc p (trapframe_update (\<lambda>_. tf))) (
     if tf = 0 then allocproc_fail p else
     bind (proc_pagetable p) (\<lambda>pt.
     seq (upd_proc p (pagetable_update (\<lambda>_. pt))) (
     if pt = 0 then allocproc_fail p else
     bind (gets forkret_addr) (\<lambda>fr.
     seq (upd_proc p (\<lambda>x. x\<lparr>pcontext := \<lparr>ctx_ra = fr, ctx_sp = kstack x + PGSIZE, ctx_s = (\<lambda>_. 0)\<rparr>\<rparr>)) (
     ret (Some p)))))))))"

definition allocproc :: "(nat option, 'a kernel_state_scheme) routine" where
  "allocproc =
     bind (for_until [0..<NPROC] (\<lambda>p.
       seq (acquire (ProcLock p)) (
       bind (gets (\<lambda>s. pstate (procs s p) = UNUSED)) (\<lambda>unused.
       if unused then ret (Some p) else seq (release (ProcLock p)) (ret None))))) (\<lambda>r.
     case r of None \<Rightarrow> ret None | Some p \<Rightarrow> allocproc_found p)"

text \<open>The first process; a failed allocation would be followed through a null pointer.\<close>

definition userinit :: "(unit, 'a kernel_state_scheme) routine" where
  "userinit =
     bind allocproc (\<lambda>r.
     seq (modify (\<lambda>s. s\<lparr>initproc := r\<rparr>)) (
     bind (namei (str ''/'')) (\<lambda>ip.
     case r of None \<Rightarrow> undef ''userinit'' | Some p \<Rightarrow>
     seq (upd_proc p (cwd_update (\<lambda>_. ip))) (
     seq (upd_proc p (pstate_update (\<lambda>_. RUNNABLE))) (
     release (ProcLock p))))))"

definition growproc :: "int \<Rightarrow> (int, 'a proc_state_scheme) routine" where
  "growproc n =
     bind this_proc (\<lambda>p.
     bind (gets (\<lambda>s. procs s p)) (\<lambda>pr.
     if n > 0 then
       if sz pr + of_int n > TRAPFRAME then ret (- 1) else
       bind (uvmalloc (pagetable pr) (sz pr) (sz pr + of_int n) PTE_W) (\<lambda>nsz.
       if nsz = 0 then ret (- 1) else
       seq (upd_proc p (sz_update (\<lambda>_. nsz))) (ret 0))
     else if n < 0 then
       bind (uvmdealloc (pagetable pr) (sz pr) (sz pr + of_int n)) (\<lambda>nsz.
       seq (upd_proc p (sz_update (\<lambda>_. nsz))) (ret 0))
     else seq (upd_proc p (sz_update (\<lambda>_. sz pr))) (ret 0)))"

section \<open>Fork, exit, wait\<close>

definition kfork_copy :: "nat \<Rightarrow> nat \<Rightarrow> (unit, 'a kernel_state_scheme) routine" where
  "kfork_copy p np =
     bind (gets (\<lambda>s. (sz (procs s p), trapframe (procs s p), trapframe (procs s np)))) (\<lambda>(nb, ptf, ntf).
     seq (upd_proc np (sz_update (\<lambda>_. nb))) (
     seq (modify (\<lambda>s. s\<lparr>mem := mem_put (mem s) ntf (mem_get (mem s) ptf TF_SIZE)\<rparr>)) (
     seq (tf_put np TF_A0 0) (
     seq (for_each [0..<NOFILE] (\<lambda>fd.
       bind (gets (\<lambda>s. ofile (procs s p) fd)) (\<lambda>f.
       case f of None \<Rightarrow> skip | Some f \<Rightarrow>
       bind (filedup f) (\<lambda>f'. upd_proc np (\<lambda>x. x\<lparr>ofile := (ofile x)(fd := Some f')\<rparr>))))) (
     bind (gets (\<lambda>s. cwd (procs s p))) (\<lambda>d.
     case d of None \<Rightarrow> undef ''idup'' | Some d \<Rightarrow>
     bind (idup d) (\<lambda>d'.
     seq (upd_proc np (cwd_update (\<lambda>_. Some d'))) (
     bind (gets (\<lambda>s. pname (procs s p))) (\<lambda>nm.
     upd_proc np (\<lambda>x. x\<lparr>pname := safestrcpy (pname x) nm 16\<rparr>))))))))))"

definition kfork :: "(int, 'a kernel_state_scheme) routine" where
  "kfork =
     bind this_proc (\<lambda>p.
     bind allocproc (\<lambda>r.
     case r of None \<Rightarrow> ret (- 1) | Some np \<Rightarrow>
     bind (gets (\<lambda>s. (pagetable (procs s p), pagetable (procs s np), sz (procs s p)))) (\<lambda>(old, new, nb).
     bind (uvmcopy old new nb) (\<lambda>c.
     if c < 0 then seq (freeproc np) (seq (release (ProcLock np)) (ret (- 1))) else
     seq (kfork_copy p np) (
     bind (gets (\<lambda>s. pid (procs s np))) (\<lambda>i.
     seq (release (ProcLock np)) (
     seq (acquire WaitLock) (
     seq (upd_proc np (parent_update (\<lambda>_. Some p))) (
     seq (release WaitLock) (
     seq (acquire (ProcLock np)) (
     seq (upd_proc np (pstate_update (\<lambda>_. RUNNABLE))) (
     seq (release (ProcLock np)) (
     ret i)))))))))))))"

text \<open>Waking a null parent wakes nobody: no process sleeps on address 0.\<close>

definition kexit_files :: "nat \<Rightarrow> (unit, 'a file_state_scheme) routine" where
  "kexit_files p =
     for_each [0..<NOFILE] (\<lambda>fd.
       bind (gets (\<lambda>s. ofile (procs s p) fd)) (\<lambda>f.
       case f of None \<Rightarrow> skip | Some f \<Rightarrow>
       seq (fileclose f) (
       upd_proc p (\<lambda>x. x\<lparr>ofile := (ofile x)(fd := None)\<rparr>))))"

definition kexit :: "int \<Rightarrow> ('b, 'a kernel_state_scheme) routine" where
  "kexit status =
     bind this_proc (\<lambda>p.
     bind (gets initproc) (\<lambda>ini.
     if ini = Some p then panic ''init exiting'' else
     seq (kexit_files p) (
     seq begin_op (
     bind (gets (\<lambda>s. cwd (procs s p))) (\<lambda>d.
     case d of None \<Rightarrow> undef ''iput'' | Some d \<Rightarrow>
     seq (iput d) (
     seq end_op (
     seq (upd_proc p (cwd_update (\<lambda>_. None))) (
     seq (acquire WaitLock) (
     seq (reparent p) (
     bind (gets (\<lambda>s. parent (procs s p))) (\<lambda>par.
     seq (case par of None \<Rightarrow> skip | Some q \<Rightarrow> wakeup (ChanProc q)) (
     seq (acquire (ProcLock p)) (
     seq (upd_proc p (\<lambda>x. x\<lparr>xstate := status, pstate := ZOMBIE\<rparr>)) (
     seq (release WaitLock) (
     seq (sched :: (unit, 'a kernel_state_scheme) routine) (
     panic ''zombie exit''))))))))))))))))"

text \<open>The scan of the table for children: either the value \<open>kwait\<close> returns, or whether there are
  children.\<close>

definition kwait_reap :: "nat \<Rightarrow> u64 \<Rightarrow> nat \<Rightarrow> (int, 'a kernel_state_scheme) routine" where
  "kwait_reap p addr pp =
     bind (gets (\<lambda>s. (pid (procs s pp), pagetable (procs s p), xstate (procs s pp)))) (\<lambda>(i, pt, xs).
     bind (if addr = 0 then ret 0 else copyout pt addr (le_bytes 4 (of_int xs :: u32))) (\<lambda>r.
     if r < 0 then
       seq (release (ProcLock pp)) (seq (release WaitLock) (ret (- 1)))
     else
       seq (freeproc pp) (seq (release (ProcLock pp)) (seq (release WaitLock) (ret i)))))"

fun kwait_scan :: "nat \<Rightarrow> u64 \<Rightarrow> nat list \<Rightarrow> bool \<Rightarrow> (int + bool, 'a kernel_state_scheme) routine" where
  "kwait_scan p addr [] kids = ret (Inr kids)"
| "kwait_scan p addr (pp # pps) kids =
     bind (gets (\<lambda>s. parent (procs s pp) = Some p)) (\<lambda>mine.
     if \<not> mine then kwait_scan p addr pps kids else
     seq (acquire (ProcLock pp)) (
     bind (gets (\<lambda>s. pstate (procs s pp) = ZOMBIE)) (\<lambda>z.
     if z then bind (kwait_reap p addr pp) (\<lambda>v. ret (Inl v))
     else seq (release (ProcLock pp)) (kwait_scan p addr pps True))))"

definition kwait_loop :: "nat \<Rightarrow> u64 \<Rightarrow> (int, 'a kernel_state_scheme) routine" where
  "kwait_loop p addr =
     bind (kwait_scan p addr [0..<NPROC] False) (\<lambda>r.
     case r of
       Inl v \<Rightarrow> ret v
     | Inr kids \<Rightarrow>
         bind (if \<not> kids then ret True else killed p) (\<lambda>stop.
         if stop then seq (release WaitLock) (ret (- 1))
         else sleep (ChanProc p) WaitLock))"

definition kwait :: "u64 \<Rightarrow> (int, 'a kernel_state_scheme) routine" where
  "kwait addr = bind this_proc (\<lambda>p. seq (acquire WaitLock) (kwait_loop p addr))"

end
