(* ===== verification/Exec.thy ===== *)
theory Exec
  imports Process
begin

text \<open>
  \<open>kernel/exec.c\<close> and \<open>kernel/elf.h\<close>: loading a program.  The path and the arguments are lists of
  characters without the NUL; the ELF headers are decoded from the bytes read, at the offsets the C
  structures have.
\<close>

section \<open>ELF headers\<close>

definition get64 :: "block \<Rightarrow> nat \<Rightarrow> u64" where
  "get64 d k = le_word (blk_get d k 8)"

abbreviation (input) ELF_MAGIC :: u32 where "ELF_MAGIC \<equiv> 0x464C457F"
abbreviation (input) ELF_PROG_LOAD :: u32 where "ELF_PROG_LOAD \<equiv> 1"
abbreviation (input) MAXARG :: nat where "MAXARG \<equiv> 32"
abbreviation (input) USERSTACK :: u64 where "USERSTACK \<equiv> 1"

record elfhdr =
  elf_magic :: u32
  elf_entry :: u64
  elf_phoff :: u64
  elf_phnum :: u16

definition elfhdr_of :: "block \<Rightarrow> elfhdr" where
  "elfhdr_of d = \<lparr>elf_magic = get32 d 0, elf_entry = get64 d 24, elf_phoff = get64 d 32, elf_phnum = get16 d 56\<rparr>"

record proghdr =
  ph_type :: u32
  ph_flags :: u32
  ph_off :: u64
  ph_vaddr :: u64
  ph_filesz :: u64
  ph_memsz :: u64

definition proghdr_of :: "block \<Rightarrow> proghdr" where
  "proghdr_of d = \<lparr>ph_type = get32 d 0, ph_flags = get32 d 4, ph_off = get64 d 8, ph_vaddr = get64 d 16,
     ph_filesz = get64 d 32, ph_memsz = get64 d 40\<rparr>"

definition flags2perm :: "u32 \<Rightarrow> u64" where
  "flags2perm flags =
     (let perm = (if flags AND 1 \<noteq> 0 then PTE_X else 0)
      in if flags AND 2 \<noteq> 0 then perm OR PTE_W else perm)"

section \<open>Loading\<close>

text \<open>\<open>i\<close> and \<open>len\<close> are \<open>uint\<close>: a segment of more than \<open>2 ^ 32 - 4096\<close> bytes would make \<open>i\<close> wrap around, and
  the loop start over.\<close>

fun loadseg_loop :: "nat \<Rightarrow> u64 \<Rightarrow> u64 \<Rightarrow> nat \<Rightarrow> u32 \<Rightarrow> u32 \<Rightarrow> u32 \<Rightarrow> (int, 'a fs_state_scheme) routine" where
  "loadseg_loop fuel pt va ip offset len i =
     (if \<not> i < len then ret 0 else
      case fuel of 0 \<Rightarrow> fail Loops | Suc fuel' \<Rightarrow>
      bind (walkaddr pt (va + ucast i)) (\<lambda>pa.
      if pa = 0 then panic ''loadseg: address should exist'' else
      let n = (if len - i < 4096 then len - i else 4096) in
      bind (readi ip (ToKernel pa) (offset + i) n) (\<lambda>r.
      if r \<noteq> uint n then ret (- 1) else
      loadseg_loop fuel' pt va ip offset len (i + 4096))))"

declare loadseg_loop.simps [simp del]

definition loadseg :: "u64 \<Rightarrow> u64 \<Rightarrow> nat \<Rightarrow> u32 \<Rightarrow> u32 \<Rightarrow> (int, 'a fs_state_scheme) routine" where
  "loadseg pt va ip offset len = loadseg_loop ((unat len + 4095) div 4096) pt va ip offset len 0"

text \<open>The loop over the program headers: the size reached, and whether all went well.  \<open>off\<close> is an
  \<open>int\<close> that a 64-bit sum is stored in, so it wraps around.\<close>

fun load_segments :: "nat \<Rightarrow> u64 \<Rightarrow> nat \<Rightarrow> u32 \<Rightarrow> u64 \<Rightarrow> (u64 \<times> bool, 'a fs_state_scheme) routine" where
  "load_segments 0 pt ip off nb = ret (nb, True)"
| "load_segments (Suc k) pt ip off nb =
     bind (readi ip (ToLocal 0) off 56) (\<lambda>r.
     if r \<noteq> 56 then ret (nb, False) else
     bind (gets (\<lambda>s. proghdr_of (klocal s))) (\<lambda>ph.
     if ph_type ph \<noteq> ELF_PROG_LOAD then load_segments k pt ip (off + 56) nb
     else if ph_memsz ph < ph_filesz ph then ret (nb, False)
     else if ph_vaddr ph + ph_memsz ph < ph_vaddr ph then ret (nb, False)
     else if ph_vaddr ph mod PGSIZE \<noteq> 0 then ret (nb, False)
     else
       bind (uvmalloc pt nb (ph_vaddr ph + ph_memsz ph) (flags2perm (ph_flags ph))) (\<lambda>nb1.
       if nb1 = 0 then ret (nb, False) else
       bind (loadseg pt (ph_vaddr ph) ip (ucast (ph_off ph)) (ucast (ph_filesz ph))) (\<lambda>r.
       if r < 0 then ret (nb1, False) else
       load_segments k pt ip (off + 56) nb1))))"

section \<open>The new stack\<close>

text \<open>Each argument string goes below the one before, 16-byte aligned; the result is the stack pointer,
  the addresses pushed, and whether all went well.\<close>

definition align16 :: "u64 \<Rightarrow> u64" where
  "align16 sp = sp - sp mod 16"

fun push_args :: "u64 \<Rightarrow> u64 \<Rightarrow> u64 \<Rightarrow> byte list list \<Rightarrow> u64 list \<Rightarrow> (u64 \<times> u64 list \<times> bool, 'a proc_state_scheme) routine" where
  "push_args pt stackbase sp [] ustack = ret (sp, ustack, True)"
| "push_args pt stackbase sp (arg # args) ustack =
     (if length ustack \<ge> MAXARG then ret (sp, ustack, False) else
      let sp = align16 (sp - of_nat (length arg + 1)) in
      if sp < stackbase then ret (sp, ustack, False) else
      bind (copyout pt sp (arg @ [0])) (\<lambda>r.
      if r < 0 then ret (sp, ustack, False) else
      push_args pt stackbase sp args (ustack @ [sp])))"

text \<open>The last element of a path.\<close>

definition last_elem :: "byte list \<Rightarrow> byte list" where
  "last_elem path = rev (takeWhile (\<lambda>c. c \<noteq> SLASH) (rev path))"

definition cstr :: "byte list \<Rightarrow> cstring" where
  "cstr bs = (\<lambda>k. if k < length bs then bs ! k else 0)"

text \<open>Failure: the new page table and the inode are given up, if there are any.\<close>

definition kexec_bad :: "u64 \<Rightarrow> u64 \<Rightarrow> nat option \<Rightarrow> (int, 'a fs_state_scheme) routine" where
  "kexec_bad pt nb ip =
     seq (only_if (pt \<noteq> 0) (proc_freepagetable pt nb)) (
     seq (case ip of None \<Rightarrow> skip | Some ip \<Rightarrow> seq (iunlockput ip) end_op) (
     ret (- 1)))"

definition kexec_commit :: "nat \<Rightarrow> byte list \<Rightarrow> u64 \<Rightarrow> u64 \<Rightarrow> u64 \<Rightarrow> u64 \<Rightarrow> nat \<Rightarrow> (int, 'a proc_state_scheme) routine" where
  "kexec_commit p path pt nb sp pc0 argc =
     seq (tf_put p TF_A1 sp) (
     seq (upd_proc p (\<lambda>x. x\<lparr>pname := safestrcpy (pname x) (cstr (last_elem path)) 16\<rparr>)) (
     bind (gets (\<lambda>s. (pagetable (procs s p), sz (procs s p)))) (\<lambda>(oldpt, oldsz).
     seq (upd_proc p (\<lambda>x. x\<lparr>pagetable := pt, sz := nb\<rparr>)) (
     seq (tf_put p TF_EPC pc0) (
     seq (tf_put p TF_SP sp) (
     seq (proc_freepagetable oldpt oldsz) (
     ret (int argc))))))))"

definition kexec_stack :: "nat \<Rightarrow> byte list \<Rightarrow> byte list list \<Rightarrow> u64 \<Rightarrow> u64 \<Rightarrow> u64 \<Rightarrow> (int, 'a fs_state_scheme) routine" where
  "kexec_stack p path argv pt pc0 nb =
     bind (uvmalloc pt (PGROUNDUP nb) (PGROUNDUP nb + (USERSTACK + 1) * PGSIZE) PTE_W) (\<lambda>nb1.
     if nb1 = 0 then kexec_bad pt (PGROUNDUP nb) None else
     seq (uvmclear pt (nb1 - (USERSTACK + 1) * PGSIZE)) (
     let stackbase = nb1 - USERSTACK * PGSIZE in
     bind (push_args pt stackbase nb1 argv []) (\<lambda>(sp, ustack, ok).
     if \<not> ok then kexec_bad pt nb1 None
     else if length ustack \<ge> MAXARG then undef ''kexec: ustack''
     else
       let sp = align16 (sp - of_nat ((length ustack + 1) * 8)) in
       if sp < stackbase then kexec_bad pt nb1 None else
       bind (copyout pt sp (concat (map (le_bytes 8) (ustack @ [0])))) (\<lambda>r.
       if r < 0 then kexec_bad pt nb1 None else
       kexec_commit p path pt nb1 sp pc0 (length ustack)))))"

definition kexec :: "byte list \<Rightarrow> byte list list \<Rightarrow> (int, 'a fs_state_scheme) routine" where
  "kexec path argv =
     bind this_proc (\<lambda>p.
     seq begin_op (
     bind (namei path) (\<lambda>r.
     case r of None \<Rightarrow> seq end_op (ret (- 1)) | Some ip \<Rightarrow>
     seq (ilock (Some ip)) (
     bind (readi ip (ToLocal 0) 0 64) (\<lambda>r.
     if r \<noteq> 64 then kexec_bad 0 0 (Some ip) else
     bind (gets (\<lambda>s. elfhdr_of (klocal s))) (\<lambda>elf.
     if elf_magic elf \<noteq> ELF_MAGIC then kexec_bad 0 0 (Some ip) else
     bind (proc_pagetable p) (\<lambda>pt.
     if pt = 0 then kexec_bad 0 0 (Some ip) else
     bind (load_segments (unat (elf_phnum elf)) pt ip (ucast (elf_phoff elf)) 0) (\<lambda>(nb, ok).
     if \<not> ok then kexec_bad pt nb (Some ip) else
     seq (iunlockput ip) (
     seq end_op (
     kexec_stack p path argv pt (elf_entry elf) nb))))))))))"

end
