(* ===== verification/Sysproc.thy ===== *)
theory Sysproc
  imports Exec
begin

text \<open>
  Fetching system call arguments (the first half of \<open>kernel/syscall.c\<close>) and the system calls of
  \<open>kernel/sysproc.c\<close>.  A system call returns the 64-bit value that goes into \<open>a0\<close>.
\<close>

section \<open>Arguments\<close>

definition fetchaddr :: "u64 \<Rightarrow> (u64 option, 'a proc_state_scheme) routine" where
  "fetchaddr addr =
     bind this_proc (\<lambda>p.
     bind (gets (\<lambda>s. (sz (procs s p), pagetable (procs s p)))) (\<lambda>(nb, pt).
     if addr \<ge> nb \<or> addr + 8 > nb then ret None else
     bind (copyin pt addr 8) (\<lambda>(bs, r).
     ret (if r \<noteq> 0 then None else Some (le_word bs)))))"

text \<open>The bytes stored in the buffer, and the length of the string or \<open>-1\<close>.\<close>

definition path_of :: "byte list \<Rightarrow> byte list" where
  "path_of bs = takeWhile (\<lambda>b. b \<noteq> 0) bs"

definition fetchstr :: "u64 \<Rightarrow> nat \<Rightarrow> (byte list \<times> int, 'a proc_state_scheme) routine" where
  "fetchstr addr mx =
     bind this_proc (\<lambda>p.
     bind (gets (\<lambda>s. pagetable (procs s p))) (\<lambda>pt.
     bind (copyinstr pt addr mx) (\<lambda>(bs, r).
     ret (bs, if r < 0 then - 1 else int (length (path_of bs))))))"

definition argraw :: "nat \<Rightarrow> (u64, 'a proc_state_scheme) routine" where
  "argraw n =
     bind this_proc (\<lambda>p.
     if n < 6 then tf_get p (TF_A0 + 8 * of_nat n) else panic ''argraw'')"

definition argint :: "nat \<Rightarrow> (int, 'a proc_state_scheme) routine" where
  "argint n = bind (argraw n) (\<lambda>v. ret (sint (ucast v :: u32)))"

definition argaddr :: "nat \<Rightarrow> (u64, 'a proc_state_scheme) routine" where
  "argaddr n = argraw n"

definition argstr :: "nat \<Rightarrow> nat \<Rightarrow> (byte list \<times> int, 'a proc_state_scheme) routine" where
  "argstr n mx = bind (argaddr n) (\<lambda>addr. fetchstr addr mx)"

section \<open>System calls on processes\<close>

abbreviation (input) SBRK_EAGER :: int where "SBRK_EAGER \<equiv> 1"

definition sys_exit :: "(u64, 'a kernel_state_scheme) routine" where
  "sys_exit = bind (argint 0) (\<lambda>n. seq (kexit n :: (unit, 'a kernel_state_scheme) routine) (ret 0))"

definition sys_getpid :: "(u64, 'a kernel_state_scheme) routine" where
  "sys_getpid = bind this_proc (\<lambda>p. gets (\<lambda>s. of_int (pid (procs s p))))"

definition sys_fork :: "(u64, 'a kernel_state_scheme) routine" where
  "sys_fork = bind kfork (\<lambda>r. ret (of_int r))"

definition sys_wait :: "(u64, 'a kernel_state_scheme) routine" where
  "sys_wait = bind (argaddr 0) (\<lambda>p. bind (kwait p) (\<lambda>r. ret (of_int r)))"

definition sys_sbrk :: "(u64, 'a kernel_state_scheme) routine" where
  "sys_sbrk =
     bind (argint 0) (\<lambda>n.
     bind (argint 1) (\<lambda>t.
     bind this_proc (\<lambda>p.
     bind (gets (\<lambda>s. sz (procs s p))) (\<lambda>addr.
     if t = SBRK_EAGER \<or> n < 0 then
       bind (growproc n) (\<lambda>r. ret (if r < 0 then - 1 else addr))
     else if addr + of_int n < addr then ret (- 1)
     else if addr + of_int n > TRAPFRAME then ret (- 1)
     else seq (upd_proc p (sz_update (\<lambda>b. b + of_int n))) (ret addr)))))"

text \<open>The wait of \<open>sys_pause\<close>, with \<open>tickslock\<close> held; it continues here when it is woken.\<close>

definition pause_loop :: "u32 \<Rightarrow> u32 \<Rightarrow> (u64, 'a kernel_state_scheme) routine" where
  "pause_loop ticks0 n =
     bind (gets (\<lambda>s. ticks s - ticks0 < n)) (\<lambda>early.
     if \<not> early then seq (release TicksLock) (ret 0) else
     bind this_proc (\<lambda>p.
     bind (killed p) (\<lambda>k.
     if k then seq (release TicksLock) (ret (- 1))
     else sleep ChanTicks TicksLock)))"

definition sys_pause :: "(u64, 'a kernel_state_scheme) routine" where
  "sys_pause =
     bind (argint 0) (\<lambda>n.
     seq (acquire TicksLock) (
     bind (gets ticks) (\<lambda>ticks0.
     pause_loop ticks0 (of_int (max n 0)))))"

definition sys_kill :: "(u64, 'a kernel_state_scheme) routine" where
  "sys_kill = bind (argint 0) (\<lambda>k. bind (kkill k) (\<lambda>r. ret (of_int r)))"

definition sys_uptime :: "(u64, 'a kernel_state_scheme) routine" where
  "sys_uptime =
     seq (acquire TicksLock) (
     bind (gets ticks) (\<lambda>x.
     seq (release TicksLock) (
     ret (ucast x))))"

end
