(* ===== verification/Sysfile.thy ===== *)
theory Sysfile
  imports Sysproc
begin

text \<open>\<open>kernel/sysfile.c\<close>: the system calls on files.\<close>

abbreviation (input) MAXPATH :: nat where "MAXPATH \<equiv> 128"
abbreviation (input) O_RDONLY :: u32 where "O_RDONLY \<equiv> 0"
abbreviation (input) O_WRONLY :: u32 where "O_WRONLY \<equiv> 1"
abbreviation (input) O_RDWR :: u32 where "O_RDWR \<equiv> 2"
abbreviation (input) O_CREATE :: u32 where "O_CREATE \<equiv> 0x200"
abbreviation (input) O_TRUNC :: u32 where "O_TRUNC \<equiv> 0x400"

section \<open>Descriptors\<close>

definition argfd :: "nat \<Rightarrow> ((nat \<times> nat) option, 'a kernel_state_scheme) routine" where
  "argfd n =
     bind (argint n) (\<lambda>fd.
     if fd < 0 \<or> fd \<ge> int NOFILE then ret None else
     bind this_proc (\<lambda>p.
     bind (gets (\<lambda>s. ofile (procs s p) (nat fd))) (\<lambda>f.
     ret (case f of None \<Rightarrow> None | Some f \<Rightarrow> Some (nat fd, f)))))"

definition set_ofile :: "nat \<Rightarrow> nat \<Rightarrow> nat option \<Rightarrow> (unit, 'a proc_state_scheme) routine" where
  "set_ofile p fd f = upd_proc p (\<lambda>x. x\<lparr>ofile := (ofile x)(fd := f)\<rparr>)"

definition fdalloc :: "nat \<Rightarrow> (nat option, 'a kernel_state_scheme) routine" where
  "fdalloc f =
     bind this_proc (\<lambda>p.
     bind (gets (\<lambda>s. find (\<lambda>fd. ofile (procs s p) fd = None) [0..<NOFILE])) (\<lambda>r.
     case r of None \<Rightarrow> ret None | Some fd \<Rightarrow> seq (set_ofile p fd (Some f)) (ret (Some fd))))"

definition sys_dup :: "(u64, 'a kernel_state_scheme) routine" where
  "sys_dup =
     bind (argfd 0) (\<lambda>r.
     case r of None \<Rightarrow> ret (- 1) | Some (_, f) \<Rightarrow>
     bind (fdalloc f) (\<lambda>r.
     case r of None \<Rightarrow> ret (- 1) | Some fd \<Rightarrow>
     seq (filedup f) (ret (of_nat fd))))"

definition sys_read :: "(u64, 'a kernel_state_scheme) routine" where
  "sys_read =
     bind (argaddr 1) (\<lambda>p.
     bind (argint 2) (\<lambda>n.
     bind (argfd 0) (\<lambda>r.
     case r of None \<Rightarrow> ret (- 1) | Some (_, f) \<Rightarrow>
     bind (fileread f p n) (\<lambda>r. ret (of_int r)))))"

definition sys_write :: "(u64, 'a kernel_state_scheme) routine" where
  "sys_write =
     bind (argaddr 1) (\<lambda>p.
     bind (argint 2) (\<lambda>n.
     bind (argfd 0) (\<lambda>r.
     case r of None \<Rightarrow> ret (- 1) | Some (_, f) \<Rightarrow>
     bind (filewrite f p n) (\<lambda>r. ret (of_int r)))))"

definition sys_close :: "(u64, 'a kernel_state_scheme) routine" where
  "sys_close =
     bind (argfd 0) (\<lambda>r.
     case r of None \<Rightarrow> ret (- 1) | Some (fd, f) \<Rightarrow>
     bind this_proc (\<lambda>p.
     seq (set_ofile p fd None) (
     seq (fileclose f) (
     ret 0))))"

definition sys_fstat :: "(u64, 'a kernel_state_scheme) routine" where
  "sys_fstat =
     bind (argaddr 1) (\<lambda>st.
     bind (argfd 0) (\<lambda>r.
     case r of None \<Rightarrow> ret (- 1) | Some (_, f) \<Rightarrow>
     bind (filestat f st) (\<lambda>r. ret (of_int r))))"

section \<open>Links\<close>

definition end_fail :: "(u64, 'a fs_state_scheme) routine" where
  "end_fail = seq end_op (ret (- 1))"

definition sys_link_bad :: "nat \<Rightarrow> (u64, 'a fs_state_scheme) routine" where
  "sys_link_bad ip =
     seq (ilock (Some ip)) (
     seq (upd_inode ip (inlink_update (\<lambda>n. n - 1))) (
     seq (iupdate ip) (
     seq (iunlockput ip) (
     end_fail))))"

definition sys_link_to :: "nat \<Rightarrow> byte list \<Rightarrow> (u64, 'a fs_state_scheme) routine" where
  "sys_link_to ip new =
     bind (nameiparent new) (\<lambda>(r, name).
     case r of None \<Rightarrow> sys_link_bad ip | Some dp \<Rightarrow>
     seq (ilock (Some dp)) (
     bind (gets (\<lambda>s. (idev (icache s dp) \<noteq> idev (icache s ip), inum (icache s ip)))) (\<lambda>(cross, num).
     bind (if cross then ret (- 1) else dirlink dp name num) (\<lambda>r.
     if r < 0 then seq (iunlockput dp) (sys_link_bad ip) else
     seq (iunlockput dp) (
     seq (iput ip) (
     seq end_op (
     ret 0)))))))"

definition sys_link :: "(u64, 'a kernel_state_scheme) routine" where
  "sys_link =
     bind (argstr 0 MAXPATH) (\<lambda>(old, r0).
     if r0 < 0 then ret (- 1) else
     bind (argstr 1 MAXPATH) (\<lambda>(new, r1).
     if r1 < 0 then ret (- 1) else
     seq begin_op (
     bind (namei (path_of old)) (\<lambda>r.
     case r of None \<Rightarrow> end_fail | Some ip \<Rightarrow>
     seq (ilock (Some ip)) (
     bind (gets (\<lambda>s. itype (icache s ip))) (\<lambda>ty.
     if ty = T_DIR then seq (iunlockput ip) end_fail else
     seq (upd_inode ip (inlink_update (\<lambda>n. n + 1))) (
     seq (iupdate ip) (
     seq (iunlock (Some ip)) (
     sys_link_to ip (path_of new))))))))))"

definition isdirempty :: "nat \<Rightarrow> (bool, 'a fs_state_scheme) routine" where
  "isdirempty dp =
     bind (gets (\<lambda>s. (unat (isize (icache s dp)) + 15) div 16)) (\<lambda>n.
     bind (for_until (map (\<lambda>k. 16 * k) [2..<n]) (\<lambda>off.
       bind (readi dp (ToLocal 0) (of_nat off) 16) (\<lambda>r.
       if r \<noteq> 16 then panic ''isdirempty: readi'' else
       bind (gets klocal) (\<lambda>de. ret (if get16 de 0 \<noteq> 0 then Some () else None))))) (\<lambda>r.
     ret (r = None)))"

definition sys_unlink_at :: "nat \<Rightarrow> nat \<Rightarrow> u32 \<Rightarrow> (u64, 'a fs_state_scheme) routine" where
  "sys_unlink_at dp ip off =
     bind (writei dp (FromKernel (replicate 16 0)) off 16) (\<lambda>r.
     if r \<noteq> 16 then panic ''unlink: writei'' else
     bind (gets (\<lambda>s. itype (icache s ip))) (\<lambda>ty.
     seq (only_if (ty = T_DIR) (
       seq (upd_inode dp (inlink_update (\<lambda>n. n - 1))) (
       iupdate dp))) (
     seq (iunlockput dp) (
     seq (upd_inode ip (inlink_update (\<lambda>n. n - 1))) (
     seq (iupdate ip) (
     seq (iunlockput ip) (
     seq end_op (
     ret 0))))))))"

definition sys_unlink :: "(u64, 'a kernel_state_scheme) routine" where
  "sys_unlink =
     bind (argstr 0 MAXPATH) (\<lambda>(path, r).
     if r < 0 then ret (- 1) else
     seq begin_op (
     bind (nameiparent (path_of path)) (\<lambda>(r, name).
     case r of None \<Rightarrow> end_fail | Some dp \<Rightarrow>
     seq (ilock (Some dp)) (
     if namecmp name (cstr (str ''.'')) = 0 \<or> namecmp name (cstr (str ''..'')) = 0
     then seq (iunlockput dp) end_fail else
     bind (dirlookup dp name) (\<lambda>hit.
     case hit of None \<Rightarrow> seq (iunlockput dp) end_fail | Some (ip, off) \<Rightarrow>
     seq (ilock (Some ip)) (
     bind (gets (\<lambda>s. icache s ip)) (\<lambda>x.
     if sint (inlink x) < 1 then panic ''unlink: nlink < 1'' else
     bind (if itype x = T_DIR then isdirempty ip else ret True) (\<lambda>empty.
     if \<not> empty then seq (iunlockput ip) (seq (iunlockput dp) end_fail)
     else sys_unlink_at dp ip off))))))))"

section \<open>Opening and creating\<close>

definition create_fail :: "nat \<Rightarrow> nat \<Rightarrow> (nat option, 'a fs_state_scheme) routine" where
  "create_fail dp ip =
     seq (upd_inode ip (inlink_update (\<lambda>_. 0))) (
     seq (iupdate ip) (
     seq (iunlockput ip) (
     seq (iunlockput dp) (
     ret None))))"

definition create_dots :: "u16 \<Rightarrow> nat \<Rightarrow> nat \<Rightarrow> (bool, 'a fs_state_scheme) routine" where
  "create_dots ty dp ip =
     (if ty \<noteq> T_DIR then ret True else
      bind (gets (\<lambda>s. (inum (icache s ip), inum (icache s dp)))) (\<lambda>(self, up).
      bind (dirlink ip (cstr (str ''.'')) self) (\<lambda>r.
      if r < 0 then ret False else
      bind (dirlink ip (cstr (str ''..'')) up) (\<lambda>r.
      ret (\<not> r < 0)))))"

definition create_new :: "nat \<Rightarrow> cstring \<Rightarrow> u16 \<Rightarrow> u16 \<Rightarrow> u16 \<Rightarrow> nat \<Rightarrow> (nat option, 'a fs_state_scheme) routine" where
  "create_new dp name ty mj mn ip =
     seq (ilock (Some ip)) (
     seq (upd_inode ip (\<lambda>x. x\<lparr>imajor := mj, iminor := mn, inlink := 1\<rparr>)) (
     seq (iupdate ip) (
     bind (create_dots ty dp ip) (\<lambda>ok.
     if \<not> ok then create_fail dp ip else
     bind (gets (\<lambda>s. inum (icache s ip))) (\<lambda>num.
     bind (dirlink dp name num) (\<lambda>r.
     if r < 0 then create_fail dp ip else
     seq (only_if (ty = T_DIR) (
       seq (upd_inode dp (inlink_update (\<lambda>n. n + 1))) (
       iupdate dp))) (
     seq (iunlockput dp) (
     ret (Some ip)))))))))"

definition create :: "byte list \<Rightarrow> u16 \<Rightarrow> u16 \<Rightarrow> u16 \<Rightarrow> (nat option, 'a fs_state_scheme) routine" where
  "create path ty mj mn =
     bind (nameiparent path) (\<lambda>(r, name).
     case r of None \<Rightarrow> ret None | Some dp \<Rightarrow>
     seq (ilock (Some dp)) (
     bind (dirlookup dp name) (\<lambda>hit.
     case hit of
       Some (ip, _) \<Rightarrow>
         seq (iunlockput dp) (
         seq (ilock (Some ip)) (
         bind (gets (\<lambda>s. itype (icache s ip))) (\<lambda>t.
         if ty = T_FILE \<and> (t = T_FILE \<or> t = T_DEVICE) then ret (Some ip)
         else seq (iunlockput ip) (ret None))))
     | None \<Rightarrow>
         bind (gets (\<lambda>s. idev (icache s dp))) (\<lambda>dev.
         bind (ialloc dev ty) (\<lambda>r.
         case r of None \<Rightarrow> seq (iunlockput dp) (ret None)
         | Some ip \<Rightarrow> create_new dp name ty mj mn ip)))))"

text \<open>\<open>sys_open\<close> with the inode found and locked.\<close>

definition sys_open_with :: "nat \<Rightarrow> u32 \<Rightarrow> (u64, 'a kernel_state_scheme) routine" where
  "sys_open_with ip omode =
     bind (gets (\<lambda>s. icache s ip)) (\<lambda>x.
     if itype x = T_DEVICE \<and> (sint (imajor x) < 0 \<or> sint (imajor x) \<ge> int NDEV)
     then seq (iunlockput ip) end_fail else
     bind filealloc (\<lambda>rdf.
     case rdf of None \<Rightarrow> seq (iunlockput ip) end_fail | Some f \<Rightarrow>
     bind (fdalloc f) (\<lambda>rfd.
     case rfd of None \<Rightarrow> seq (fileclose f) (seq (iunlockput ip) end_fail) | Some fd \<Rightarrow>
     seq (upd_file f (\<lambda>y. if itype x = T_DEVICE then y\<lparr>ftype := FD_DEVICE, fmajor := imajor x\<rparr>
                          else y\<lparr>ftype := FD_INODE, foff := 0\<rparr>)) (
     seq (upd_file f (\<lambda>y. y\<lparr>fip := Some ip, readable := omode AND O_WRONLY = 0,
                            writable := omode AND O_WRONLY \<noteq> 0 \<or> omode AND O_RDWR \<noteq> 0\<rparr>)) (
     seq (only_if (omode AND O_TRUNC \<noteq> 0 \<and> itype x = T_FILE) (itrunc ip)) (
     seq (iunlock (Some ip)) (
     seq end_op (
     ret (of_nat fd)))))))))"

definition sys_open :: "(u64, 'a kernel_state_scheme) routine" where
  "sys_open =
     bind (argint 1) (\<lambda>mode.
     let omode = (of_int mode :: u32) in
     bind (argstr 0 MAXPATH) (\<lambda>(path, r).
     if r < 0 then ret (- 1) else
     seq begin_op (
     if omode AND O_CREATE \<noteq> 0 then
       bind (create (path_of path) T_FILE 0 0) (\<lambda>r.
       case r of None \<Rightarrow> end_fail | Some ip \<Rightarrow> sys_open_with ip omode)
     else
       bind (namei (path_of path)) (\<lambda>r.
       case r of None \<Rightarrow> end_fail | Some ip \<Rightarrow>
       seq (ilock (Some ip)) (
       bind (gets (\<lambda>s. itype (icache s ip))) (\<lambda>ty.
       if ty = T_DIR \<and> omode \<noteq> O_RDONLY then seq (iunlockput ip) end_fail
       else sys_open_with ip omode))))))"

definition sys_mkdir :: "(u64, 'a kernel_state_scheme) routine" where
  "sys_mkdir =
     seq begin_op (
     bind (argstr 0 MAXPATH) (\<lambda>(path, r).
     if r < 0 then end_fail else
     bind (create (path_of path) T_DIR 0 0) (\<lambda>r.
     case r of None \<Rightarrow> end_fail | Some ip \<Rightarrow>
     seq (iunlockput ip) (seq end_op (ret 0)))))"

definition sys_mknod :: "(u64, 'a kernel_state_scheme) routine" where
  "sys_mknod =
     seq begin_op (
     bind (argint 1) (\<lambda>mj.
     bind (argint 2) (\<lambda>mn.
     bind (argstr 0 MAXPATH) (\<lambda>(path, r).
     if r < 0 then end_fail else
     bind (create (path_of path) T_DEVICE (of_int mj) (of_int mn)) (\<lambda>r.
     case r of None \<Rightarrow> end_fail | Some ip \<Rightarrow>
     seq (iunlockput ip) (seq end_op (ret 0)))))))"

definition sys_chdir :: "(u64, 'a kernel_state_scheme) routine" where
  "sys_chdir =
     bind this_proc (\<lambda>p.
     seq begin_op (
     bind (argstr 0 MAXPATH) (\<lambda>(path, r).
     if r < 0 then end_fail else
     bind (namei (path_of path)) (\<lambda>r.
     case r of None \<Rightarrow> end_fail | Some ip \<Rightarrow>
     seq (ilock (Some ip)) (
     bind (gets (\<lambda>s. itype (icache s ip))) (\<lambda>ty.
     if ty \<noteq> T_DIR then seq (iunlockput ip) end_fail else
     seq (iunlock (Some ip)) (
     bind (gets (\<lambda>s. cwd (procs s p))) (\<lambda>d.
     case d of None \<Rightarrow> undef ''iput'' | Some d \<Rightarrow>
     seq (iput d) (
     seq end_op (
     seq (upd_proc p (cwd_update (\<lambda>_. Some ip))) (
     ret 0)))))))))))"

section \<open>Exec and pipe\<close>

text \<open>The argument strings of \<open>exec\<close> are read into pages of their own; \<open>n\<close> slots of \<open>argv\<close> are left.\<close>

fun fetch_args :: "nat \<Rightarrow> u64 \<Rightarrow> (u64 \<times> byte list) list \<Rightarrow> ((u64 \<times> byte list) list \<times> bool, 'a proc_state_scheme) routine" where
  "fetch_args 0 uargv argv = ret (argv, False)"
| "fetch_args (Suc n) uargv argv =
     bind (fetchaddr uargv) (\<lambda>r.
     case r of None \<Rightarrow> ret (argv, False) | Some uarg \<Rightarrow>
     if uarg = 0 then ret (argv, True) else
     bind kalloc (\<lambda>pg.
     if pg = 0 then ret (argv, False) else
     bind (fetchstr uarg 4096) (\<lambda>(bs, r).
     seq (modify (\<lambda>s. s\<lparr>mem := mem_put (mem s) pg bs\<rparr>)) (
     if r < 0 then ret (argv @ [(pg, bs)], False)
     else fetch_args n (uargv + 8) (argv @ [(pg, bs)])))))"

definition sys_exec :: "(u64, 'a kernel_state_scheme) routine" where
  "sys_exec =
     bind (argaddr 1) (\<lambda>uargv.
     bind (argstr 0 MAXPATH) (\<lambda>(path, r).
     if r < 0 then ret (- 1) else
     bind (fetch_args MAXARG uargv []) (\<lambda>(argv, ok).
     bind (if ok then kexec (path_of path) (map (\<lambda>(_, bs). path_of bs) argv) else ret (- 1)) (\<lambda>r.
     seq (for_each argv (\<lambda>(pg, _). kfree pg)) (
     ret (of_int r))))))"

definition close_both :: "nat \<Rightarrow> nat \<Rightarrow> (u64, 'a file_state_scheme) routine" where
  "close_both rdf wrf = seq (fileclose rdf) (seq (fileclose wrf) (ret (- 1)))"

definition sys_pipe_fds :: "nat \<Rightarrow> nat \<Rightarrow> nat \<Rightarrow> nat \<Rightarrow> nat \<Rightarrow> u64 \<Rightarrow> (u64, 'a kernel_state_scheme) routine" where
  "sys_pipe_fds p rdf wrf fd0 fd1 fdarray =
     bind (gets (\<lambda>s. pagetable (procs s p))) (\<lambda>pt.
     bind (copyout pt fdarray (le_bytes 4 (of_nat fd0 :: u32))) (\<lambda>r0.
     bind (if r0 < 0 then ret (- 1) else copyout pt (fdarray + 4) (le_bytes 4 (of_nat fd1 :: u32))) (\<lambda>r1.
     if r1 < 0 then
       seq (set_ofile p fd0 None) (
       seq (set_ofile p fd1 None) (
       close_both rdf wrf))
     else ret 0)))"

definition sys_pipe :: "(u64, 'a kernel_state_scheme) routine" where
  "sys_pipe =
     bind this_proc (\<lambda>p.
     bind (argaddr 0) (\<lambda>fdarray.
     bind pipealloc (\<lambda>r.
     case r of None \<Rightarrow> ret (- 1) | Some (rdf, wrf) \<Rightarrow>
     bind (fdalloc rdf) (\<lambda>r0.
     case r0 of None \<Rightarrow> close_both rdf wrf | Some fd0 \<Rightarrow>
     bind (fdalloc wrf) (\<lambda>r1.
     case r1 of
       None \<Rightarrow> seq (set_ofile p fd0 None) (close_both rdf wrf)
     | Some fd1 \<Rightarrow> sys_pipe_fds p rdf wrf fd0 fd1 fdarray)))))"

end
