(* ===== verification/Syscall.thy ===== *)
theory Syscall
  imports Sysfile
begin

text \<open>The dispatch of system calls: the table and \<open>syscall\<close> of \<open>kernel/syscall.c\<close>, the numbers of
  \<open>kernel/syscall.h\<close>.\<close>

definition syscalls :: "int \<Rightarrow> (u64, 'a kernel_state_scheme) routine option" where
  "syscalls num =
     (if num = 1 then Some sys_fork
      else if num = 2 then Some sys_exit
      else if num = 3 then Some sys_wait
      else if num = 4 then Some sys_pipe
      else if num = 5 then Some sys_read
      else if num = 6 then Some sys_kill
      else if num = 7 then Some sys_exec
      else if num = 8 then Some sys_fstat
      else if num = 9 then Some sys_chdir
      else if num = 10 then Some sys_dup
      else if num = 11 then Some sys_getpid
      else if num = 12 then Some sys_sbrk
      else if num = 13 then Some sys_pause
      else if num = 14 then Some sys_uptime
      else if num = 15 then Some sys_open
      else if num = 16 then Some sys_write
      else if num = 17 then Some sys_mknod
      else if num = 18 then Some sys_unlink
      else if num = 19 then Some sys_link
      else if num = 20 then Some sys_mkdir
      else if num = 21 then Some sys_close
      else None)"

definition syscall :: "(unit, 'a kernel_state_scheme) routine" where
  "syscall =
     bind this_proc (\<lambda>p.
     bind (tf_get p TF_A7) (\<lambda>a7.
     let num = sint (ucast a7 :: u32) in
     case syscalls num of
       Some f \<Rightarrow> bind f (\<lambda>v. tf_put p TF_A0 v)
     | None \<Rightarrow>
         bind (gets (\<lambda>s. procs s p)) (\<lambda>pr.
         seq (printf (str ''%d %s: unknown sys call %d'' @ [10])
                [Int32 (of_int (pid pr)), Str (Some (cstr_bytes 16 (pname pr))), Int32 (of_int num)]) (
         tf_put p TF_A0 (- 1)))))"

end
