(* ===== verification/Trap.thy ===== *)
theory Trap
  imports Syscall
begin

text \<open>
  Traps and interrupts (\<open>kernel/trap.c\<close>, \<open>kernel/plic.c\<close>), the first return to user space (\<open>forkret\<close>
  of \<open>kernel/proc.c\<close>) and the start of the kernel (\<open>kernel/main.c\<close>).

  \<open>sstatus\<close> is a register whose SIE bit is the interrupt flag of \<open>ctl\<close>.  The interrupt controller is its
  registers and the interrupt it will report next (\<open>plic_pending\<close>); claiming takes it.  The trap handlers
  end where the processor would leave for user space or the interrupted code.
\<close>

section \<open>Control registers\<close>

abbreviation (input) SSTATUS_SIE :: u64 where "SSTATUS_SIE \<equiv> 2"
abbreviation (input) SSTATUS_SPIE :: u64 where "SSTATUS_SPIE \<equiv> 0x20"
abbreviation (input) SSTATUS_SPP :: u64 where "SSTATUS_SPP \<equiv> 0x100"

definition r_sstatus :: "'a kernel_state_scheme \<Rightarrow> u64" where
  "r_sstatus s = (if sie (ctl s) then sstatus s OR SSTATUS_SIE else sstatus s AND NOT SSTATUS_SIE)"

definition w_sstatus :: "u64 \<Rightarrow> (unit, 'a kernel_state_scheme) routine" where
  "w_sstatus x = modify (\<lambda>s. s\<lparr>sstatus := x, ctl := (ctl s)\<lparr>sie := x AND SSTATUS_SIE \<noteq> 0\<rparr>\<rparr>)"

definition w_stvec :: "u64 \<Rightarrow> (unit, 'a kernel_state_scheme) routine" where
  "w_stvec x = modify (\<lambda>s. s\<lparr>stvec := x\<rparr>)"

definition w_sepc :: "u64 \<Rightarrow> (unit, 'a kernel_state_scheme) routine" where
  "w_sepc x = modify (\<lambda>s. s\<lparr>sepc := x\<rparr>)"

section \<open>The interrupt controller\<close>

abbreviation (input) UART0_IRQ :: u32 where "UART0_IRQ \<equiv> 10"
abbreviation (input) VIRTIO0_IRQ :: u32 where "VIRTIO0_IRQ \<equiv> 1"

definition PLIC_SENABLE :: "nat \<Rightarrow> u64" where
  "PLIC_SENABLE hart = PLIC + 0x2080 + of_nat hart * 0x100"

definition PLIC_SPRIORITY :: "nat \<Rightarrow> u64" where
  "PLIC_SPRIORITY hart = PLIC + 0x201000 + of_nat hart * 0x2000"

definition PLIC_SCLAIM :: "nat \<Rightarrow> u64" where
  "PLIC_SCLAIM hart = PLIC + 0x201004 + of_nat hart * 0x2000"

definition plic_store :: "u64 \<Rightarrow> u32 \<Rightarrow> (unit, 'a kernel_state_scheme) routine" where
  "plic_store a v = modify (\<lambda>s. s\<lparr>plic := (plic s)(a := v)\<rparr>)"

definition plicinit :: "(unit, 'a kernel_state_scheme) routine" where
  "plicinit =
     seq (plic_store (PLIC + ucast UART0_IRQ * 4) 1) (
     plic_store (PLIC + ucast VIRTIO0_IRQ * 4) 1)"

definition plicinithart :: "(unit, 'a kernel_state_scheme) routine" where
  "plicinithart =
     bind cpuid (\<lambda>hart.
     seq (plic_store (PLIC_SENABLE hart) (push_bit 10 1 OR push_bit 1 1)) (
     plic_store (PLIC_SPRIORITY hart) 0))"

definition plic_claim :: "(u32, 'a kernel_state_scheme) routine" where
  "plic_claim =
     bind cpuid (\<lambda>hart.
     bind (gets plic_pending) (\<lambda>irq.
     seq (modify (\<lambda>s. s\<lparr>plic_pending := 0\<rparr>)) (
     ret irq)))"

definition plic_complete :: "u32 \<Rightarrow> (unit, 'a kernel_state_scheme) routine" where
  "plic_complete irq = bind cpuid (\<lambda>hart. plic_store (PLIC_SCLAIM hart) irq)"

section \<open>Interrupts\<close>

definition trapinit :: "(unit, 'a kernel_state_scheme) routine" where
  "trapinit = initlock TicksLock ''time''"

definition trapinithart :: "(unit, 'a kernel_state_scheme) routine" where
  "trapinithart = bind (gets kernelvec_addr) w_stvec"

definition clockintr :: "(unit, 'a kernel_state_scheme) routine" where
  "clockintr =
     bind cpuid (\<lambda>hart.
     seq (only_if (hart = 0) (
       seq (acquire TicksLock) (
       seq (modify (\<lambda>s. s\<lparr>ticks := ticks s + 1\<rparr>)) (
       seq (wakeup ChanTicks) (
       release TicksLock))))) (
     modify (\<lambda>s. s\<lparr>stimecmp := timer s + 1000000\<rparr>)))"

definition devintr :: "(nat, 'a kernel_state_scheme) routine" where
  "devintr =
     bind (gets scause) (\<lambda>cause.
     if cause = 0x8000000000000009 then
       bind plic_claim (\<lambda>irq.
       seq (if irq = UART0_IRQ then uartintr
            else if irq = VIRTIO0_IRQ then virtio_disk_intr
            else if irq \<noteq> 0 then
              seq (printf (str ''unexpected interrupt irq=%d'' @ [10]) [Int32 irq]) skip
            else skip) (
       seq (only_if (irq \<noteq> 0) (plic_complete irq)) (
       ret 1)))
     else if cause = 0x8000000000000005 then seq clockintr (ret 2)
     else ret 0)"

definition prepare_return :: "(unit, 'a kernel_state_scheme) routine" where
  "prepare_return =
     bind this_proc (\<lambda>p.
     seq intr_off (
     bind (gets (\<lambda>s. TRAMPOLINE + (uservec_addr s - trampoline s))) (\<lambda>vec.
     seq (w_stvec vec) (
     bind (gets (\<lambda>s. (satp s, kstack (procs s p), usertrap_addr s, hartid (ctl s)))) (\<lambda>(ks, kst, ut, hart).
     seq (tf_put p TF_KERNEL_SATP ks) (
     seq (tf_put p TF_KERNEL_SP (kst + PGSIZE)) (
     seq (tf_put p TF_KERNEL_TRAP ut) (
     seq (tf_put p TF_KERNEL_HARTID (of_nat hart)) (
     bind (gets r_sstatus) (\<lambda>x.
     seq (w_sstatus ((x AND NOT SSTATUS_SPP) OR SSTATUS_SPIE)) (
     bind (tf_get p TF_EPC) w_sepc)))))))))))"

text \<open>The end of \<open>usertrap\<close>, which is also what is left of it when a process that yielded in it resumes.\<close>

definition usertrap_end :: "nat \<Rightarrow> (u64, 'a kernel_state_scheme) routine" where
  "usertrap_end p =
     seq prepare_return (
     gets (\<lambda>s. MAKE_SATP (pagetable (procs s p))))"

definition usertrap_fault :: "nat \<Rightarrow> u64 \<Rightarrow> (bool, 'a kernel_state_scheme) routine" where
  "usertrap_fault p cause =
     (if cause = 15 \<or> cause = 13 then
        bind (gets (\<lambda>s. (pagetable (procs s p), stval s))) (\<lambda>(pt, va).
        bind (vmfault pt va) (\<lambda>pa. ret (pa \<noteq> 0)))
      else ret False)"

definition usertrap_unexpected :: "nat \<Rightarrow> (unit, 'a kernel_state_scheme) routine" where
  "usertrap_unexpected p =
     bind (gets (\<lambda>s. (scause s, pid (procs s p), sepc s, stval s))) (\<lambda>(c, i, pc, va).
     seq (printf (str ''usertrap(): unexpected scause 0x%lx pid=%d'' @ [10]) [Int64 c, Int32 (of_int i)]) (
     seq (printf (str ''            sepc=0x%lx stval=0x%lx'' @ [10]) [Int64 pc, Int64 va]) (
     setkilled p)))"

definition usertrap_cause :: "nat \<Rightarrow> (nat, 'a kernel_state_scheme) routine" where
  "usertrap_cause p =
     bind (gets scause) (\<lambda>cause.
     if cause = 8 then
       bind (killed p) (\<lambda>k.
       seq (only_if k (kexit (- 1))) (
       bind (tf_get p TF_EPC) (\<lambda>pc.
       seq (tf_put p TF_EPC (pc + 4)) (
       seq intr_on (
       seq syscall (
       ret 0))))))
     else
       bind devintr (\<lambda>dev.
       if dev \<noteq> 0 then ret dev else
       bind (usertrap_fault p cause) (\<lambda>ok.
       seq (only_if (\<not> ok) (usertrap_unexpected p)) (
       ret 0))))"

definition usertrap :: "(u64, 'a kernel_state_scheme) routine" where
  "usertrap =
     bind (gets r_sstatus) (\<lambda>st.
     if st AND SSTATUS_SPP \<noteq> 0 then panic ''usertrap: not from user mode'' else
     bind (gets kernelvec_addr) (\<lambda>kv.
     seq (w_stvec kv) (
     bind this_proc (\<lambda>p.
     bind (gets sepc) (\<lambda>pc.
     seq (tf_put p TF_EPC pc) (
     bind (usertrap_cause p) (\<lambda>dev.
     bind (killed p) (\<lambda>k.
     seq (only_if k (kexit (- 1))) (
     seq (only_if (dev = 2) yield) (
     usertrap_end p))))))))))"

definition kerneltrap_end :: "u64 \<Rightarrow> u64 \<Rightarrow> (unit, 'a kernel_state_scheme) routine" where
  "kerneltrap_end pc st = seq (w_sepc pc) (w_sstatus st)"

definition kerneltrap :: "(unit, 'a kernel_state_scheme) routine" where
  "kerneltrap =
     bind (gets (\<lambda>s. (sepc s, r_sstatus s, scause s))) (\<lambda>(pc, st, cause).
     if st AND SSTATUS_SPP = 0 then panic ''kerneltrap: not from supervisor mode'' else
     bind intr_get (\<lambda>on.
     if on then panic ''kerneltrap: interrupts enabled'' else
     bind devintr (\<lambda>dev.
     if dev = 0 then
       bind (gets (\<lambda>s. (sepc s, stval s))) (\<lambda>(pc', va).
       seq (printf (str ''scause=0x%lx sepc=0x%lx stval=0x%lx'' @ [10]) [Int64 cause, Int64 pc', Int64 va]) (
       panic ''kerneltrap''))
     else
       bind (if dev = 2 then myproc else ret None) (\<lambda>me.
       seq (only_if (me \<noteq> None) yield) (
       kerneltrap_end pc st)))))"

section \<open>The first return to user space\<close>

text \<open>What \<open>forkret\<close> jumps to, and with which page table.\<close>

definition forkret :: "(u64 \<times> u64, 'a kernel_state_scheme) routine" where
  "forkret =
     bind this_proc (\<lambda>p.
     seq (release (ProcLock p)) (
     bind (gets forkret_first) (\<lambda>first.
     seq (only_if first (
       seq (ext2fs_iinit ROOTDEV) (
       seq (modify (\<lambda>s. s\<lparr>forkret_first := False\<rparr>)) (
       bind (kexec (str ''/init'') [str ''/init'']) (\<lambda>r.
       seq (tf_put p TF_A0 (of_int r)) (
       bind (tf_get p TF_A0) (\<lambda>a0.
       only_if (a0 = - 1) (panic ''exec /init from ext2 failed'')))))))) (
     seq prepare_return (
     gets (\<lambda>s. (TRAMPOLINE + (userret_addr s - trampoline s), MAKE_SATP (pagetable (procs s p)))))))))"

section \<open>Starting the kernel\<close>

definition main_first :: "(unit, 'a kernel_state_scheme) routine" where
  "main_first =
     seq consoleinit (
     seq printfinit (
     seq (printf [10] []) (
     seq (printf (str ''CINUX is booting...'' @ [10]) []) (
     seq (printf [10] []) (
     seq kinit (
     seq kvminit (
     seq kvminithart (
     seq procinit (
     seq trapinit (
     seq trapinithart (
     seq plicinit (
     seq plicinithart (
     seq binit (
     seq iinit (
     seq fileinit (
     seq virtio_disk_init (
     seq userinit (
     modify (\<lambda>s. s\<lparr>started := True\<rparr>)))))))))))))))))))"

definition main_other :: "nat \<Rightarrow> (unit, 'a kernel_state_scheme) routine" where
  "main_other hart =
     bind (gets started) (\<lambda>st.
     if \<not> st then fail (Spin ''main'') else
     seq (printf (str ''hart %d starting'' @ [10]) [Int32 (of_nat hart)]) (
     seq kvminithart (
     seq trapinithart (
     plicinithart))))"

definition kmain :: "(bool, 'a kernel_state_scheme) routine" where
  "kmain =
     bind cpuid (\<lambda>hart.
     seq (if hart = 0 then main_first else main_other hart) (
     scheduler_enter))"

end
