(* ===== verification/Pipe_Fifo.thy ===== *)
theory Pipe_Fifo
  imports Machine
begin

text \<open>
  A pipe is a queue of at most \<open>PIPESIZE\<close> bytes: \<open>pipewrite\<close> appends to it, \<open>piperead\<close> takes from its front, a writer
  that fills it and a reader that finds it empty sleep.  The counters \<open>nread\<close> and \<open>nwrite\<close> wrap around at 2^32;
  the laws of \<open>ring_size\<close> make the queue independent of that.
\<close>

interpretation pr: ring_size 512
  by unfold_locales simp_all

definition pipe_q :: "pipe \<Rightarrow> byte list" where
  "pipe_q p = ring_list 512 (pdata p) (nread p) (nwrite p)"

definition pipe_ok :: "pipe \<Rightarrow> bool" where
  "pipe_ok p \<longleftrightarrow> length (pipe_q p) \<le> 512"

definition ends :: "pipe \<Rightarrow> bool \<times> bool" where
  "ends p = (readopen p, writeopen p)"

definition pipe_put :: "byte \<Rightarrow> pipe \<Rightarrow> pipe" where
  "pipe_put b p = p\<lparr>pdata := (pdata p)(unat (nwrite p) mod 512 := b), nwrite := nwrite p + 1\<rparr>"

lemma pipe_q_put: "length (pipe_q p) < 512 \<Longrightarrow> pipe_q (pipe_put b p) = pipe_q p @ [b]"
  using pr.put [of "nwrite p" "nread p" "pdata p" b] by (simp add: pipe_q_def pipe_put_def)

lemma ends_put [simp]: "ends (pipe_put b p) = ends p" "readopen (pipe_put b p) = readopen p"
  by (simp_all add: ends_def pipe_put_def)

lemma nread_inc: "nread_update (\<lambda>k. k + 1) p = p\<lparr>nread := nread p + 1\<rparr>"
  by (cases p) simp

lemma pipe_full: "nwrite p = nread p + 512 \<longleftrightarrow> length (pipe_q p) = 512"
proof -
  have "nwrite p = nread p + 512 \<longleftrightarrow> nwrite p - nread p = 512" by (auto simp: algebra_simps)
  then show ?thesis using word_unat_eq_iff [of "nwrite p - nread p" 512] by (simp add: pipe_q_def)
qed

lemma pipe_empty: "nread p = nwrite p \<longleftrightarrow> pipe_q p = []"
  by (simp add: pipe_q_def ring_list_empty)

text \<open>The process \<open>p\<close> is in a system call on the pipe: it holds the pipe's lock, and no process lock is taken.\<close>

definition in_pipe :: "nat \<Rightarrow> u64 \<Rightarrow> ctl \<Rightarrow> 'a file_state_scheme \<Rightarrow> bool" where
  "in_pipe p pi c s \<longleftrightarrow> ctl s = acq (PipeLock pi) c \<and> lock_free (PipeLock pi) c \<and> (\<forall>i. lock_free (ProcLock i) c) \<and>
     cproc (mycpu c) = Some p \<and> noff (mycpu c) = 0"

lemma in_pipe_upd [simp]: "in_pipe p pi c (s\<lparr>pipes := x\<rparr>) = in_pipe p pi c s" "in_pipe p pi c (s\<lparr>mem := m\<rparr>) = in_pipe p pi c s"
  "in_pipe p pi c (s\<lparr>procs := ps\<rparr>) = in_pipe p pi c s"
  by (simp_all add: in_pipe_def)

lemma in_pipe_settled: "in_pipe p pi c s \<Longrightarrow> settle (ctl s) = ctl s"
  by (simp add: in_pipe_def)

lemma in_pipe_lock: "in_pipe p pi c s \<Longrightarrow> lock_free (ProcLock i) (ctl s)"
  by (simp add: in_pipe_def)

lemma in_pipe_killed: "in_pipe p pi c s \<Longrightarrow> killed i s = (Ret (pkilled (procs s i)), s)"
  by (simp add: killed_eq in_pipe_lock in_pipe_settled)

lemma in_pipe_wakeup:
  assumes "in_pipe p pi c s"
  shows "wakeup ch s = (Ret (), s\<lparr>procs := wake_all ch (Some p) (procs s)\<rparr>)"
proof -
  have "procs_free s" using assms by (simp add: procs_free_def in_pipe_def)
  then show ?thesis using wakeup_eq [of s ch] in_pipe_settled [OF assms] assms by (simp add: in_pipe_def)
qed

lemma in_pipe_release: "in_pipe p pi c s \<Longrightarrow> release (PipeLock pi) s = (Ret (), s\<lparr>ctl := settle c\<rparr>)"
  by (simp add: in_pipe_def release_ok)

section \<open>Writing\<close>

lemma pipewrite_step:
  assumes "in_pipe p pi c s" "readopen (pipes s pi)" "\<not> pkilled (procs s p)" "length (pipe_q (pipes s pi)) < 512"
    "user_src p s (va + of_nat i) (b # bs)"
  shows "pipewrite_loop p pi va i (Suc k) s =
    pipewrite_loop p pi va (Suc i) k (s\<lparr>pipes := (pipes s)(pi := pipe_put b (pipes s pi))\<rparr>)"
proof -
  have nf: "nwrite (pipes s pi) \<noteq> nread (pipes s pi) + 512" using assms(4) unfolding pipe_full by simp
  show ?thesis
    using assms(2,3) nf in_pipe_killed [OF assms(1)] user_src_get [OF assms(5)]
    by (simp add: kdefs upd_pipe_def pipe_put_def)
qed

lemma pipewrite_steps:
  assumes "in_pipe p pi c s" "readopen (pipes s pi)" "\<not> pkilled (procs s p)"
    "length (pipe_q (pipes s pi)) + length bs \<le> 512" "user_src p s (va + of_nat i) bs"
  shows "\<exists>q. pipewrite_loop p pi va i (length bs + k) s =
      pipewrite_loop p pi va (i + length bs) k (s\<lparr>pipes := (pipes s)(pi := q)\<rparr>) \<and>
     pipe_q q = pipe_q (pipes s pi) @ bs \<and> ends q = ends (pipes s pi)"
  using assms
proof (induction bs arbitrary: i s)
  case Nil
  then show ?case by (intro exI [of _ "pipes s pi"]) simp
next
  case (Cons b bs)
  let ?q = "pipe_put b (pipes s pi)"
  let ?t = "s\<lparr>pipes := (pipes s)(pi := ?q)\<rparr>"
  have q: "pipe_q ?q = pipe_q (pipes s pi) @ [b]" by (rule pipe_q_put) (use Cons.prems(4) in simp)
  have "user_src p s (va + of_nat (Suc i)) bs" using user_src_next [OF Cons.prems(5)] by (simp add: ac_simps)
  then have "user_src p ?t (va + of_nat (Suc i)) bs"
    by (rule user_src_cong) (use Cons.prems(1) in \<open>simp_all add: in_pipe_def\<close>)
  then obtain q' where q': "pipewrite_loop p pi va (Suc i) (length bs + k) ?t =
      pipewrite_loop p pi va (Suc i + length bs) k (?t\<lparr>pipes := (pipes ?t)(pi := q')\<rparr>)"
      "pipe_q q' = pipe_q (pipes ?t pi) @ bs" "ends q' = ends (pipes ?t pi)"
    using Cons.IH [of ?t "Suc i"] Cons.prems q by fastforce
  have "pipewrite_loop p pi va i (Suc (length bs + k)) s = pipewrite_loop p pi va (Suc i) (length bs + k) ?t"
    by (rule pipewrite_step) (use Cons.prems in auto)
  then show ?case using q' q by (intro exI [of _ q']) (simp del: pipewrite_loop.simps fun_upd_apply add: fun_upd_same)
qed

lemma pipewrite_done_ok:
  assumes "in_pipe p pi c s"
  shows "pipewrite_done pi i s =
    (Ret (int i), s\<lparr>procs := wake_all (ChanPipeRead pi) (Some p) (procs s), ctl := settle c\<rparr>)"
  using in_pipe_wakeup [OF assms] in_pipe_release [of p pi c "s\<lparr>procs := wake_all (ChanPipeRead pi) (Some p) (procs s)\<rparr>"] assms
  by (simp add: pipewrite_done_def seq_def bind_def ret_def)

lemma pipewrite_full:
  assumes "in_pipe p pi c s" "readopen (pipes s pi)" "\<not> pkilled (procs s p)" "length (pipe_q (pipes s pi)) = 512"
  shows "pipewrite_loop p pi va i (Suc k) s = (Swtch, s\<lparr>procs := (wake_all (ChanPipeRead pi) (Some p) (procs s))
      (p := (procs s p)\<lparr>pchan := Some (ChanPipeWrite pi), pstate := SLEEPING\<rparr>), ctl := acq (ProcLock p) c\<rparr>)"
proof -
  have nf: "nwrite (pipes s pi) = nread (pipes s pi) + 512" using assms(4) unfolding pipe_full by simp
  have w: "wake_all (ChanPipeRead pi) (Some p) (procs s) p = procs s p" by (simp add: wake_all_def)
  have "sleep (ChanPipeWrite pi) (PipeLock pi) (s\<lparr>procs := wake_all (ChanPipeRead pi) (Some p) (procs s)\<rparr>) =
      (Swtch, s\<lparr>procs := (wake_all (ChanPipeRead pi) (Some p) (procs s))
      (p := (procs s p)\<lparr>pchan := Some (ChanPipeWrite pi), pstate := SLEEPING\<rparr>), ctl := acq (ProcLock p) c\<rparr>)"
    by (subst sleep_eq [of _ _ c p]) (use assms(1) w in \<open>simp_all add: in_pipe_def\<close>)
  then show ?thesis
    using assms(2,3) nf in_pipe_killed [OF assms(1)] in_pipe_wakeup [OF assms(1)] by (simp add: kdefs)
qed

section \<open>Reading\<close>

lemma pipe_get:
  assumes "pipe_q p = b # bs"
  shows "pdata p (unat (nread p) mod 512) = b" "pipe_q (p\<lparr>nread := nread p + 1\<rparr>) = bs" "nread p \<noteq> nwrite p"
  using pr.get [of "pdata p" "nread p" "nwrite p" b bs] assms by (auto simp: pipe_q_def)

lemma piperead_loop_ok:
  assumes "in_pipe p pi c s" "user_buf p s (va + of_nat i) n"
  shows "\<exists>q m'. piperead_loop p pi va i n s =
      (Ret (int (i + min n (length (pipe_q (pipes s pi))))), s\<lparr>pipes := (pipes s)(pi := q), mem := m'\<rparr>) \<and>
     pipe_q q = drop n (pipe_q (pipes s pi)) \<and> ends q = ends (pipes s pi) \<and>
     uput p s (va + of_nat i) (take n (pipe_q (pipes s pi))) m'"
  using assms
proof (induction n arbitrary: i s)
  case 0
  then show ?case using uput_Nil [of s p "va + of_nat i"]
    by (intro exI [of _ "pipes s pi"] exI [of _ "mem s"]) (simp add: ret_def)
next
  case (Suc n)
  show ?case
  proof (cases "pipe_q (pipes s pi)")
    case Nil
    then have "nread (pipes s pi) = nwrite (pipes s pi)" by (simp add: pipe_empty)
    then show ?thesis using Nil uput_Nil [of s p "va + of_nat i"]
      by (intro exI [of _ "pipes s pi"] exI [of _ "mem s"]) (simp add: kdefs)
  next
    case (Cons b bs)
    note g = pipe_get [OF Cons]
    let ?q = "(pipes s pi)\<lparr>nread := nread (pipes s pi) + 1\<rparr>"
    obtain m1 where m1: "copyout (pagetable (procs s p)) (va + of_nat i) [b] s = (Ret 0, s\<lparr>mem := m1\<rparr>)"
        "uput p s (va + of_nat i) [b] m1"
      using user_buf_byte [OF Suc.prems(2)] by blast
    let ?t = "s\<lparr>mem := m1, pipes := (pipes s)(pi := ?q)\<rparr>"
    have step: "piperead_loop p pi va i (Suc n) s = piperead_loop p pi va (Suc i) n ?t"
      using g m1(1) by (simp add: kdefs upd_pipe_def nread_inc)
    have e: "va + of_nat (Suc i) = va + of_nat i + 1" by simp
    have "user_buf p ?t (va + of_nat (Suc i)) n" unfolding e
      by (rule user_buf_next [OF Suc.prems(2) m1(2)]) (use user_buf_proc [OF Suc.prems(2)] in simp_all)
    then obtain q m' where q: "piperead_loop p pi va (Suc i) n ?t =
        (Ret (int (Suc i + min n (length bs))), ?t\<lparr>pipes := (pipes ?t)(pi := q), mem := m'\<rparr>)"
        "pipe_q q = drop n bs" "ends q = ends (pipes s pi)" "uwritten m1 (pagetable (procs s p)) (va + of_nat i + 1) (take n bs) m'"
      using Suc.IH [of ?t "Suc i"] Suc.prems(1) g(2) unfolding e by (simp add: ends_def fun_upd_same del: fun_upd_apply) blast
    have "uput p s (va + of_nat i) (b # take n bs) m'"
      by (rule uput_Cons [OF Suc.prems(2) m1(2) q(4)]) simp
    then show ?thesis using step q Cons by (intro exI [of _ q] exI [of _ m']) (simp del: piperead_loop.simps fun_upd_apply)
  qed
qed

section \<open>Properties\<close>

text \<open>The caller of a pipe operation: the process \<open>p\<close> runs, no lock is taken.\<close>

lemma enter_pipe:
  assumes "running p s"
  shows "in_pipe p pi (ctl s) (s\<lparr>ctl := acq (PipeLock pi) (ctl s)\<rparr>)"
  using assms by (simp add: in_pipe_def running_def)

lemma enter_pipewrite:
  assumes "running p s"
  shows "pipewrite pi va n s = pipewrite_loop p pi va 0 (nat n) (s\<lparr>ctl := acq (PipeLock pi) (ctl s)\<rparr>)"
  using assms by (simp add: pipewrite_def seq_def bind_def this_proc_eq acquire_ok running_def)

lemma enter_piperead:
  assumes "running p s"
  shows "piperead pi va n s = piperead_wait p pi va (nat n) (s\<lparr>ctl := acq (PipeLock pi) (ctl s)\<rparr>)"
  using assms by (simp add: piperead_def seq_def bind_def this_proc_eq acquire_ok running_def)

lemma pipewrite_room:
  assumes "running p s" "readopen (pipes s pi)" "\<not> pkilled (procs s p)"
    "length (pipe_q (pipes s pi)) + length bs \<le> 512" "user_src p s va bs"
  shows "\<exists>q. pipewrite pi va (int (length bs)) s = (Ret (int (length bs)),
       s\<lparr>ctl := settle (ctl s), pipes := (pipes s)(pi := q), procs := wake_all (ChanPipeRead pi) (Some p) (procs s)\<rparr>) \<and>
     pipe_q q = pipe_q (pipes s pi) @ bs \<and> ends q = ends (pipes s pi)"
proof -
  let ?t = "s\<lparr>ctl := acq (PipeLock pi) (ctl s)\<rparr>"
  note t = enter_pipe [OF assms(1), of pi]
  have "user_src p ?t (va + of_nat 0) bs"
    using user_src_cong [OF assms(5), of ?t] assms(1) by (simp add: running_def)
  then obtain q where q: "pipewrite_loop p pi va 0 (length bs + 0) ?t =
      pipewrite_loop p pi va (0 + length bs) 0 (?t\<lparr>pipes := (pipes ?t)(pi := q)\<rparr>)"
      "pipe_q q = pipe_q (pipes s pi) @ bs" "ends q = ends (pipes s pi)"
    using pipewrite_steps [OF t, of bs va 0 0] assms by auto
  have u: "in_pipe p pi (ctl s) (?t\<lparr>pipes := (pipes ?t)(pi := q)\<rparr>)" using t by simp
  show ?thesis using q pipewrite_done_ok [OF u, of "length bs"] enter_pipewrite [OF assms(1)] by (intro exI [of _ q]) simp
qed

lemma piperead_some:
  assumes "running p s" "user_buf p s va n" "pipe_q (pipes s pi) \<noteq> [] \<or> \<not> writeopen (pipes s pi)"
  shows "\<exists>q m'. piperead pi va (int n) s = (Ret (int (min n (length (pipe_q (pipes s pi))))),
       s\<lparr>ctl := settle (ctl s), pipes := (pipes s)(pi := q), mem := m', procs := wake_all (ChanPipeWrite pi) (Some p) (procs s)\<rparr>) \<and>
     pipe_q q = drop n (pipe_q (pipes s pi)) \<and> ends q = ends (pipes s pi) \<and> uput p s va (take n (pipe_q (pipes s pi))) m'"
proof -
  let ?t = "s\<lparr>ctl := acq (PipeLock pi) (ctl s)\<rparr>"
  note t = enter_pipe [OF assms(1), of pi]
  have "user_buf p ?t (va + of_nat 0) n"
    using user_buf_cong [OF assms(2), of ?t] user_buf_proc [OF assms(2)] by simp
  then obtain q m' where q: "piperead_loop p pi va 0 n ?t =
      (Ret (int (min n (length (pipe_q (pipes s pi))))), ?t\<lparr>pipes := (pipes s)(pi := q), mem := m'\<rparr>)"
      "pipe_q q = drop n (pipe_q (pipes s pi))" "ends q = ends (pipes s pi)" "uput p s va (take n (pipe_q (pipes s pi))) m'"
    using piperead_loop_ok [OF t, of va 0 n] by auto
  have u: "in_pipe p pi (ctl s) (?t\<lparr>pipes := (pipes s)(pi := q), mem := m'\<rparr>)" using t by simp
  have "\<not> (nread (pipes s pi) = nwrite (pipes s pi) \<and> writeopen (pipes s pi))" using assms(3) by (auto simp: pipe_empty)
  then have "piperead_wait p pi va n ?t = (Ret (int (min n (length (pipe_q (pipes s pi))))),
       s\<lparr>ctl := settle (ctl s), pipes := (pipes s)(pi := q), mem := m', procs := wake_all (ChanPipeWrite pi) (Some p) (procs s)\<rparr>)"
    using q(1) in_pipe_wakeup [OF u] in_pipe_release [of p pi "ctl s" "?t\<lparr>pipes := (pipes s)(pi := q), mem := m',
        procs := wake_all (ChanPipeWrite pi) (Some p) (procs s)\<rparr>"] t
    by (auto simp: piperead_wait_def kdefs)
  then show ?thesis using q enter_piperead [OF assms(1)] by (intro exI [of _ q] exI [of _ m']) simp
qed


text \<open>C3. Writing to a pipe.  When the bytes fit, the call returns their number, the queue has them at its end in order,
  the readers are awake and the locks are free.  When they do not fit, the queue is filled up with the first of
  them, the readers are awake, and the writer sleeps on the pipe until there is room.\<close>

theorem pipewrite_queues:
  assumes "running p s" "readopen (pipes s pi)" "\<not> pkilled (procs s p)" "pipe_ok (pipes s pi)" "user_src p s va bs"
  shows "if length (pipe_q (pipes s pi)) + length bs \<le> 512
    then \<exists>s'. pipewrite pi va (int (length bs)) s = (Ret (int (length bs)), s') \<and> ctl s' = settle (ctl s) \<and>
       pipe_q (pipes s' pi) = pipe_q (pipes s pi) @ bs \<and> pipe_ok (pipes s' pi) \<and> mem s' = mem s \<and>
       procs s' = wake_all (ChanPipeRead pi) (Some p) (procs s)
    else \<exists>s'. pipewrite pi va (int (length bs)) s = (Swtch, s') \<and> ctl s' = acq (ProcLock p) (ctl s) \<and>
       pipe_q (pipes s' pi) = pipe_q (pipes s pi) @ take (512 - length (pipe_q (pipes s pi))) bs \<and>
       pipe_ok (pipes s' pi) \<and> mem s' = mem s \<and>
       procs s' = (wake_all (ChanPipeRead pi) (Some p) (procs s))
         (p := (procs s p)\<lparr>pchan := Some (ChanPipeWrite pi), pstate := SLEEPING\<rparr>)"
proof (cases "length (pipe_q (pipes s pi)) + length bs \<le> 512")
  case True
  then obtain q where "pipewrite pi va (int (length bs)) s = (Ret (int (length bs)),
       s\<lparr>ctl := settle (ctl s), pipes := (pipes s)(pi := q), procs := wake_all (ChanPipeRead pi) (Some p) (procs s)\<rparr>)"
     "pipe_q q = pipe_q (pipes s pi) @ bs"
    using pipewrite_room [OF assms(1-3) _ assms(5)] by blast
  then show ?thesis using True by (simp add: pipe_ok_def)
next
  case False
  define as where "as = take (512 - length (pipe_q (pipes s pi))) bs"
  let ?t = "s\<lparr>ctl := acq (PipeLock pi) (ctl s)\<rparr>"
  note t = enter_pipe [OF assms(1), of pi]
  have len: "length (pipe_q (pipes s pi)) + length as = 512" using False assms(4) by (simp add: as_def pipe_ok_def)
  have "user_src p s va as" using assms(5) unfolding user_src_def as_def by simp
  then have "user_src p ?t (va + of_nat 0) as"
    using user_src_cong [of p s va as ?t] assms(1) by (simp add: running_def)
  moreover obtain k where k: "length bs = length as + Suc k" using False len by (metis add_Suc_right less_imp_Suc_add nat_add_left_cancel_less not_le)
  ultimately obtain q where q: "pipewrite_loop p pi va 0 (length bs) ?t =
      pipewrite_loop p pi va (length as) (Suc k) (?t\<lparr>pipes := (pipes s)(pi := q)\<rparr>)"
      "pipe_q q = pipe_q (pipes s pi) @ as" "ends q = ends (pipes s pi)"
    using pipewrite_steps [OF t, of as va 0 "Suc k"] assms(2,3) len by auto
  have "pipewrite_loop p pi va (length as) (Suc k) (?t\<lparr>pipes := (pipes s)(pi := q)\<rparr>) =
     (Swtch, ?t\<lparr>pipes := (pipes s)(pi := q), procs := (wake_all (ChanPipeRead pi) (Some p) (procs s))
      (p := (procs s p)\<lparr>pchan := Some (ChanPipeWrite pi), pstate := SLEEPING\<rparr>), ctl := acq (ProcLock p) (ctl s)\<rparr>)"
    by (subst pipewrite_full [of p pi "ctl s"]) (use t assms(2,3) q(2,3) len in \<open>simp_all add: ends_def\<close>)
  then show ?thesis using False q len enter_pipewrite [OF assms(1)] by (simp add: pipe_ok_def as_def)
qed

text \<open>C4. Reading from a pipe that has bytes, or that has no writer left: the call returns the smaller of the number asked for
  and the number queued, the front of the queue is at the reader's buffer and gone from the queue, and the writers
  are awake.\<close>

theorem piperead_takes:
  assumes "running p s" "user_buf p s va n" "pipe_q (pipes s pi) \<noteq> [] \<or> \<not> writeopen (pipes s pi)"
  shows "\<exists>s'. piperead pi va (int n) s = (Ret (int (min n (length (pipe_q (pipes s pi))))), s') \<and> ctl s' = settle (ctl s) \<and>
     pipe_q (pipes s' pi) = drop n (pipe_q (pipes s pi)) \<and> uput p s va (take n (pipe_q (pipes s pi))) (mem s') \<and>
     procs s' = wake_all (ChanPipeWrite pi) (Some p) (procs s)"
  using piperead_some [OF assms] by (elim exE conjE) simp

text \<open>C14. What is written to an empty pipe is what is read from it: after a write of \<open>bs\<close> a read of as many bytes leaves
  \<open>bs\<close> at the destination and the pipe empty.\<close>

theorem pipe_roundtrip:
  assumes "running p s" "readopen (pipes s pi)" "\<not> pkilled (procs s p)" "pipe_q (pipes s pi) = []"
    "0 < length bs" "length bs \<le> 512" "user_src p s src bs" "user_buf p s dst (length bs)"
  shows "\<exists>s' s''. pipewrite pi src (int (length bs)) s = (Ret (int (length bs)), s') \<and>
     piperead pi dst (int (length bs)) s' = (Ret (int (length bs)), s'') \<and>
     uput p s dst bs (mem s'') \<and> pipe_q (pipes s'' pi) = []"
proof -
  obtain q where q: "pipewrite pi src (int (length bs)) s = (Ret (int (length bs)),
       s\<lparr>ctl := settle (ctl s), pipes := (pipes s)(pi := q), procs := wake_all (ChanPipeRead pi) (Some p) (procs s)\<rparr>)"
     "pipe_q q = bs"
    using pipewrite_room [OF assms(1-3) _ assms(7)] assms(4,6) by auto
  let ?s = "s\<lparr>ctl := settle (ctl s), pipes := (pipes s)(pi := q), procs := wake_all (ChanPipeRead pi) (Some p) (procs s)\<rparr>"
  have w: "procs ?s p = procs s p" by (simp add: wake_all_def)
  have r: "running p ?s" using assms(1) by (simp add: running_def)
  have "user_buf p ?s dst (length bs)"
    by (rule user_buf_cong [OF assms(8)]) (use w user_buf_proc [OF assms(8)] in simp_all)
  then obtain q' m' where "piperead pi dst (int (length bs)) ?s = (Ret (int (length bs)), ?s\<lparr>ctl := settle (ctl ?s),
      pipes := (pipes ?s)(pi := q'), mem := m', procs := wake_all (ChanPipeWrite pi) (Some p) (procs ?s)\<rparr>)"
      "pipe_q q' = []" "uput p ?s dst bs m'"
    using piperead_some [OF r, of dst "length bs" pi] q(2) assms(5) by auto
  then show ?thesis using q w by auto
qed


lemma null_pipe_simps [simp]: "pipe_q null_pipe = []" "pipe_ok null_pipe" "readopen null_pipe" "writeopen null_pipe"
  by (simp_all add: pipe_q_def pipe_ok_def null_pipe_def)

theorem pipewrite_queues_witness:
  "\<exists>s'. pipewrite 0x80200000 0x20 2 (file_boot ()) = (Ret 2, s') \<and> pipe_q (pipes s' 0x80200000) = [0, 0]"
  using pipewrite_queues [of 0 "file_boot ()" "0x80200000" "0x20" "[0, 0]"] file_boot_running [of "()"] demo_src [of "file_boot ()"]
  by (auto simp: demo_proc_def)

definition piped :: file_state where
  "piped = (file_boot ())\<lparr>pipes := (\<lambda>_. pipe_put 7 null_pipe)\<rparr>"

theorem piperead_takes_witness:
  "\<exists>s'. piperead 0x80200000 0x20 3 piped = (Ret 1, s') \<and> pipe_q (pipes s' 0x80200000) = [] \<and>
     uwritten demo ROOT 0x20 [7] (mem s')"
proof -
  have "pipe_q (pipes piped 0x80200000) = [7]" using pipe_q_put [of null_pipe 7] by (simp add: piped_def)
  moreover have "running 0 piped" using file_boot_running [of "()"] by (simp add: piped_def running_def)
  moreover have "user_buf 0 piped 0x20 3" by (rule demo_buf) (simp_all add: piped_def)
  ultimately show ?thesis using piperead_takes [of 0 piped "0x20" 3 "0x80200000"] by (auto simp: piped_def)
qed

theorem pipe_roundtrip_witness:
  "\<exists>s' s''. pipewrite 0x80200000 0x20 2 (file_boot ()) = (Ret 2, s') \<and> piperead 0x80200000 0x20 2 s' = (Ret 2, s'') \<and>
     uwritten demo ROOT 0x20 [0, 0] (mem s'')"
  using pipe_roundtrip [of 0 "file_boot ()" "0x80200000" "[0, 0]" "0x20" "0x20"] file_boot_running [of "()"] demo_src [of "file_boot ()"]
    demo_buf [of "file_boot ()" "length [0 :: byte, 0]"]
  by (auto simp: demo_proc_def)


end
