(* ===== verification/User.thy ===== *)
theory User
  imports Asm Trap Pipe_Fifo
begin

text \<open>
  User programs and the kernel: \<open>user/usys.S\<close>, \<open>user/init.c\<close> and the system-call layer of the C library,
  \<open>mlibc/sysdeps/cinux/generic/syscalls.cpp\<close> and \<open>entry.cpp\<close>, down to the kernel and back.  An \<open>ecall\<close> is what the
  processor does with it, then \<open>uservec\<close> of the trampoline, \<open>usertrap\<close>, and \<open>userret\<close>, each as modelled for the kernel.

  A user program is its registers and the address of the instruction; both are arguments, since they are the
  compiler's choice.  The memory of the process is the memory of the machine behind its page table.
\<close>

section \<open>Into the kernel and out of it\<close>

text \<open>A trap from user mode to supervisor mode, and \<open>sret\<close> back to user mode.\<close>

definition trap_enter :: "u64 \<Rightarrow> u64 \<Rightarrow> (unit, 'a kernel_state_scheme) routine" where
  "trap_enter pc cause = modify (\<lambda>s. s\<lparr>sepc := pc, scause := cause,
     sstatus := (sstatus s AND NOT (SSTATUS_SPP OR SSTATUS_SPIE)) OR (if sie (ctl s) then SSTATUS_SPIE else 0),
     ctl := (ctl s)\<lparr>sie := False\<rparr>\<rparr>)"

definition trap_return :: "(unit, 'a kernel_state_scheme) routine" where
  "trap_return = modify (\<lambda>s. s\<lparr>ctl := (ctl s)\<lparr>sie := sstatus s AND SSTATUS_SPIE \<noteq> 0\<rparr>,
     sstatus := (sstatus s AND NOT SSTATUS_SPP) OR SSTATUS_SPIE\<rparr>)"

text \<open>The trap goes to \<open>stvec\<close>, which has to be \<open>uservec\<close>; \<open>uservec\<close> goes to the address in the trapframe, which has to
  be \<open>usertrap\<close>, with the hart's number in \<open>tp\<close>; \<open>usertrap\<close> returns to \<open>userret\<close>, which follows the call, with the page
  table of the process in \<open>a0\<close>.\<close>

definition enter_kernel :: "(reg \<Rightarrow> u64) \<Rightarrow> (unit, 'a kernel_state_scheme) routine" where
  "enter_kernel regs =
     bind (gets (\<lambda>s. stvec s = TRAMPOLINE + (uservec_addr s - trampoline s))) (\<lambda>ok.
     if \<not> ok then undef ''stvec'' else
     bind (gets (\<lambda>s. exec (uservec (userret_addr s))
       \<lparr>xr = regs, acsr = (\<lambda>_. 0)(Satp := satp s), amem = mem s, apc = stvec s\<rparr>)) (\<lambda>r.
     case r of None \<Rightarrow> undef ''uservec'' | Some t \<Rightarrow>
       bind (gets usertrap_addr) (\<lambda>ut.
       if apc t \<noteq> ut then undef ''kernel_trap'' else
       modify (\<lambda>s. s\<lparr>mem := amem t, satp := acsr t Satp, ctl := (ctl s)\<lparr>hartid := unat (xr t TP)\<rparr>\<rparr>))))"

definition leave_kernel :: "u64 \<Rightarrow> (u64 \<times> (reg \<Rightarrow> u64), 'a kernel_state_scheme) routine" where
  "leave_kernel at =
     bind (gets (\<lambda>s. exec userret
       \<lparr>xr = (\<lambda>_. 0)(A0 := at), acsr = (\<lambda>_. 0)(Satp := satp s, Sepc := sepc s), amem = mem s, apc = userret_addr s\<rparr>)) (\<lambda>r.
     case r of None \<Rightarrow> undef ''userret'' | Some t \<Rightarrow>
       seq (modify (\<lambda>s. s\<lparr>mem := amem t, satp := acsr t Satp\<rparr>)) (
       seq trap_return (
       ret (apc t, xr t))))"

definition ecall :: "u64 \<Rightarrow> (reg \<Rightarrow> u64) \<Rightarrow> (u64 \<times> (reg \<Rightarrow> u64), 'a kernel_state_scheme) routine" where
  "ecall pc regs =
     seq (trap_enter pc 8) (
     seq (enter_kernel regs) (
     bind usertrap leave_kernel))"

section \<open>The stubs of \<open>usys.S\<close>\<close>

definition usys :: "string \<Rightarrow> u64 option" where
  "usys = map_of [(''fork'', 1), (''exit'', 2), (''wait'', 3), (''pipe'', 4), (''read'', 5), (''write'', 16), (''close'', 21),
     (''kill'', 6), (''exec'', 7), (''open'', 15), (''mknod'', 17), (''unlink'', 18), (''fstat'', 8), (''link'', 19),
     (''mkdir'', 20), (''chdir'', 9), (''dup'', 10), (''getpid'', 11), (''sys_sbrk'', 12), (''pause'', 13), (''uptime'', 14)]"

text \<open>\<open>pc\<close> is the address of the stub's \<open>ecall\<close>; its \<open>ret\<close> follows.  The kernel may resume the process elsewhere, as
  \<open>exec\<close> does.\<close>

definition usys_stub :: "string \<Rightarrow> u64 \<Rightarrow> (reg \<Rightarrow> u64) \<Rightarrow> (u64 \<times> (reg \<Rightarrow> u64), 'a kernel_state_scheme) routine" where
  "usys_stub name pc regs =
     (case usys name of None \<Rightarrow> undef ''no such stub'' | Some num \<Rightarrow>
      bind (ecall pc (regs(A7 := num))) (\<lambda>(pc', regs').
      ret (if pc' = pc + 4 then regs' RA else pc', regs')))"

text \<open>\<open>main\<close> of \<open>init.c\<close>: if \<open>exec\<close> returns, the program loops.  \<open>path\<close> and \<open>argv\<close> are the addresses of its strings.\<close>

definition init_main :: "u64 \<Rightarrow> (reg \<Rightarrow> u64) \<Rightarrow> u64 \<Rightarrow> u64 \<Rightarrow> (u64 \<times> (reg \<Rightarrow> u64), 'a kernel_state_scheme) routine" where
  "init_main pc regs path argv =
     bind (usys_stub ''exec'' pc (regs(A0 := path, A1 := argv))) (\<lambda>(pc', regs').
     if pc' = regs RA then fail Loops else ret (pc', regs'))"

section \<open>The C library\<close>

type_synonym user_context = "u64 \<times> (reg \<Rightarrow> u64)"

abbreviation (input) ENOENT :: int where "ENOENT \<equiv> 2"
abbreviation (input) ENOMEM :: int where "ENOMEM \<equiv> 12"
abbreviation (input) EINVAL :: int where "EINVAL \<equiv> 22"
abbreviation (input) ENOSYS :: int where "ENOSYS \<equiv> 38"

text \<open>\<open>__syscall\<close>, in the context in which the compiler has put the \<open>ecall\<close>; a call that resumes elsewhere does not return.\<close>

definition m_syscall :: "user_context \<Rightarrow> u64 \<Rightarrow> u64 \<Rightarrow> u64 \<Rightarrow> u64 \<Rightarrow> u64 \<Rightarrow> u64 \<Rightarrow> u64 \<Rightarrow> (u64, 'a kernel_state_scheme) routine" where
  "m_syscall k num a0 a1 a2 a3 a4 a5 =
     bind (ecall (fst k) ((snd k)(A7 := num, A0 := a0, A1 := a1, A2 := a2, A3 := a3, A4 := a4, A5 := a5))) (\<lambda>(pc, regs).
     if pc \<noteq> fst k + 4 then undef ''__syscall'' else ret (regs A0))"

text \<open>The functions return the error number and what they store through their last argument.\<close>

definition m_sys_clock_get :: "int \<Rightarrow> int \<times> u64 \<times> u64" where
  "m_sys_clock_get clock = (0, 0, 0)"

definition m_sys_anon_allocate :: "user_context \<Rightarrow> u64 \<Rightarrow> (int \<times> u64 option, 'a kernel_state_scheme) routine" where
  "m_sys_anon_allocate k n =
     bind (m_syscall k 12 n 0 0 0 0 0) (\<lambda>r.
     if r = - 1 then ret (ENOMEM, None) else ret (0, Some r))"

definition m_sys_anon_free :: "u64 \<Rightarrow> u64 \<Rightarrow> int" where
  "m_sys_anon_free pointer n = 0"

definition m_sys_write :: "user_context \<Rightarrow> u32 \<Rightarrow> u64 \<Rightarrow> u64 \<Rightarrow> (int \<times> u64 option, 'a kernel_state_scheme) routine" where
  "m_sys_write k fd buf count =
     bind (m_syscall k 16 (scast fd) buf count 0 0 0) (\<lambda>r.
     if sint r < 0 then ret (EINVAL, None) else ret (0, Some r))"

definition m_sys_read :: "user_context \<Rightarrow> u32 \<Rightarrow> u64 \<Rightarrow> u64 \<Rightarrow> (int \<times> u64 option, 'a kernel_state_scheme) routine" where
  "m_sys_read k fd buf count =
     bind (m_syscall k 5 (scast fd) buf count 0 0 0) (\<lambda>r.
     if sint r < 0 then ret (EINVAL, None) else ret (0, Some r))"

definition m_sys_open :: "user_context \<Rightarrow> u64 \<Rightarrow> u32 \<Rightarrow> u32 \<Rightarrow> (int \<times> u32 option, 'a kernel_state_scheme) routine" where
  "m_sys_open k path flags mode =
     bind (m_syscall k 15 path (scast flags) 0 0 0 0) (\<lambda>r.
     if sint r < 0 then ret (ENOENT, None) else ret (0, Some (ucast r)))"

definition m_sys_close :: "user_context \<Rightarrow> u32 \<Rightarrow> (int, 'a kernel_state_scheme) routine" where
  "m_sys_close k fd =
     bind (m_syscall k 21 (scast fd) 0 0 0 0 0) (\<lambda>r. ret (if sint r < 0 then EINVAL else 0))"

definition m_sys_seek :: "u32 \<Rightarrow> u64 \<Rightarrow> u32 \<Rightarrow> int" where
  "m_sys_seek fd offset whence = ENOSYS"

definition m_sys_vm_map :: "user_context \<Rightarrow> u64 \<Rightarrow> u64 \<Rightarrow> u32 \<Rightarrow> u32 \<Rightarrow> u32 \<Rightarrow> u64 \<Rightarrow> (int \<times> u64 option, 'a kernel_state_scheme) routine" where
  "m_sys_vm_map k hint n prot flags fd offset = m_sys_anon_allocate k n"

definition m_sys_futex_wait :: "u64 \<Rightarrow> u32 \<Rightarrow> u64 \<Rightarrow> int" where
  "m_sys_futex_wait pointer expected time = 0"

definition m_sys_futex_wake :: "u64 \<Rightarrow> int" where
  "m_sys_futex_wake pointer = 0"

definition m_sys_tcb_set :: "u64 \<Rightarrow> (reg \<Rightarrow> u64) \<Rightarrow> int \<times> (reg \<Rightarrow> u64)" where
  "m_sys_tcb_set pointer regs = (0, regs(TP := pointer))"

definition m_sys_exit :: "user_context \<Rightarrow> u32 \<Rightarrow> (unit, 'a kernel_state_scheme) routine" where
  "m_sys_exit k status = bind (m_syscall k 2 (scast status) 0 0 0 0 0) (\<lambda>_. fail Loops)"

text \<open>\<open>while(message[len]) len++\<close> on the memory of process \<open>p\<close>; reading a page that is not there is a page fault.\<close>

definition user_strlen :: "nat \<Rightarrow> u64 \<Rightarrow> (nat, 'a kernel_state_scheme) routine" where
  "user_strlen p message =
     bind (gets (\<lambda>s. (mem s, pagetable (procs s p)))) (\<lambda>(m, pt).
     case strlen (\<lambda>i. ubyte m pt (message + of_nat i)) of None \<Rightarrow> fail Loops | Some n \<Rightarrow>
     if list_all (\<lambda>i. upage m pt (PGROUNDDOWN (message + of_nat i))) [0..<Suc n] then ret n else undef ''page fault'')"

definition m_sys_libc_log :: "nat \<Rightarrow> user_context \<Rightarrow> user_context \<Rightarrow> u64 \<Rightarrow> u64 \<Rightarrow> (unit, 'a kernel_state_scheme) routine" where
  "m_sys_libc_log p k1 k2 message newline =
     bind (user_strlen p message) (\<lambda>len.
     bind (m_sys_write k1 2 message (of_nat len)) (\<lambda>_.
     bind (m_sys_write k2 2 newline 1) (\<lambda>_.
     skip)))"

definition m_sys_libc_panic :: "nat \<Rightarrow> user_context \<Rightarrow> user_context \<Rightarrow> user_context \<Rightarrow> u64 \<Rightarrow> u64 \<Rightarrow> (unit, 'a kernel_state_scheme) routine" where
  "m_sys_libc_panic p k1 k2 k3 message newline =
     seq (m_sys_libc_log p k1 k2 message newline) (
     m_sys_exit k3 1)"

definition m_sys_vm_unmap :: "u64 \<Rightarrow> u64 \<Rightarrow> int" where
  "m_sys_vm_unmap pointer n = 0"

text \<open>\<open>entry.cpp\<close>: \<open>_start\<close> hands a function pointer to an empty function and returns.\<close>

definition entry_stack_dtm :: "u64 \<Rightarrow> 's \<Rightarrow> 's" where
  "entry_stack_dtm ptr s = s"

definition start_user :: "u64 \<Rightarrow> 's \<Rightarrow> 's" where
  "start_user dlapi_entrystack s = entry_stack_dtm dlapi_entrystack s"


section \<open>A system call in the kernel\<close>

lemma settle_on: "settle ((settle c)\<lparr>sie := x\<rparr>) = settle (c\<lparr>sie := x\<rparr>)" if "noff (mycpu c) = 0"
  using that by (simp add: settle_def upd_mycpu_def mycpu_def)

lemma sie_settle: "noff (mycpu c) = 0 \<Longrightarrow> sie (settle c) = sie c"
  by (simp add: settle_def upd_mycpu_def)

lemma sie_upd [simp]: "mycpu (c\<lparr>sie := x\<rparr>) = mycpu c" "lock_free lk (c\<lparr>sie := x\<rparr>) = lock_free lk c"
  by (simp_all add: mycpu_def lock_free_def)

lemma tf_get_eq: "trapframe (procs s p) = tf \<Longrightarrow> tf \<noteq> 0 \<Longrightarrow> tf_get p off s = (Ret (load64 (mem s) (tf + off)), s)"
  by (simp add: tf_get_def ldw_def kdefs)

lemma tf_put_eq: "trapframe (procs s p) = tf \<Longrightarrow> tf \<noteq> 0 \<Longrightarrow> tf_put p off v s = (Ret (), s\<lparr>mem := store64 (mem s) (tf + off) v\<rparr>)"
  by (simp add: tf_put_def stw_def kdefs)

lemma syscall_eq:
  assumes "cproc (mycpu (ctl s)) = Some p" "trapframe (procs s p) = tf" "tf \<noteq> 0"
    and "syscalls (sint (ucast (load64 (mem s) (tf + TF_A7)) :: u32)) = Some f"
    and "f (s\<lparr>ctl := settle (ctl s)\<rparr>) = (Ret v, t)" "trapframe (procs t p) = tf"
  shows "syscall s = (Ret (), t\<lparr>mem := store64 (mem t) (tf + TF_A0) v\<rparr>)"
  using assms by (simp add: syscall_def bind_def this_proc_eq tf_get_eq [of _ p tf] tf_put_eq [of _ p tf])

text \<open>The state a handler starts in when \<open>usertrap\<close> is entered in state \<open>s\<close> for process \<open>p\<close>.\<close>

definition handler_state :: "u64 \<Rightarrow> 'a kernel_state_scheme \<Rightarrow> 'a kernel_state_scheme" where
  "handler_state tf s = s\<lparr>stvec := kernelvec_addr s,
     mem := store64 (store64 (mem s) (tf + TF_EPC) (sepc s)) (tf + TF_EPC) (sepc s + 4), ctl := settle ((ctl s)\<lparr>sie := True\<rparr>)\<rparr>"

lemma usertrap_cause_syscall:
  assumes "running p s" "scause s = 8" "\<not> pkilled (procs s p)" "trapframe (procs s p) = tf" "tf \<noteq> 0"
    and "syscalls (sint (ucast (load64 (store64 (mem s) (tf + TF_EPC) (load64 (mem s) (tf + TF_EPC) + 4)) (tf + TF_A7)) :: u32)) = Some f"
    and "f (s\<lparr>mem := store64 (mem s) (tf + TF_EPC) (load64 (mem s) (tf + TF_EPC) + 4), ctl := settle ((ctl s)\<lparr>sie := True\<rparr>)\<rparr>) = (Ret v, t)"
    and "trapframe (procs t p) = tf"
  shows "usertrap_cause p s = (Ret 0, t\<lparr>mem := store64 (mem t) (tf + TF_A0) v\<rparr>)"
proof -
  let ?m = "store64 (mem s) (tf + TF_EPC) (load64 (mem s) (tf + TF_EPC) + 4)"
  let ?s = "s\<lparr>mem := ?m, ctl := (settle (ctl s))\<lparr>sie := True\<rparr>\<rparr>"
  have "syscall ?s = (Ret (), t\<lparr>mem := store64 (mem t) (tf + TF_A0) v\<rparr>)"
    by (rule syscall_eq [where f = f]) (use assms in \<open>simp_all add: running_def settle_on\<close>)
  moreover have "lock_free (ProcLock p) (ctl s)" using assms(1) by (simp add: running_def)
  ultimately show ?thesis
    using assms(2-5) by (simp add: usertrap_cause_def kdefs killed_eq tf_get_eq [of _ p tf] tf_put_eq [of _ p tf] intr_on_def)
qed

lemma running_upd_proc:
  "running p s \<Longrightarrow> mycpu (ctl t) = mycpu (ctl s) \<Longrightarrow> locks (ctl t) = locks (ctl s) \<Longrightarrow> running p t"
  by (simp add: running_def lock_free_def)

lemma usertrap_syscall:
  assumes "running p s" "scause s = 8" "r_sstatus s AND SSTATUS_SPP = 0" "\<not> pkilled (procs s p)"
    and tf: "trapframe (procs s p) = tf" "tf \<noteq> 0"
    and f: "syscalls (sint (ucast (load64 (mem (handler_state tf s)) (tf + TF_A7)) :: u32)) = Some f"
      "f (handler_state tf s) = (Ret v, t)"
    and t: "running p t" "\<not> pkilled (procs t p)" "trapframe (procs t p) = tf"
  shows "usertrap s = usertrap_end p (t\<lparr>mem := store64 (mem t) (tf + TF_A0) v, ctl := settle (ctl t)\<rparr>)"
proof -
  let ?s = "s\<lparr>stvec := kernelvec_addr s, ctl := settle (ctl s), mem := store64 (mem s) (tf + TF_EPC) (sepc s)\<rparr>"
  have n: "noff (mycpu (ctl s)) = 0" "cproc (mycpu (ctl s)) = Some p" using assms(1) by (simp_all add: running_def)
  have "running p ?s" using assms(1) by (simp add: running_def)
  then have "usertrap_cause p ?s = (Ret 0, t\<lparr>mem := store64 (mem t) (tf + TF_A0) v\<rparr>)"
    by (rule usertrap_cause_syscall [where f = f]) (use assms n in \<open>simp_all add: handler_state_def settle_on\<close>)
  moreover have "lock_free (ProcLock p) (ctl t)" using t(1) by (simp add: running_def)
  ultimately show ?thesis
    using assms(3) n tf t
    by (simp add: usertrap_def kdefs w_stvec_def this_proc_eq tf_put_eq [of _ p tf] killed_eq)
qed


section \<open>The way back\<close>

definition return_frame :: "u64 \<Rightarrow> 'a kernel_state_scheme \<Rightarrow> nat \<Rightarrow> memory" where
  "return_frame tf s p = store64 (store64 (store64 (store64 (mem s) (tf + TF_KERNEL_SATP) (satp s))
     (tf + TF_KERNEL_SP) (kstack (procs s p) + PGSIZE)) (tf + TF_KERNEL_TRAP) (usertrap_addr s))
     (tf + TF_KERNEL_HARTID) (of_nat (hartid (ctl s)))"

lemma spie_bits: "((x AND NOT SSTATUS_SPP) OR SSTATUS_SPIE) AND SSTATUS_SPIE \<noteq> 0"
  "(((x AND NOT SSTATUS_SIE) AND NOT SSTATUS_SPP) OR SSTATUS_SPIE) AND SSTATUS_SIE = 0"
proof -
  have "bit (((x AND NOT SSTATUS_SPP) OR SSTATUS_SPIE) AND SSTATUS_SPIE) 5" by (simp add: bit_simps)
  then show "((x AND NOT SSTATUS_SPP) OR SSTATUS_SPIE) AND SSTATUS_SPIE \<noteq> 0" by (metis bit_0_eq bot_apply bot_bool_def)
  show "(((x AND NOT SSTATUS_SIE) AND NOT SSTATUS_SPP) OR SSTATUS_SPIE) AND SSTATUS_SIE = 0"
    by (rule bit_word_eqI) (auto simp: bit_simps)
qed

lemma usertrap_end_eq:
  assumes "cproc (mycpu (ctl s)) = Some p" "trapframe (procs s p) = tf" "tf \<noteq> 0"
  shows "\<exists>x. x AND SSTATUS_SPIE \<noteq> 0 \<and> usertrap_end p s = (Ret (MAKE_SATP (pagetable (procs s p))),
    s\<lparr>stvec := TRAMPOLINE + (uservec_addr s - trampoline s), mem := return_frame tf s p, sstatus := x,
      ctl := (settle (ctl s))\<lparr>sie := False\<rparr>, sepc := load64 (return_frame tf s p) (tf + TF_EPC)\<rparr>)"
proof -
  let ?x = "((sstatus s AND NOT SSTATUS_SIE) AND NOT SSTATUS_SPP) OR SSTATUS_SPIE"
  have "usertrap_end p s = (Ret (MAKE_SATP (pagetable (procs s p))),
    s\<lparr>stvec := TRAMPOLINE + (uservec_addr s - trampoline s), mem := return_frame tf s p, sstatus := ?x,
      ctl := (settle (ctl s))\<lparr>sie := False\<rparr>, sepc := load64 (return_frame tf s p) (tf + TF_EPC)\<rparr>)"
    using assms spie_bits(2) [of "sstatus s"]
    by (simp add: usertrap_end_def prepare_return_def kdefs this_proc_eq tf_get_eq [of _ p tf] tf_put_eq [of _ p tf]
        intr_off_def w_stvec_def w_sstatus_def w_sepc_def r_sstatus_def return_frame_def)
  then show ?thesis using spie_bits(1) by blast
qed

section \<open>A process in user mode\<close>

text \<open>The page of the trapframe, where \<open>proc_pagetable\<close> maps it, is not one the process can reach.\<close>

definition tf_mapped :: "memory \<Rightarrow> u64 \<Rightarrow> u64 \<Rightarrow> bool" where
  "tf_mapped m pt tf \<longleftrightarrow> aligned tf \<and> tf \<noteq> 0 \<and> tf \<notin> nodes m pt \<and> PTE2PA (ent m pt TRAPFRAME) = tf \<and>
     ent m pt TRAPFRAME AND PTE_V \<noteq> 0 \<and> ent m pt TRAPFRAME AND PTE_U = 0 \<and>
     ent m pt TRAPFRAME AND PTE_R \<noteq> 0 \<and> ent m pt TRAPFRAME AND PTE_W \<noteq> 0"

definition user_mode :: "nat \<Rightarrow> 'a kernel_state_scheme \<Rightarrow> bool" where
  "user_mode p s \<longleftrightarrow> running p s \<and> (\<exists>xs. pt_ok xs (mem s) (pagetable (procs s p))) \<and>
     tf_mapped (mem s) (pagetable (procs s p)) (trapframe (procs s p)) \<and>
     satp s = MAKE_SATP (pagetable (procs s p)) \<and> stvec s = TRAMPOLINE + (uservec_addr s - trampoline s) \<and>
     load64 (mem s) (trapframe (procs s p) + TF_KERNEL_TRAP) = usertrap_addr s \<and>
     load64 (mem s) (trapframe (procs s p) + TF_KERNEL_HARTID) = of_nat (hartid (ctl s)) \<and> hartid (ctl s) < 2 ^ 64"

lemma tf_window:
  assumes "pt_ok xs m pt" "tf_mapped m pt tf"
  shows "window {tf} m (MAKE_SATP pt) TRAPFRAME tf"
proof -
  have "aligned TRAPFRAME" "TRAPFRAME < MAXVA" by (simp_all add: aligned_def)
  from window_mapped [OF assms(1) this, of "{tf}"] show ?thesis using assms(2) unfolding tf_mapped_def by simp
qed

lemma outside_page: "outside {q} m m' \<longleftrightarrow> (\<forall>x. \<not> in_page q x \<longrightarrow> m' x = m x)"
  by (simp add: outside_def)

lemma outside_nodes:
  assumes "outside {tf} m m'" "pt_ok xs m pt" "tf_mapped m pt tf"
  shows "same_on (nodes m pt) m m'"
  unfolding same_on_def
proof (intro ballI allI impI)
  fix q x
  assume q: "q \<in> nodes m pt" "in_page q x"
  moreover have "aligned q" using pt_ok_nodes [OF assms(2) q(1)] by simp
  ultimately have "\<not> in_page tf x" using assms(3) pages_disjoint [of tf q x] unfolding tf_mapped_def by blast
  then show "m x = m' x" using assms(1) by (simp add: outside_page)
qed

lemma tf_mapped_same: "same_on (nodes m pt) m m' \<Longrightarrow> tf_mapped m' pt tf = tf_mapped m pt tf"
  unfolding tf_mapped_def by (simp add: nodes_same user_same(1))

lemma outside_store: "k + 8 \<le> 4096 \<Longrightarrow> outside {tf} m m' \<Longrightarrow> outside {tf} m (store64 m' (tf + of_nat k) v)"
  by (simp add: outside_page store64_page)

text \<open>What is under way of the registers in the trapframe while the kernel works.\<close>

lemma saved_all:
  "load64 (save_regs tf (frame_slots @ [(A0, 112)]) regs m) (tf + of_nat (tf_off r)) = regs r"
proof -
  have "(r, tf_off r) \<in> set (frame_slots @ [(A0, 112)])" using frame_slots_off [of r] by (cases "r = A0") simp_all
  then show ?thesis using save_regs_at [OF frame_slots_ok(2)] by simp
qed

lemma tf_off_range: "40 \<le> tf_off r" "tf_off r \<le> 280"
  by (cases r; simp)+

lemma load_below: "k + 8 \<le> 40 \<Longrightarrow> load64 (store64 m (tf + of_nat k) v) (tf + of_nat (tf_off r)) = load64 m (tf + of_nat (tf_off r))"
  using tf_off_range [of r] by (intro load_store_apart) linarith+

lemma enter_kernel_eq:
  assumes "window {tf} (mem s) (satp s) TRAPFRAME tf" "stvec s = TRAMPOLINE + (uservec_addr s - trampoline s)"
    and "load64 (mem s) (tf + TF_KERNEL_TRAP) = usertrap_addr s"
    and "load64 (mem s) (tf + TF_KERNEL_HARTID) = of_nat (hartid (ctl s))" "hartid (ctl s) < 2 ^ 64"
  shows "enter_kernel regs s = (Ret (),
    s\<lparr>mem := save_regs tf (frame_slots @ [(A0, 112)]) regs (mem s), satp := load64 (mem s) (tf + TF_KERNEL_SATP)\<rparr>)"
proof -
  let ?a = "\<lparr>xr = regs, acsr = (\<lambda>_. 0)(Satp := satp s), amem = mem s, apc = stvec s\<rparr>"
  have "window {tf} (amem ?a) (acsr ?a Satp) TRAPFRAME tf" using assms(1) by simp
  from uservec_ok [OF this, of "userret_addr s"] obtain t where t: "exec (uservec (userret_addr s)) ?a = Some t"
    "amem t = save_regs tf (frame_slots @ [(A0, 112)]) (xr ?a) (amem ?a)" "xr t TP = load64 (amem ?a) (tf + 32)"
    "acsr t Satp = load64 (amem ?a) tf" "apc t = load64 (amem ?a) (tf + 16)"
    by blast
  have "unat (of_nat (hartid (ctl s)) :: u64) = hartid (ctl s)" using assms(5) by (simp add: unat_of_nat take_bit_nat_eq_self)
  then show ?thesis using t assms(2-4) unfolding enter_kernel_def by (simp add: kdefs del: fun_upd_apply)
qed

lemma leave_kernel_eq:
  assumes "window {tf} (mem s) at TRAPFRAME tf" "sstatus s AND SSTATUS_SPIE \<noteq> 0"
  shows "\<exists>x. leave_kernel at s = (Ret (sepc s, \<lambda>r. load64 (mem s) (tf + of_nat (tf_off r))),
    s\<lparr>satp := at, ctl := (ctl s)\<lparr>sie := True\<rparr>, sstatus := x\<rparr>)"
proof -
  let ?a = "\<lparr>xr = (\<lambda>_. 0)(A0 := at), acsr = (\<lambda>_. 0)(Satp := satp s, Sepc := sepc s), amem = mem s, apc = userret_addr s\<rparr>"
  have "window {tf} (amem ?a) (xr ?a A0) TRAPFRAME tf" using assms(1) by simp
  from userret_ok [OF this] obtain t where t: "exec userret ?a = Some t" "amem t = amem ?a"
    "\<forall>r. xr t r = load64 (amem ?a) (tf + of_nat (tf_off r))" "acsr t Satp = xr ?a A0" "apc t = acsr ?a Sepc"
    by blast
  have x: "xr t = (\<lambda>r. load64 (mem s) (tf + of_nat (tf_off r)))" using t(3) by (simp add: fun_eq_iff)
  have "amem t = mem s" "acsr t Satp = at" "apc t = sepc s" using t by simp_all
  then have "leave_kernel at s = (Ret (sepc s, xr t),
      s\<lparr>satp := at, ctl := (ctl s)\<lparr>sie := True\<rparr>, sstatus := (sstatus s AND NOT SSTATUS_SPP) OR SSTATUS_SPIE\<rparr>)"
    using t(1) assms(2) unfolding leave_kernel_def by (simp add: trap_return_def kdefs del: fun_upd_apply)
  then show ?thesis unfolding x by blast
qed

text \<open>What a handler has to leave alone for the process to get back: its processor, its trapframe and its page table.\<close>

definition kept :: "nat \<Rightarrow> 'a kernel_state_scheme \<Rightarrow> 'a kernel_state_scheme \<Rightarrow> bool" where
  "kept p s t \<longleftrightarrow> running p t \<and> hartid (ctl t) = hartid (ctl s) \<and> \<not> pkilled (procs t p) \<and>
     trapframe (procs t p) = trapframe (procs s p) \<and> pagetable (procs t p) = pagetable (procs s p) \<and>
     same_on (insert (trapframe (procs s p)) (nodes (mem s) (pagetable (procs s p)))) (mem s) (mem t)"

text \<open>What a handler finds: the state of the process in user mode but for the control registers, with the registers of
  the process in the trapframe and no other memory changed.\<close>

definition entered :: "nat \<Rightarrow> (reg \<Rightarrow> u64) \<Rightarrow> 'a kernel_state_scheme \<Rightarrow> 'a kernel_state_scheme \<Rightarrow> bool" where
  "entered p regs s t \<longleftrightarrow> running p t \<and> sie (ctl t) \<and> settle (ctl t) = ctl t \<and> hartid (ctl t) = hartid (ctl s) \<and>
     t = s\<lparr>ctl := ctl t, mem := mem t, satp := satp t, stvec := stvec t, sepc := sepc t, scause := 8, sstatus := sstatus t\<rparr> \<and>
     outside {trapframe (procs s p)} (mem s) (mem t) \<and>
     (\<forall>r. load64 (mem t) (trapframe (procs s p) + of_nat (tf_off r)) = regs r)"

text \<open>And what the process finds: the state the handler left but for the control registers and the trapframe.\<close>

definition left_kernel :: "nat \<Rightarrow> 'a kernel_state_scheme \<Rightarrow> 'a kernel_state_scheme \<Rightarrow> bool" where
  "left_kernel p t u \<longleftrightarrow> user_mode p u \<and> hartid (ctl u) = hartid (ctl t) \<and>
     u = t\<lparr>ctl := ctl u, mem := mem u, satp := satp u, stvec := stvec u, sepc := sepc u, sstatus := sstatus u\<rparr> \<and>
     outside {trapframe (procs t p)} (mem t) (mem u)"

text \<open>The state in which \<open>usertrap\<close> is called.\<close>

definition trapped :: "u64 \<Rightarrow> u64 \<Rightarrow> (reg \<Rightarrow> u64) \<Rightarrow> 'a kernel_state_scheme \<Rightarrow> 'a kernel_state_scheme" where
  "trapped tf pc regs s = s\<lparr>sepc := pc, scause := 8,
     sstatus := (sstatus s AND NOT (SSTATUS_SPP OR SSTATUS_SPIE)) OR (if sie (ctl s) then SSTATUS_SPIE else 0),
     ctl := (ctl s)\<lparr>sie := False\<rparr>, mem := save_regs tf (frame_slots @ [(A0, 112)]) regs (mem s),
     satp := load64 (mem s) (tf + TF_KERNEL_SATP)\<rparr>"

lemma ecall_trapped:
  assumes "user_mode p s"
  shows "ecall pc regs s = bind usertrap leave_kernel (trapped (trapframe (procs s p)) pc regs s)"
proof -
  let ?tf = "trapframe (procs s p)"
  let ?s = "s\<lparr>sepc := pc, scause := 8,
     sstatus := (sstatus s AND NOT (SSTATUS_SPP OR SSTATUS_SPIE)) OR (if sie (ctl s) then SSTATUS_SPIE else 0),
     ctl := (ctl s)\<lparr>sie := False\<rparr>\<rparr>"
  have "window {?tf} (mem s) (satp s) TRAPFRAME ?tf" using assms tf_window unfolding user_mode_def by metis
  then have "enter_kernel regs ?s = (Ret (), trapped ?tf pc regs s)"
    using assms enter_kernel_eq [of ?tf ?s regs] by (simp add: user_mode_def trapped_def)
  then show ?thesis by (simp add: ecall_def trap_enter_def seq_def bind_def modify_def)
qed

lemma spp_clear: "(((x AND NOT (SSTATUS_SPP OR SSTATUS_SPIE)) OR SSTATUS_SPIE) AND NOT SSTATUS_SIE) AND SSTATUS_SPP = 0"
  "((x AND NOT (SSTATUS_SPP OR SSTATUS_SPIE)) AND NOT SSTATUS_SIE) AND SSTATUS_SPP = 0"
  by (simp_all add: and.assoc bit.conj_disj_distrib2)

lemma trapped_ok:
  assumes "user_mode p s" "\<not> pkilled (procs s p)" "tf = trapframe (procs s p)"
  shows "running p (trapped tf pc regs s)" "scause (trapped tf pc regs s) = 8" "r_sstatus (trapped tf pc regs s) AND SSTATUS_SPP = 0"
    "\<not> pkilled (procs (trapped tf pc regs s) p)" "trapframe (procs (trapped tf pc regs s) p) = tf" "tf \<noteq> 0"
  using assms spp_clear
  by (simp_all add: trapped_def user_mode_def tf_mapped_def running_def r_sstatus_def)

lemma saved_outside: "outside {tf} m (save_regs tf (frame_slots @ [(A0, 112)]) regs m)"
  using save_regs_outside [OF frame_slots_ok(2), of tf "{tf}"] by simp

lemma handler_entered:
  assumes "user_mode p s"
  shows "entered p regs s (handler_state (trapframe (procs s p)) (trapped (trapframe (procs s p)) pc regs s))"
    and "load64 (mem (handler_state (trapframe (procs s p)) (trapped (trapframe (procs s p)) pc regs s))) (trapframe (procs s p) + TF_EPC) = pc + 4"
proof -
  let ?tf = "trapframe (procs s p)"
  let ?t = "handler_state ?tf (trapped ?tf pc regs s)"
  have m: "mem ?t = store64 (store64 (save_regs ?tf (frame_slots @ [(A0, 112)]) regs (mem s)) (?tf + of_nat 24) pc) (?tf + of_nat 24) (pc + 4)"
    by (simp add: handler_state_def trapped_def)
  have "outside {?tf} (mem s) (mem ?t)" unfolding m by (intro outside_store saved_outside) simp_all
  moreover have "load64 (mem ?t) (?tf + of_nat (tf_off r)) = regs r" for r
    unfolding m by (simp only: load_below saved_all)
  moreover have "?t = s\<lparr>ctl := ctl ?t, mem := mem ?t, satp := satp ?t, stvec := stvec ?t, sepc := sepc ?t, scause := 8, sstatus := sstatus ?t\<rparr>"
    by (rule kernel_state.equality) (simp_all add: handler_state_def trapped_def)
  moreover have "running p ?t" "sie (ctl ?t)" "settle (ctl ?t) = ctl ?t" "hartid (ctl ?t) = hartid (ctl s)"
    using assms by (simp_all add: handler_state_def trapped_def user_mode_def running_def sie_settle)
  ultimately show "entered p regs s ?t" unfolding entered_def by blast
  show "load64 (mem ?t) (?tf + TF_EPC) = pc + 4" unfolding m by simp
qed

lemma env_same:
  assumes "pt_ok xs m pt" "tf_mapped m pt tf" "same_on (nodes m pt) m m'"
  shows "pt_ok xs m' pt" "tf_mapped m' pt tf"
  using assms pt_ok_same tf_mapped_same by blast+

lemma env_outside:
  assumes "pt_ok xs m pt" "tf_mapped m pt tf" "outside {tf} m m'"
  shows "pt_ok xs m' pt" "tf_mapped m' pt tf"
  using env_same [OF assms(1,2) outside_nodes [OF assms(3,1,2)]] by blast+

text \<open>The trapframe that \<open>userret\<close> finds when the handler has returned \<open>v\<close>.\<close>

lemma return_frame_ok:
  assumes "M = (\<lambda>v. return_frame tf (t\<lparr>mem := store64 (mem t) (tf + TF_A0) v, ctl := settle (ctl t)\<rparr>) p)"
  shows "outside {tf} (mem t) (M v)" "r \<noteq> A0 \<Longrightarrow> load64 (M v) (tf + of_nat (tf_off r)) = load64 (mem t) (tf + of_nat (tf_off r))"
    "load64 (M v) (tf + of_nat (tf_off A0)) = v" "load64 (M v) (tf + TF_EPC) = load64 (mem t) (tf + TF_EPC)"
    "load64 (M v) (tf + TF_KERNEL_TRAP) = usertrap_addr t" "load64 (M v) (tf + TF_KERNEL_HARTID) = of_nat (hartid (ctl t))"
proof -
  have M: "M v = store64 (store64 (store64 (store64 (store64 (mem t) (tf + of_nat 112) v) (tf + of_nat 0) (satp t))
     (tf + of_nat 8) (kstack (procs t p) + PGSIZE)) (tf + of_nat 16) (usertrap_addr t)) (tf + of_nat 32) (of_nat (hartid (ctl t)))" for v
    using assms unfolding return_frame_def by simp
  show "outside {tf} (mem t) (M v)" unfolding M by (intro outside_store outside_refl) simp_all
  show "load64 (M v) (tf + of_nat (tf_off A0)) = v" unfolding M by (simp only: load_below) simp
  have a0: "load64 (store64 (mem t) (tf + of_nat 112) v) (tf + of_nat (tf_off r)) = load64 (mem t) (tf + of_nat (tf_off r))" if "r \<noteq> A0" for r
    using that by (intro load_store_apart) (cases r; simp)+
  show "r \<noteq> A0 \<Longrightarrow> load64 (M v) (tf + of_nat (tf_off r)) = load64 (mem t) (tf + of_nat (tf_off r))"
    unfolding M by (simp only: load_below) (rule a0)
  have low: "load64 (M v) (tf + of_nat 24) = load64 (mem t) (tf + of_nat 24)"
    unfolding M by (subst load_store_apart, simp, simp, simp)+ (rule refl)
  then show "load64 (M v) (tf + TF_EPC) = load64 (mem t) (tf + TF_EPC)" by simp
  have "load64 (M v) (tf + of_nat 16) = usertrap_addr t"
    unfolding M by (subst load_store_apart, simp, simp, simp) (rule load64_store64)
  then show "load64 (M v) (tf + TF_KERNEL_TRAP) = usertrap_addr t" by simp
  show "load64 (M v) (tf + TF_KERNEL_HARTID) = of_nat (hartid (ctl t))" unfolding M by simp
qed

lemma ecall_returns:
  assumes um: "user_mode p s" "\<not> pkilled (procs s p)" "syscalls (sint (ucast (regs A7) :: u32)) = Some f"
    and s1: "s1 = handler_state (trapframe (procs s p)) (trapped (trapframe (procs s p)) pc regs s)"
    and t: "f s1 = (Ret v, t)" "kept p s1 t"
  shows "\<exists>u. ecall pc regs s = (Ret (pc + 4, regs(A0 := v)), u) \<and> left_kernel p t u"
proof -
  define tf where "tf = trapframe (procs s p)"
  define pt where "pt = pagetable (procs s p)"
  have en: "entered p regs s s1" "load64 (mem s1) (tf + TF_EPC) = pc + 4"
    using handler_entered [OF um(1)] unfolding s1 tf_def by blast+
  have ps1: "procs s1 = procs s" unfolding s1 by (simp add: handler_state_def trapped_def)
  then have tt: "trapframe (procs t p) = tf" "pagetable (procs t p) = pt" "running p t" "\<not> pkilled (procs t p)"
      "hartid (ctl t) = hartid (ctl s)" "same_on (insert tf (nodes (mem s1) pt)) (mem s1) (mem t)"
    using t(2) en(1) unfolding kept_def entered_def tf_def pt_def by simp_all
  obtain xs where "pt_ok xs (mem s) pt" "tf_mapped (mem s) pt tf" using um(1) unfolding user_mode_def pt_def tf_def by blast
  then have "pt_ok xs (mem s1) pt" "tf_mapped (mem s1) pt tf"
    using env_outside [of xs "mem s" pt tf] en(1) unfolding entered_def tf_def by blast+
  moreover have "same_on (nodes (mem s1) pt) (mem s1) (mem t)" using tt(6) unfolding same_on_def by blast
  ultimately have et: "pt_ok xs (mem t) pt" "tf_mapped (mem t) pt tf" by (rule env_same)+
  have ld: "load64 (mem t) (tf + of_nat k) = load64 (mem s1) (tf + of_nat k)" if "k \<le> 4088" for k
    using same_on_load64 [OF tt(6), of tf k] that by simp
  define M where "M = (\<lambda>v. return_frame tf (t\<lparr>mem := store64 (mem t) (tf + TF_A0) v, ctl := settle (ctl t)\<rparr>) p)"
  note fr = return_frame_ok [OF M_def]
  have regs: "(\<lambda>r. load64 (M v) (tf + of_nat (tf_off r))) = regs(A0 := v)"
  proof
    fix r
    have "load64 (mem s1) (tf + of_nat (tf_off r)) = regs r" using en(1) unfolding entered_def tf_def by blast
    then show "load64 (M v) (tf + of_nat (tf_off r)) = (regs(A0 := v)) r"
      using fr(2,3) ld [of "tf_off r"] tf_off_range(2) [of r] by (cases "r = A0") simp_all
  qed
  have pc: "load64 (M v) (tf + TF_EPC) = pc + 4" using fr(4) ld [of 24] en(2) by simp
  have ut: "usertrap (trapped tf pc regs s) = usertrap_end p (t\<lparr>mem := store64 (mem t) (tf + TF_A0) v, ctl := settle (ctl t)\<rparr>)"
  proof (rule usertrap_syscall [OF trapped_ok [OF um(1,2) tf_def], where f = f])
    have "load64 (mem s1) (tf + of_nat (tf_off A7)) = regs A7" using en(1) unfolding entered_def tf_def by blast
    then show "syscalls (sint (ucast (load64 (mem (handler_state tf (trapped tf pc regs s))) (tf + TF_A7)) :: u32)) = Some f"
      using um(3) s1 by (simp add: tf_def)
    show "f (handler_state tf (trapped tf pc regs s)) = (Ret v, t)" using t(1) unfolding s1 tf_def .
  qed (use tt in auto)
  obtain x where x: "x AND SSTATUS_SPIE \<noteq> 0" "usertrap (trapped tf pc regs s) = (Ret (MAKE_SATP pt),
    t\<lparr>stvec := TRAMPOLINE + (uservec_addr t - trampoline t), mem := M v, sstatus := x,
      ctl := (settle (ctl t))\<lparr>sie := False\<rparr>, sepc := pc + 4\<rparr>)"
    using usertrap_end_eq [of "t\<lparr>mem := store64 (mem t) (tf + TF_A0) v, ctl := settle (ctl t)\<rparr>" p tf] tt et(2) pc
    unfolding ut M_def by (auto simp: running_def tf_mapped_def)
  let ?t = "t\<lparr>stvec := TRAMPOLINE + (uservec_addr t - trampoline t), mem := M v, sstatus := x,
      ctl := (settle (ctl t))\<lparr>sie := False\<rparr>, sepc := pc + 4\<rparr>"
  note eM = env_outside [OF et fr(1)]
  obtain y where y: "leave_kernel (MAKE_SATP pt) ?t = (Ret (pc + 4, regs(A0 := v)),
      ?t\<lparr>satp := MAKE_SATP pt, ctl := (ctl ?t)\<lparr>sie := True\<rparr>, sstatus := y\<rparr>)"
    using leave_kernel_eq [of tf ?t "MAKE_SATP pt"] tf_window [OF eM] x(1) regs by auto
  define u where "u = ?t\<lparr>satp := MAKE_SATP pt, ctl := (ctl ?t)\<lparr>sie := True\<rparr>, sstatus := y\<rparr>"
  have "ecall pc regs s = (Ret (pc + 4, regs(A0 := v)), u)"
    unfolding ecall_trapped [OF um(1)] u_def y [symmetric] using x(2) by (simp add: bind_def tf_def)
  moreover have "user_mode p u"
    unfolding user_mode_def using tt eM fr(5,6) um(1) by (auto simp: u_def running_def user_mode_def)
  moreover have "u = t\<lparr>ctl := ctl u, mem := mem u, satp := satp u, stvec := stvec u, sepc := sepc u, sstatus := sstatus u\<rparr>"
    by (rule kernel_state.equality) (simp_all add: u_def)
  moreover have "outside {trapframe (procs t p)} (mem t) (mem u)" "hartid (ctl u) = hartid (ctl t)"
    using fr(1) tt(1) by (simp_all add: u_def)
  ultimately show ?thesis unfolding left_kernel_def by blast
qed

lemma entered_sel:
  assumes "entered p regs s t"
  shows "procs t = procs s" "pipes t = pipes s" "ftable t = ftable s" "freelist t = freelist s" "icache t = icache s"
    "kend t = kend s" "running p t" "settle (ctl t) = ctl t" "hartid (ctl t) = hartid (ctl s)"
    "outside {trapframe (procs s p)} (mem s) (mem t)"
proof -
  have e: "t = s\<lparr>ctl := ctl t, mem := mem t, satp := satp t, stvec := stvec t, sepc := sepc t, scause := 8, sstatus := sstatus t\<rparr>"
    using assms unfolding entered_def by blast
  show "procs t = procs s" "pipes t = pipes s" "ftable t = ftable s" "freelist t = freelist s" "icache t = icache s" "kend t = kend s"
    by (subst e, simp)+
  show "running p t" "settle (ctl t) = ctl t" "hartid (ctl t) = hartid (ctl s)" "outside {trapframe (procs s p)} (mem s) (mem t)"
    using assms unfolding entered_def by blast+
qed

lemma left_sel:
  assumes "left_kernel p s t"
  shows "procs t = procs s" "pipes t = pipes s" "ftable t = ftable s" "freelist t = freelist s" "icache t = icache s"
    "user_mode p t" "outside {trapframe (procs s p)} (mem s) (mem t)"
proof -
  have e: "t = s\<lparr>ctl := ctl t, mem := mem t, satp := satp t, stvec := stvec t, sepc := sepc t, sstatus := sstatus t\<rparr>"
    using assms unfolding left_kernel_def by blast
  show "procs t = procs s" "pipes t = pipes s" "ftable t = ftable s" "freelist t = freelist s" "icache t = icache s"
    by (subst e, simp)+
  show "user_mode p t" "outside {trapframe (procs s p)} (mem s) (mem t)" using assms unfolding left_kernel_def by blast+
qed

lemma entered_args:
  assumes "entered p regs s t" "trapframe (procs s p) \<noteq> 0"
  shows "argraw 0 t = (Ret (regs A0), t)" "argraw 1 t = (Ret (regs A1), t)" "argraw 2 t = (Ret (regs A2), t)"
proof -
  let ?tf = "trapframe (procs s p)"
  have r: "load64 (mem t) (?tf + of_nat (tf_off r)) = regs r" for r using assms(1) unfolding entered_def by blast
  have c: "cproc (mycpu (ctl t)) = Some p" "t\<lparr>ctl := settle (ctl t)\<rparr> = t" "trapframe (procs t p) = ?tf"
    using entered_sel [OF assms(1)] by (simp_all add: running_def)
  show "argraw 0 t = (Ret (regs A0), t)" "argraw 1 t = (Ret (regs A1), t)" "argraw 2 t = (Ret (regs A2), t)"
    using c assms(2) r [of A0] r [of A1] r [of A2]
    by (simp_all add: argraw_def bind_def this_proc_eq tf_get_eq [of _ p ?tf])
qed

text \<open>What the stubs are for: each is the system call of its name.\<close>

definition user_api :: "(string \<times> (u64, 'a kernel_state_scheme) routine) list" where
  "user_api = [(''fork'', sys_fork), (''exit'', sys_exit), (''wait'', sys_wait), (''pipe'', sys_pipe), (''read'', sys_read),
     (''write'', sys_write), (''close'', sys_close), (''kill'', sys_kill), (''exec'', sys_exec), (''open'', sys_open),
     (''mknod'', sys_mknod), (''unlink'', sys_unlink), (''fstat'', sys_fstat), (''link'', sys_link), (''mkdir'', sys_mkdir),
     (''chdir'', sys_chdir), (''dup'', sys_dup), (''getpid'', sys_getpid), (''sys_sbrk'', sys_sbrk), (''pause'', sys_pause),
     (''uptime'', sys_uptime)]"

lemma usys_numbers:
  "usys ''fork'' = Some 1" "usys ''exit'' = Some 2" "usys ''wait'' = Some 3" "usys ''pipe'' = Some 4"
  "usys ''read'' = Some 5" "usys ''write'' = Some 16" "usys ''close'' = Some 21" "usys ''kill'' = Some 6"
  "usys ''exec'' = Some 7" "usys ''open'' = Some 15" "usys ''mknod'' = Some 17" "usys ''unlink'' = Some 18"
  "usys ''fstat'' = Some 8" "usys ''link'' = Some 19" "usys ''mkdir'' = Some 20" "usys ''chdir'' = Some 9"
  "usys ''dup'' = Some 10" "usys ''getpid'' = Some 11" "usys ''sys_sbrk'' = Some 12" "usys ''pause'' = Some 13"
  "usys ''uptime'' = Some 14"
  by (simp_all add: usys_def)

lemma syscall_numbers:
  "syscalls (sint (ucast (1 :: u64) :: u32)) = Some sys_fork" "syscalls (sint (ucast (2 :: u64) :: u32)) = Some sys_exit"
  "syscalls (sint (ucast (3 :: u64) :: u32)) = Some sys_wait" "syscalls (sint (ucast (4 :: u64) :: u32)) = Some sys_pipe"
  "syscalls (sint (ucast (5 :: u64) :: u32)) = Some sys_read" "syscalls (sint (ucast (16 :: u64) :: u32)) = Some sys_write"
  "syscalls (sint (ucast (21 :: u64) :: u32)) = Some sys_close" "syscalls (sint (ucast (6 :: u64) :: u32)) = Some sys_kill"
  "syscalls (sint (ucast (7 :: u64) :: u32)) = Some sys_exec" "syscalls (sint (ucast (15 :: u64) :: u32)) = Some sys_open"
  "syscalls (sint (ucast (17 :: u64) :: u32)) = Some sys_mknod" "syscalls (sint (ucast (18 :: u64) :: u32)) = Some sys_unlink"
  "syscalls (sint (ucast (8 :: u64) :: u32)) = Some sys_fstat" "syscalls (sint (ucast (19 :: u64) :: u32)) = Some sys_link"
  "syscalls (sint (ucast (20 :: u64) :: u32)) = Some sys_mkdir" "syscalls (sint (ucast (9 :: u64) :: u32)) = Some sys_chdir"
  "syscalls (sint (ucast (10 :: u64) :: u32)) = Some sys_dup" "syscalls (sint (ucast (11 :: u64) :: u32)) = Some sys_getpid"
  "syscalls (sint (ucast (12 :: u64) :: u32)) = Some sys_sbrk" "syscalls (sint (ucast (13 :: u64) :: u32)) = Some sys_pause"
  "syscalls (sint (ucast (14 :: u64) :: u32)) = Some sys_uptime"
  by (simp_all add: syscalls_def)

lemma user_api_number:
  assumes "(name, f) \<in> set user_api"
  shows "\<exists>num. usys name = Some num \<and> syscalls (sint (ucast num :: u32)) = Some f"
proof -
  have "list_all (\<lambda>(name, f). \<exists>num. usys name = Some num \<and> syscalls (sint (ucast num :: u32)) = Some f) user_api"
    unfolding user_api_def list.pred_inject prod.case by (simp only: usys_numbers option.inject simp_thms syscall_numbers list.pred_inject(1))
  then show ?thesis using assms unfolding list_all_iff by blast
qed

text \<open>C35. A system call from user code is a call of the kernel's function of that name.  The stub enters the kernel with the
  registers of the process in its trapframe and no other memory changed; when the function returns \<open>v\<close> and has left the
  process its processor, trapframe and page table, the stub returns to its caller with \<open>v\<close> in \<open>a0\<close>, the number of the
  call in \<open>a7\<close> and every other register as it was, in user mode again, in the state that the function has left.\<close>

theorem usys_stub_calls:
  assumes "user_mode p s" "\<not> pkilled (procs s p)" "(name, f) \<in> set user_api"
  shows "\<exists>num s1. usys name = Some num \<and> entered p (regs(A7 := num)) s s1 \<and> (\<forall>v t. f s1 = (Ret v, t) \<and> kept p s1 t \<longrightarrow>
    (\<exists>u. usys_stub name pc regs s = (Ret (regs RA, regs(A7 := num, A0 := v)), u) \<and> left_kernel p t u))"
proof -
  obtain num where num: "usys name = Some num" "syscalls (sint (ucast num :: u32)) = Some f"
    using user_api_number [OF assms(3)] by blast
  let ?regs = "regs(A7 := num)"
  let ?s1 = "handler_state (trapframe (procs s p)) (trapped (trapframe (procs s p)) pc ?regs s)"
  have "\<exists>u. usys_stub name pc regs s = (Ret (regs RA, ?regs(A0 := v)), u) \<and> left_kernel p t u"
    if "f ?s1 = (Ret v, t)" "kept p ?s1 t" for v t
    using ecall_returns [of p s ?regs f ?s1 pc v t] assms(1,2) that num by (auto simp: usys_stub_def kdefs)
  then show ?thesis using handler_entered(1) [OF assms(1)] num(1) by blast
qed

section \<open>A process in user mode, concretely\<close>

definition user_boot :: kernel_state where
  "user_boot = (file_boot \<lparr>ticks = 0, forkret_first = False, started = True, stvec = TRAMPOLINE, sepc = 0, scause = 0, stval = 0,
     sstatus = 0, timer = 0, stimecmp = 0, plic = (\<lambda>_. 0), plic_pending = 0, forkret_addr = 0x80001000, usertrap_addr = 0x80002000,
     kernelvec_addr = 0x80003000, uservec_addr = 0x80007000, userret_addr = 0x80007090\<rparr>)
     \<lparr>mem := store64 udemo (TFRAME + TF_KERNEL_TRAP) 0x80002000, procs := (\<lambda>_. demo_proc\<lparr>trapframe := TFRAME\<rparr>),
       satp := MAKE_SATP ROOT, trampoline := 0x80007000\<rparr>"

lemma user_boot_simps [simp]:
  "ctl user_boot = idle_ctl 0" "mem user_boot = store64 udemo (TFRAME + of_nat 16) 0x80002000"
  "procs user_boot p = demo_proc\<lparr>trapframe := TFRAME\<rparr>" "satp user_boot = MAKE_SATP ROOT" "trampoline user_boot = 0x80007000"
  "stvec user_boot = TRAMPOLINE" "uservec_addr user_boot = 0x80007000" "usertrap_addr user_boot = 0x80002000"
  "ftable user_boot f = null_file" "pipes user_boot a = null_pipe"
  by (simp_all add: user_boot_def file_boot_def boot_def)

lemma udemo_tf: "tf_mapped udemo ROOT TFRAME"
  using subsetD [OF udemo_nodes, of TFRAME] by (auto simp: tf_mapped_def udemo_ent agree_def PTE2PA_def)

lemma udemo_zeroed: "zeroed udemo TFRAME"
  using udemo1_zeroed [of TFRAME] unfolding udemo_def udemo2_def grown_def by (intro zeroed_store) auto

lemma zeroed_load: "zeroed m p \<Longrightarrow> k \<le> 4088 \<Longrightarrow> load64 m (p + of_nat k) = 0"
proof -
  assume z: "zeroed m p" "k \<le> 4088"
  have "same_on {p} m (\<lambda>_. 0)" using z(1) by (simp add: zeroed_def same_on_def)
  from same_on_load64 [OF this, of p k] z(2) show ?thesis by (simp add: load64_def mem_get_def upt_rec)
qed

lemma user_boot_outside: "outside {TFRAME} udemo (mem user_boot)"
  unfolding user_boot_simps by (intro outside_store outside_refl) simp

lemma user_boot_mode: "user_mode 0 user_boot"
proof -
  have "load64 (mem user_boot) (TFRAME + of_nat 32) = load64 udemo (TFRAME + of_nat 32)"
    unfolding user_boot_simps by (rule load_store_apart) simp_all
  then have "load64 (mem user_boot) (TFRAME + TF_KERNEL_HARTID) = 0" using zeroed_load [OF udemo_zeroed, of 32] by simp
  moreover have "running 0 user_boot" by (simp add: running_def)
  moreover have "trapframe (procs user_boot 0) = TFRAME" "pagetable (procs user_boot 0) = ROOT" "hartid (ctl user_boot) = 0"
    by (simp_all add: demo_proc_def idle_ctl_def)
  moreover have "load64 (mem user_boot) (TFRAME + TF_KERNEL_TRAP) = usertrap_addr user_boot" by simp
  ultimately show ?thesis
    unfolding user_mode_def using env_outside [OF udemo_ok udemo_tf user_boot_outside] by auto
qed

lemma kept_refl: "running p s \<Longrightarrow> \<not> pkilled (procs s p) \<Longrightarrow> kept p s s"
  by (simp add: kept_def)

theorem usys_stub_calls_witness:
  "\<exists>u. usys_stub ''getpid'' 0x100 (\<lambda>_. 7) user_boot = (Ret (7, (\<lambda>_. 7)(A7 := 11, A0 := 1)), u) \<and> user_mode 0 u"
proof -
  have "(''getpid'', sys_getpid) \<in> set user_api" by (simp add: user_api_def)
  then obtain s1 where s1: "entered 0 ((\<lambda>_. 7)(A7 := 11)) user_boot s1"
    "\<forall>v t. sys_getpid s1 = (Ret v, t) \<and> kept 0 s1 t \<longrightarrow>
      (\<exists>u. usys_stub ''getpid'' 0x100 (\<lambda>_. 7) user_boot = (Ret (7, (\<lambda>_. 7)(A7 := 11, A0 := v)), u) \<and> left_kernel 0 t u)"
    using usys_stub_calls [OF user_boot_mode, of "''getpid''" sys_getpid "\<lambda>_. 7" "0x100"]
    by (auto simp: usys_numbers demo_proc_def)
  note sel = entered_sel [OF s1(1)]
  have "sys_getpid s1 = (Ret 1, s1)"
    using sel by (simp add: sys_getpid_def kdefs this_proc_eq running_def demo_proc_def)
  moreover have "kept 0 s1 s1" using sel by (intro kept_refl) (simp_all add: demo_proc_def)
  ultimately show ?thesis using s1(2) left_sel(6) by blast
qed

end
