(* ===== verification/Libc.thy ===== *)
theory Libc
  imports User
begin

text \<open>
  The system calls of the C library as a program sees them: writing to and reading from a pipe, and getting memory.
  Each is followed from the library's function through the stub, the trap, the dispatcher and the handler back to the
  program.
\<close>

section \<open>System calls through the library\<close>

lemma m_syscall_eq:
  assumes "user_mode p s" "\<not> pkilled (procs s p)" "syscalls (sint (ucast num :: u32)) = Some f"
  shows "\<exists>s1. entered p ((snd k)(A7 := num, A0 := a0, A1 := a1, A2 := a2, A3 := a3, A4 := a4, A5 := a5)) s s1 \<and>
    (\<forall>v t. f s1 = (Ret v, t) \<longrightarrow> kept p s1 t \<longrightarrow>
      (\<exists>u. m_syscall k num a0 a1 a2 a3 a4 a5 s = (Ret v, u) \<and> left_kernel p t u))"
proof -
  let ?regs = "(snd k)(A7 := num, A0 := a0, A1 := a1, A2 := a2, A3 := a3, A4 := a4, A5 := a5)"
  let ?s1 = "handler_state (trapframe (procs s p)) (trapped (trapframe (procs s p)) (fst k) ?regs s)"
  have "\<exists>u. m_syscall k num a0 a1 a2 a3 a4 a5 s = (Ret v, u) \<and> left_kernel p t u"
    if "f ?s1 = (Ret v, t)" "kept p ?s1 t" for v t
    using ecall_returns [of p s ?regs f ?s1 "fst k" v t] assms that by (auto simp: m_syscall_def kdefs)
  then show ?thesis using handler_entered(1) [OF assms(1)] by blast
qed

lemma sint_u32: "unat x < 2 ^ 31 \<Longrightarrow> sint (x :: u32) = uint x"
proof -
  assume "unat x < 2 ^ 31"
  then have "int (unat x) < int (2 ^ 31)" unfolding of_nat_less_iff .
  then have "uint x < 2 ^ 31" by simp
  moreover have "- (2 ^ 31) \<le> uint x" using order_trans [of "- (2 ^ 31)" 0 "uint x"] by simp
  ultimately have "signed_take_bit 31 (uint x) = uint x" by (intro signed_take_bit_int_eq_self)
  then show ?thesis by (simp add: sint_uint)
qed

text \<open>The arguments as the handlers of \<open>sysfile.c\<close> read them.\<close>

lemma entered_fd:
  assumes "entered p regs s t" "trapframe (procs s p) \<noteq> 0" "regs A0 = scast (fd :: u32)"
    and "unat fd < NOFILE" "ofile (procs s p) (unat fd) = Some f"
  shows "argfd 0 t = (Ret (Some (unat fd, f)), t)"
proof -
  have u: "int (unat fd) < 16" using assms(4) by linarith
  have "sint fd = uint fd" using assms(4) by (intro sint_u32) simp
  moreover have "ucast (scast fd :: u64) = fd" by (rule bit_word_eqI) (simp add: bit_simps)
  ultimately have "argint 0 t = (Ret (uint fd), t)"
    using entered_args [OF assms(1,2)] assms(3) by (simp add: argint_def bind_def ret_def)
  moreover have "this_proc t = (Ret p, t)" using entered_sel [OF assms(1)] by (simp add: this_proc_eq running_def)
  ultimately show ?thesis
    using u assms(5) entered_sel(1) [OF assms(1)] by (simp add: argfd_def kdefs)
qed

section \<open>The memory of the process\<close>

text \<open>The trapframe is no page of the process, so saving registers there does not change what the process sees.\<close>

definition tf_private :: "nat \<Rightarrow> 'a proc_state_scheme \<Rightarrow> bool" where
  "tf_private p s \<longleftrightarrow> (\<forall>va. upage (mem s) (pagetable (procs s p)) va \<longrightarrow> frame (mem s) (pagetable (procs s p)) va \<noteq> trapframe (procs s p))"

lemma user_outside:
  assumes "pt_ok xs m pt" "tf_mapped m pt tf" "outside {tf} m m'"
  shows "upage m' pt = upage m pt" "wpage m' pt = wpage m pt" "user_ok m' pt = user_ok m pt" "frame m' pt = frame m pt"
    "\<forall>va. upage m pt va \<longrightarrow> frame m pt va \<noteq> tf \<Longrightarrow> upage m pt (PGROUNDDOWN x) \<Longrightarrow> ubyte m' pt x = ubyte m pt x"
proof -
  note same = user_same [OF outside_nodes [OF assms(3,1,2)]]
  show "upage m' pt = upage m pt" "wpage m' pt = wpage m pt" "user_ok m' pt = user_ok m pt" "frame m' pt = frame m pt"
    using same by simp_all
  assume f: "\<forall>va. upage m pt va \<longrightarrow> frame m pt va \<noteq> tf" "upage m pt (PGROUNDDOWN x)"
  let ?f = "frame m pt (PGROUNDDOWN x)"
  have "in_page ?f (?f + of_nat (unat (x - PGROUNDDOWN x)))" by (rule in_page_offset [OF page_offset(2)])
  moreover have "aligned ?f" "aligned tf" "?f \<noteq> tf" using f assms(2) by (simp_all add: frame_def tf_mapped_def)
  ultimately have "\<not> in_page tf (?f + (x - PGROUNDDOWN x))" using pages_disjoint [of ?f tf] by auto
  then show "ubyte m' pt x = ubyte m pt x" using assms(3) unfolding ubyte_def same by (simp add: outside_page)
qed

lemma user_mode_env:
  assumes "user_mode p s"
  obtains xs where "pt_ok xs (mem s) (pagetable (procs s p))" "tf_mapped (mem s) (pagetable (procs s p)) (trapframe (procs s p))"
    "trapframe (procs s p) \<noteq> 0" "cproc (mycpu (ctl s)) = Some p"
  using assms unfolding user_mode_def tf_mapped_def running_def by blast

lemma user_src_outside:
  assumes "user_mode p s" "tf_private p s" "user_src p s va bs"
    and "outside {trapframe (procs s p)} (mem s) (mem t)" "pagetable (procs t p) = pagetable (procs s p)" "cproc (mycpu (ctl t)) = Some p"
  shows "user_src p t va bs"
proof -
  obtain xs where xs: "pt_ok xs (mem s) (pagetable (procs s p))" "tf_mapped (mem s) (pagetable (procs s p)) (trapframe (procs s p))"
    using user_mode_env [OF assms(1)] by blast
  show ?thesis
    using assms(3) env_outside [OF xs assms(4)] user_outside [OF xs assms(4)] assms(2,5,6)
    unfolding user_src_def tf_private_def by auto
qed

lemma user_buf_outside:
  assumes "user_mode p s" "user_buf p s va n"
    and "outside {trapframe (procs s p)} (mem s) (mem t)" "pagetable (procs t p) = pagetable (procs s p)" "cproc (mycpu (ctl t)) = Some p"
  shows "user_buf p t va n"
proof -
  obtain xs where xs: "pt_ok xs (mem s) (pagetable (procs s p))" "tf_mapped (mem s) (pagetable (procs s p)) (trapframe (procs s p))"
    using user_mode_env [OF assms(1)] by blast
  show ?thesis
    using assms(2) env_outside [OF xs assms(3)] user_outside [OF xs assms(3)] assms(4,5) unfolding user_buf_def by auto
qed

section \<open>Pipes through the library\<close>

text \<open>Descriptor \<open>fd\<close> of the process is the writing or the reading end of the pipe at \<open>pi\<close>.\<close>

definition pipe_end :: "bool \<Rightarrow> nat \<Rightarrow> 'a kernel_state_scheme \<Rightarrow> u32 \<Rightarrow> u64 \<Rightarrow> bool" where
  "pipe_end wr p s fd pi \<longleftrightarrow> unat fd < NOFILE \<and> (case ofile (procs s p) (unat fd) of None \<Rightarrow> False | Some f \<Rightarrow>
     ftype (ftable s f) = FD_PIPE \<and> fpipe (ftable s f) = pi \<and> (if wr then writable (ftable s f) else readable (ftable s f)))"

lemma wake_all_me [simp]: "wake_all ch (Some p) ps p = ps p"
  by (simp add: wake_all_def)

lemma int_count: "n < 2 ^ 31 \<Longrightarrow> sint (ucast (of_nat n :: u64) :: u32) = int n"
proof -
  assume n: "n < 2 ^ 31"
  then have "unat (of_nat n :: u32) = n" "uint (of_nat n :: u32) = int n"
    by (simp_all add: unat_of_nat unsigned_of_nat take_bit_nat_eq_self)
  moreover have "ucast (of_nat n :: u64) = (of_nat n :: u32)" using n by (simp add: unsigned_of_nat take_bit_nat_eq_self)
  ultimately show ?thesis using sint_u32 [of "of_nat n"] n by simp
qed

lemma long_count: "n < 2 ^ 31 \<Longrightarrow> \<not> sint (of_nat n :: u64) < 0"
proof -
  assume "n < 2 ^ 31"
  then have "uint (of_nat n :: u64) = int n" by (simp add: unsigned_of_nat take_bit_nat_eq_self)
  moreover have "signed_take_bit 63 (int n) = int n" using \<open>n < 2 ^ 31\<close> by (intro signed_take_bit_int_eq_self) simp_all
  ultimately show ?thesis by (simp add: sint_uint)
qed

lemma entered_rw:
  assumes "entered p regs s t" "trapframe (procs s p) \<noteq> 0" "regs A0 = scast fd" "regs A1 = va" "regs A2 = of_nat n" "n < 2 ^ 31"
    and "pipe_end wr p s fd pi"
  shows "wr \<Longrightarrow> sys_write t = bind (pipewrite pi va (int n)) (\<lambda>r. ret (of_int r)) t"
    "\<not> wr \<Longrightarrow> sys_read t = bind (piperead pi va (int n)) (\<lambda>r. ret (of_int r)) t"
proof -
  obtain f where f: "unat fd < NOFILE" "ofile (procs s p) (unat fd) = Some f" "ftype (ftable s f) = FD_PIPE" "fpipe (ftable s f) = pi"
      "if wr then writable (ftable s f) else readable (ftable s f)"
    using assms(7) unfolding pipe_end_def by (auto split: option.splits)
  note a = entered_args [OF assms(1,2)]
  have "argint 2 t = (Ret (int n), t)" using a assms(5) int_count [OF assms(6)] by (simp add: argint_def bind_def ret_def)
  moreover have "argaddr 1 t = (Ret va, t)" using a assms(4) by (simp add: argaddr_def)
  moreover have "argfd 0 t = (Ret (Some (unat fd, f)), t)" by (rule entered_fd [OF assms(1-3) f(1,2)])
  moreover have "ftable t f = ftable s f" using entered_sel(3) [OF assms(1)] by simp
  ultimately show "wr \<Longrightarrow> sys_write t = bind (pipewrite pi va (int n)) (\<lambda>r. ret (of_int r)) t"
    "\<not> wr \<Longrightarrow> sys_read t = bind (piperead pi va (int n)) (\<lambda>r. ret (of_int r)) t"
    using f by (simp_all add: sys_write_def sys_read_def filewrite_def fileread_def bind_def gets_def)
qed

lemma libc_write_pipe:
  assumes um: "user_mode p s" "\<not> pkilled (procs s p)" and fd: "pipe_end True p s fd pi"
    and q: "readopen (pipes s pi)" "length (pipe_q (pipes s pi)) + length bs \<le> 512" and src: "user_src p s va bs" "tf_private p s"
  shows "\<exists>u q. m_sys_write k fd va (of_nat (length bs)) s = (Ret (0, Some (of_nat (length bs))), u) \<and>
    user_mode p u \<and> pipes u = (pipes s)(pi := q) \<and> pipe_q q = pipe_q (pipes s pi) @ bs \<and> ends q = ends (pipes s pi) \<and>
    ftable u = ftable s \<and> procs u = wake_all (ChanPipeRead pi) (Some p) (procs s) \<and> outside {trapframe (procs s p)} (mem s) (mem u)"
proof -
  obtain s1 where s1: "entered p ((snd k)(A7 := 16, A0 := scast fd, A1 := va, A2 := of_nat (length bs), A3 := 0, A4 := 0, A5 := 0)) s s1"
    "\<And>v t. sys_write s1 = (Ret v, t) \<Longrightarrow> kept p s1 t \<Longrightarrow>
      \<exists>u. m_syscall k 16 (scast fd) va (of_nat (length bs)) 0 0 0 s = (Ret v, u) \<and> left_kernel p t u"
    using m_syscall_eq [OF um syscall_numbers(6), of k "scast fd" va "of_nat (length bs)" 0 0 0] by blast
  note sel = entered_sel [OF s1(1)]
  have n: "length bs < 2 ^ 31" using q(2) by simp
  have tf: "trapframe (procs s p) \<noteq> 0" using user_mode_env [OF um(1)] by blast
  have "user_src p s1 va bs"
    using user_src_outside [OF um(1) src(2,1) sel(10)] sel(1,7) by (simp add: running_def)
  then obtain q where w: "pipewrite pi va (int (length bs)) s1 = (Ret (int (length bs)),
       s1\<lparr>ctl := settle (ctl s1), pipes := (pipes s1)(pi := q), procs := wake_all (ChanPipeRead pi) (Some p) (procs s1)\<rparr>)"
     "pipe_q q = pipe_q (pipes s pi) @ bs" "ends q = ends (pipes s pi)"
    using pipewrite_room [OF sel(7), of pi bs va] assms sel by auto
  define t where "t = s1\<lparr>ctl := settle (ctl s1), pipes := (pipes s1)(pi := q), procs := wake_all (ChanPipeRead pi) (Some p) (procs s1)\<rparr>"
  have "sys_write s1 = (Ret (of_nat (length bs)), t)"
    using entered_rw(1) [OF s1(1) tf _ _ _ n fd] w(1) by (simp add: bind_def ret_def t_def)
  moreover have "kept p s1 t" using sel um(2) by (simp add: kept_def t_def running_def)
  ultimately obtain u where u: "m_syscall k 16 (scast fd) va (of_nat (length bs)) 0 0 0 s = (Ret (of_nat (length bs)), u)" "left_kernel p t u"
    using s1(2) by blast
  note l = left_sel [OF u(2)]
  have "m_sys_write k fd va (of_nat (length bs)) s = (Ret (0, Some (of_nat (length bs))), u)"
    using u(1) long_count [OF n] by (simp add: m_sys_write_def bind_def ret_def)
  moreover have "outside {trapframe (procs s p)} (mem s) (mem u)"
    using outside_trans [OF sel(10)] l(7) sel(1) by (simp add: t_def)
  ultimately show ?thesis using l w(2,3) sel by (intro exI [of _ u] exI [of _ q]) (simp add: t_def)
qed

lemma tf_private_outside:
  assumes "user_mode p s" "tf_private p s" "outside {trapframe (procs s p)} (mem s) (mem t)" "procs t p = procs s p"
  shows "tf_private p t"
proof -
  obtain xs where xs: "pt_ok xs (mem s) (pagetable (procs s p))" "tf_mapped (mem s) (pagetable (procs s p)) (trapframe (procs s p))"
    using user_mode_env [OF assms(1)] by blast
  show ?thesis using assms(2,4) user_outside [OF xs assms(3)] unfolding tf_private_def by simp
qed

text \<open>What is written to a buffer of the process leaves the trapframe and the page table alone.\<close>

lemma uput_kept:
  assumes "uput p s va bs m'" "tf_private p s" "aligned (trapframe (procs s p))"
  shows "same_on (insert (trapframe (procs s p)) (nodes (mem s) (pagetable (procs s p)))) (mem s) m'"
proof -
  have "same_on {trapframe (procs s p)} (mem s) m'" using assms unfolding uwritten_def tf_private_def by blast
  then show ?thesis using uwritten_nodes [OF assms(1)] unfolding same_on_def by blast
qed

lemma uput_seen:
  assumes um: "user_mode p s" "tf_private p s" and en: "outside {trapframe (procs s p)} (mem s) (mem s1)" "procs s1 p = procs s p"
    and w: "uput p s1 va bs m'" "outside {trapframe (procs s p)} m' (mem u)" and buf: "user_buf p s1 va n" and j: "j < length bs" "length bs \<le> n"
  shows "ubyte (mem u) (pagetable (procs s p)) (va + of_nat j) = bs ! j"
proof -
  let ?pt = "pagetable (procs s p)" and ?tf = "trapframe (procs s p)"
  obtain xs where xs: "pt_ok xs (mem s) ?pt" "tf_mapped (mem s) ?pt ?tf" using user_mode_env [OF um(1)] by blast
  note e1 = env_outside [OF xs en(1)]
  have nd: "same_on (nodes (mem s1) ?pt) (mem s1) m'" using uwritten_nodes [OF w(1)] en(2) by simp
  note e2 = env_same [OF e1 nd] and us = user_same [OF nd]
  have up: "upage (mem s1) ?pt (PGROUNDDOWN (va + of_nat j))"
    using buf j en(2) unfolding user_buf_def wpage_def by auto
  have "\<forall>va. upage m' ?pt va \<longrightarrow> frame m' ?pt va \<noteq> ?tf"
    using um(2) user_outside(1,4) [OF xs en(1)] unfolding us tf_private_def by simp
  then have "ubyte (mem u) ?pt (va + of_nat j) = ubyte m' ?pt (va + of_nat j)"
    using user_outside(5) [OF e2 w(2)] up unfolding us by blast
  also have "\<dots> = bs ! j"
  proof -
    have "j < 2 ^ 64" using j buf unfolding user_buf_def by simp
    then have "unat (of_nat j :: u64) = j" by (simp add: unat_of_nat take_bit_nat_eq_self)
    then show ?thesis using uwritten_byte [OF w(1)] up j(1) en(2) by simp
  qed
  finally show ?thesis .
qed

lemma libc_read_pipe:
  assumes um: "user_mode p s" "\<not> pkilled (procs s p)" and fd: "pipe_end False p s fd pi"
    and q: "pipe_q (pipes s pi) \<noteq> []" and dst: "user_buf p s va n" "tf_private p s" "n < 2 ^ 31"
  defines "rcv \<equiv> take n (pipe_q (pipes s pi))"
  shows "\<exists>u q. m_sys_read k fd va (of_nat n) s = (Ret (0, Some (of_nat (length rcv))), u) \<and>
    user_mode p u \<and> pipes u = (pipes s)(pi := q) \<and> pipe_q q = drop n (pipe_q (pipes s pi)) \<and>
    (\<forall>j<length rcv. ubyte (mem u) (pagetable (procs s p)) (va + of_nat j) = rcv ! j)"
proof -
  obtain s1 where s1: "entered p ((snd k)(A7 := 5, A0 := scast fd, A1 := va, A2 := of_nat n, A3 := 0, A4 := 0, A5 := 0)) s s1"
    "\<And>v t. sys_read s1 = (Ret v, t) \<Longrightarrow> kept p s1 t \<Longrightarrow>
      \<exists>u. m_syscall k 5 (scast fd) va (of_nat n) 0 0 0 s = (Ret v, u) \<and> left_kernel p t u"
    using m_syscall_eq [OF um syscall_numbers(5), of k "scast fd" va "of_nat n" 0 0 0] by blast
  note sel = entered_sel [OF s1(1)]
  obtain xs where xs: "pt_ok xs (mem s) (pagetable (procs s p))" "tf_mapped (mem s) (pagetable (procs s p)) (trapframe (procs s p))"
      "trapframe (procs s p) \<noteq> 0" using user_mode_env [OF um(1)] by blast
  have priv: "tf_private p s1" using tf_private_outside [OF um(1) dst(2) sel(10)] sel(1) by simp
  have buf: "user_buf p s1 va n"
    using user_buf_outside [OF um(1) dst(1) sel(10)] sel(1,7) by (simp add: running_def)
  obtain q m' where w: "piperead pi va (int n) s1 = (Ret (int (length rcv)),
       s1\<lparr>ctl := settle (ctl s1), pipes := (pipes s1)(pi := q), mem := m', procs := wake_all (ChanPipeWrite pi) (Some p) (procs s1)\<rparr>)"
     "pipe_q q = drop n (pipe_q (pipes s pi))" "uput p s1 va rcv m'"
    using piperead_some [OF sel(7) buf, of pi] q sel unfolding rcv_def by (auto simp: min.commute)
  define t where "t = s1\<lparr>ctl := settle (ctl s1), pipes := (pipes s1)(pi := q), mem := m', procs := wake_all (ChanPipeWrite pi) (Some p) (procs s1)\<rparr>"
  have "sys_read s1 = (Ret (of_nat (length rcv)), t)"
    using entered_rw(2) [OF s1(1) xs(3) _ _ _ dst(3) fd] w(1) by (simp add: bind_def ret_def t_def)
  moreover have "kept p s1 t"
    using sel um(2) uput_kept [OF w(3) priv] xs(2) by (simp add: kept_def t_def running_def tf_mapped_def)
  ultimately obtain u where u: "m_syscall k 5 (scast fd) va (of_nat n) 0 0 0 s = (Ret (of_nat (length rcv)), u)" "left_kernel p t u"
    using s1(2) by blast
  note l = left_sel [OF u(2)]
  have len: "length rcv < 2 ^ 31" using dst(3) unfolding rcv_def by (simp add: min_def)
  have "m_sys_read k fd va (of_nat n) s = (Ret (0, Some (of_nat (length rcv))), u)"
    using u(1) long_count [OF len] by (simp add: m_sys_read_def bind_def ret_def)
  moreover have "ubyte (mem u) (pagetable (procs s p)) (va + of_nat j) = rcv ! j" if "j < length rcv" for j
    using uput_seen [OF um(1) dst(2) sel(10) _ w(3) _ buf, of u] that l(7) sel(1) unfolding rcv_def by (simp add: t_def)
  ultimately show ?thesis using l(2,6) w(2) sel(2) by (intro exI [of _ u] exI [of _ q]) (simp add: t_def)
qed

text \<open>C36. A pipe works as the C library uses it.  A process writes bytes to an empty pipe with the library's \<open>sys_write\<close> and reads
  as many with \<open>sys_read\<close>: both return no error and the number of bytes, the bytes are in the reader's buffer in order,
  the pipe is empty again and the process is in user mode.\<close>

theorem libc_pipe_roundtrip:
  assumes um: "user_mode p s" "\<not> pkilled (procs s p)" "tf_private p s"
    and fds: "pipe_end True p s wfd pi" "pipe_end False p s rfd pi" "readopen (pipes s pi)" "pipe_q (pipes s pi) = []"
    and bs: "bs \<noteq> []" "length bs \<le> 512" "user_src p s src bs" "user_buf p s dst (length bs)"
  shows "\<exists>u v. m_sys_write k wfd src (of_nat (length bs)) s = (Ret (0, Some (of_nat (length bs))), u) \<and>
    m_sys_read k' rfd dst (of_nat (length bs)) u = (Ret (0, Some (of_nat (length bs))), v) \<and> user_mode p v \<and>
    pipe_q (pipes v pi) = [] \<and> (\<forall>j<length bs. ubyte (mem v) (pagetable (procs s p)) (dst + of_nat j) = bs ! j)"
proof -
  obtain u q where u: "m_sys_write k wfd src (of_nat (length bs)) s = (Ret (0, Some (of_nat (length bs))), u)"
    "user_mode p u" "pipes u = (pipes s)(pi := q)" "pipe_q q = bs" "ftable u = ftable s"
    "procs u = wake_all (ChanPipeRead pi) (Some p) (procs s)" "outside {trapframe (procs s p)} (mem s) (mem u)"
    using libc_write_pipe [OF um(1,2) fds(1,3), of bs src k] assms by auto
  have p: "procs u p = procs s p" using u(6) by simp
  have c: "cproc (mycpu (ctl u)) = Some p" using u(2) user_mode_env by blast
  have "user_buf p u dst (length bs)" by (rule user_buf_outside [OF um(1) bs(4) u(7)]) (use p c in simp_all)
  moreover have "tf_private p u" by (rule tf_private_outside [OF um(1,3) u(7) p])
  moreover have "pipe_end False p u rfd pi" using fds(2) p u(5) unfolding pipe_end_def by (simp only:)
  moreover have "pipe_q (pipes u pi) = bs" using u(3,4) by simp
  ultimately obtain v q' where "m_sys_read k' rfd dst (of_nat (length bs)) u = (Ret (0, Some (of_nat (length bs))), v)"
    "user_mode p v" "pipes v = (pipes u)(pi := q')" "pipe_q q' = []"
    "\<forall>j<length bs. ubyte (mem v) (pagetable (procs s p)) (dst + of_nat j) = bs ! j"
    using libc_read_pipe [OF u(2), of rfd pi dst "length bs" k'] um(2) bs(1,2) p by auto
  then show ?thesis using u(1) by (intro exI [of _ u] exI [of _ v]) simp
qed

text \<open>The process of \<open>user_boot\<close> with both ends of a pipe.\<close>

definition user_piped :: kernel_state where
  "user_piped = user_boot\<lparr>procs := (\<lambda>_. demo_proc\<lparr>trapframe := TFRAME, ofile := (\<lambda>_. None)(3 \<mapsto> 0, 4 \<mapsto> 1)\<rparr>),
     ftable := (\<lambda>_. null_file)(0 := null_file\<lparr>ftype := FD_PIPE, readable := True, fpipe := 0x80200000\<rparr>,
       1 := null_file\<lparr>ftype := FD_PIPE, writable := True, fpipe := 0x80200000\<rparr>)\<rparr>"

lemma user_piped_simps [simp]:
  "mem user_piped = mem user_boot" "ctl user_piped = ctl user_boot" "pipes user_piped = pipes user_boot" "pagetable (procs user_piped p) = ROOT"
  "trapframe (procs user_piped p) = TFRAME" "\<not> pkilled (procs user_piped p)"
  by (simp_all add: user_piped_def demo_proc_def)

lemma user_piped_mode: "user_mode 0 user_piped"
  using user_boot_mode by (simp add: user_mode_def running_def user_piped_def demo_proc_def)

lemma user_boot_page: "upage (mem user_boot) ROOT va \<longleftrightarrow> va = 0" "wpage (mem user_boot) ROOT 0" "frame (mem user_boot) ROOT 0 = FRAME"
  "user_ok (mem user_boot) ROOT" "x < 0x1000 \<Longrightarrow> ubyte (mem user_boot) ROOT x = 0"
proof -
  note o = user_outside [OF udemo_ok udemo_tf user_boot_outside]
  have a0: "\<not> agree 3 TRAPFRAME 0" using agree_page [of TRAPFRAME 0] by (auto simp: aligned_def)
  show u: "upage (mem user_boot) ROOT va \<longleftrightarrow> va = 0" for va unfolding o by (rule udemo_upage)
  have f: "frame udemo ROOT 0 = FRAME" using demo_user(3) a0 by (simp add: frame_def udemo_ent)
  then show "frame (mem user_boot) ROOT 0 = FRAME" unfolding o .
  show "wpage (mem user_boot) ROOT 0" unfolding o using udemo_upage [of 0] demo_user(2) a0 by (simp add: wpage_def udemo_ent)
  have "FRAME \<notin> nodes udemo ROOT" using subsetD [OF udemo_nodes, of FRAME] by auto
  then have "user_ok udemo ROOT" unfolding user_ok_def udemo_upage using f by simp
  then show "user_ok (mem user_boot) ROOT" unfolding o .
  assume x: "x < 0x1000"
  have d: "PGROUNDDOWN x = 0" using in_page_aligned [of 0 x] x by (simp add: in_page_def aligned_def word_less_nat_alt)
  have "zeroed udemo FRAME"
    using udemo1_zeroed [of FRAME] unfolding udemo_def udemo2_def grown_def by (intro zeroed_store) (auto simp: aligned_def)
  then have "udemo (FRAME + x) = 0" using x by (simp add: zeroed_def in_page_def word_less_nat_alt)
  then have "ubyte udemo ROOT x = 0" unfolding ubyte_def d f by simp
  then show "ubyte (mem user_boot) ROOT x = 0" using o(5) d f udemo_upage by simp
qed

theorem libc_pipe_roundtrip_witness:
  "\<exists>u v. m_sys_write (0x100, \<lambda>_. 7) 4 0x20 2 user_piped = (Ret (0, Some 2), u) \<and>
    m_sys_read (0x200, \<lambda>_. 8) 3 0x40 2 u = (Ret (0, Some 2), v) \<and> user_mode 0 v \<and> pipe_q (pipes v 0x80200000) = []"
proof -
  have page: "PGROUNDDOWN x = 0" if "x < 0x1000" for x
    using that in_page_aligned [of 0 x] by (simp add: in_page_def aligned_def word_less_nat_alt)
  have j: "j = 0 \<or> j = 1" if "j < 2" for j :: nat using that by linarith
  have env: "pt_ok [] (mem user_boot) ROOT" "cproc (mycpu (ctl user_piped)) = Some 0"
    using env_outside(1) [OF udemo_ok udemo_tf user_boot_outside] by simp_all
  have "tf_private 0 user_piped" using user_boot_page by (simp add: tf_private_def)
  moreover have "pipe_end True 0 user_piped 4 0x80200000" "pipe_end False 0 user_piped 3 0x80200000"
    by (simp_all add: pipe_end_def user_piped_def)
  moreover have "upage (mem user_boot) ROOT (PGROUNDDOWN (0x20 + of_nat j)) \<and> ubyte (mem user_boot) ROOT (0x20 + of_nat j) = [0, 0] ! j"
      "wpage (mem user_boot) ROOT (PGROUNDDOWN (0x40 + of_nat j))" if "j < 2" for j
    using j [OF that] user_boot_page page [of "0x20"] page [of "0x21"] page [of "0x40"] page [of "0x41"] by auto
  then have "user_src 0 user_piped 0x20 [0, 0]" "user_buf 0 user_piped 0x40 2"
    using env user_boot_page(4) unfolding user_src_def user_buf_def user_piped_simps by auto
  moreover from this(2) have "user_buf 0 user_piped 0x40 (Suc (Suc 0))" by (metis Suc_1 One_nat_def)
  ultimately show ?thesis
    using libc_pipe_roundtrip [OF user_piped_mode, of 4 "0x80200000" 3 "[0, 0]" "0x20" "0x40" "(0x100, \<lambda>_. 7)" "(0x200, \<lambda>_. 8)"] by auto
qed

section \<open>Memory through the library\<close>







end
