(* ===== verification/Scheduling.thy ===== *)
theory Scheduling
  imports Machine
begin

text \<open>
  Processes on several harts: the routines of \<open>kernel/proc.c\<close> and \<open>kernel/spinlock.c\<close> interleaved.

  A step is one critical section of one hart: the scheduler looks at a slot of the process table, dispatching the
  process if it is runnable, up to where the process has released its own lock again; or the process of a hart takes or
  releases a lock, goes to sleep, yields, wakes others up or kills one.  A step is taken only if the routine ends, so
  waiting for a lock is not taking a step; the kernel stops when it panics.
\<close>

section \<open>The machine\<close>

text \<open>The code a process continues with when it is dispatched, with the interrupt flag \<open>sched\<close> has saved; \<open>sleep\<close> goes on to
  take its lock again, in a step of its own.\<close>

datatype resume = Yielded bool | Slept bool

definition sleep_wake :: "nat \<Rightarrow> bool \<Rightarrow> (unit, 'a proc_state_scheme) routine" where
  "sleep_wake p ena =
     seq (sched_resume ena) (
     seq (upd_proc p (pchan_update (\<lambda>_. None))) (
     release (ProcLock p)))"

lemma sleep_resume_wake: "sleep_resume p lk ena = seq (sleep_wake p ena) (acquire lk)"
  by (simp add: sleep_resume_def sleep_wake_def seq_assoc)

fun resume_with :: "nat \<Rightarrow> resume \<Rightarrow> (unit, 'a proc_state_scheme) routine" where
  "resume_with p (Yielded ena) = yield_resume p ena"
| "resume_with p (Slept ena) = sleep_wake p ena"

text \<open>The state shared by the harts, the interrupt flag of each of them, and the continuations.\<close>

record system =
  kern :: proc_state
  hsie :: "nat \<Rightarrow> bool"
  saved :: "nat \<Rightarrow> resume option"

definition on :: "nat \<Rightarrow> system \<Rightarrow> proc_state" where
  "on h S = (kern S)\<lparr>ctl := (ctl (kern S))\<lparr>hartid := h, sie := hsie S h\<rparr>\<rparr>"

definition off :: "nat \<Rightarrow> proc_state \<Rightarrow> system \<Rightarrow> system" where
  "off h t S = S\<lparr>kern := t, hsie := (hsie S)(h := sie (ctl t))\<rparr>"

definition runs :: "nat \<Rightarrow> system \<Rightarrow> nat option" where
  "runs h S = cproc (cpus (ctl (kern S)) h)"

definition put_saved :: "nat \<Rightarrow> resume option \<Rightarrow> system \<Rightarrow> system" where
  "put_saved p r S = S\<lparr>saved := (saved S)(p := r)\<rparr>"

inductive step :: "system \<Rightarrow> system \<Rightarrow> bool" where
  visit: "runs h S = None \<Longrightarrow> i < NPROC \<Longrightarrow> scheduler_visit i (on h S) = (Ret (), t) \<Longrightarrow> step S (off h t S)"
| dispatch: "runs h S = None \<Longrightarrow> i < NPROC \<Longrightarrow> scheduler_visit i (on h S) = (Swtch, t) \<Longrightarrow> saved S i = Some r \<Longrightarrow>
    resume_with i r t = (Ret (), u) \<Longrightarrow> step S (put_saved i None (off h u S))"
| yielding: "runs h S = Some p \<Longrightarrow> yield (on h S) = (Swtch, t) \<Longrightarrow> scheduler_resume p t = (Ret (), u) \<Longrightarrow>
    step S (put_saved p (Some (Yielded (intena (mycpu (ctl t))))) (off h u S))"
| sleeping: "runs h S = Some p \<Longrightarrow> sleep ch lk (on h S) = (Swtch :: unit outcome, t) \<Longrightarrow> scheduler_resume p t = (Ret (), u) \<Longrightarrow>
    step S (put_saved p (Some (Slept (intena (mycpu (ctl t))))) (off h u S))"
| locking: "runs h S = Some p \<Longrightarrow> (\<forall>i. lk \<noteq> ProcLock i) \<Longrightarrow> acquire lk (on h S) = (Ret (), t) \<Longrightarrow> step S (off h t S)"
| unlocking: "runs h S = Some p \<Longrightarrow> release lk (on h S) = (Ret (), t) \<Longrightarrow> step S (off h t S)"
| waking: "runs h S = Some p \<Longrightarrow> wakeup ch (on h S) = (Ret (), t) \<Longrightarrow> step S (off h t S)"
| killing: "runs h S = Some p \<Longrightarrow> kkill k (on h S) = (Ret r, t) \<Longrightarrow> step S (off h t S)"

inductive_cases stepE: "step S T"

section \<open>What a step does to the harts and the locks\<close>

definition cp :: "ctl \<Rightarrow> nat \<Rightarrow> nat option" where "cp c h = cproc (cpus c h)"
definition nf :: "ctl \<Rightarrow> nat \<Rightarrow> nat" where "nf c h = noff (cpus c h)"
definition own :: "ctl \<Rightarrow> lock_id \<Rightarrow> nat option" where "own c lk = lcpu (locks c lk)"
definition lkd :: "ctl \<Rightarrow> lock_id \<Rightarrow> bool" where "lkd c lk = locked (locks c lk)"

named_theorems views \<open>how the operations on the control state change its views\<close>

lemmas view_defs = cp_def nf_def own_def lkd_def

lemma view_acq [views]:
  "cp (acq lk c) = cp c" "nf (acq lk c) = (nf c)(hartid c := Suc (nf c (hartid c)))"
  "own (acq lk c) = (own c)(lk := Some (hartid c))" "lkd (acq lk c) = (lkd c)(lk := True)"
  by (auto simp: view_defs acq_def pushed_def upd_mycpu_def mycpu_def fun_eq_iff)

lemma view_rel [views]:
  "cp (rel lk c) = cp c" "nf (rel lk c) = (nf c)(hartid c := nf c (hartid c) - 1)"
  "own (rel lk c) = (own c)(lk := None)" "lkd (rel lk c) = (lkd c)(lk := False)"
  by (auto simp: view_defs rel_def popped_def upd_mycpu_def mycpu_def fun_eq_iff)

lemma view_settle [views]: "cp (settle c) = cp c" "nf (settle c) = nf c" "own (settle c) = own c" "lkd (settle c) = lkd c"
  by (auto simp: view_defs settle_def upd_mycpu_def mycpu_def fun_eq_iff)

lemma view_set [views]:
  "cp (c\<lparr>hartid := h, sie := b\<rparr>) = cp c" "nf (c\<lparr>hartid := h, sie := b\<rparr>) = nf c"
  "own (c\<lparr>hartid := h, sie := b\<rparr>) = own c" "lkd (c\<lparr>hartid := h, sie := b\<rparr>) = lkd c"
  by (auto simp: view_defs fun_eq_iff)

lemma view_cproc [views]:
  "cp (upd_mycpu (cproc_update (\<lambda>_. x)) c) = (cp c)(hartid c := x)" "nf (upd_mycpu (cproc_update (\<lambda>_. x)) c) = nf c"
  "own (upd_mycpu (cproc_update (\<lambda>_. x)) c) = own c" "lkd (upd_mycpu (cproc_update (\<lambda>_. x)) c) = lkd c"
  by (auto simp: view_defs upd_mycpu_def mycpu_def fun_eq_iff)

lemma view_intena [views]:
  "cp (upd_mycpu (intena_update (\<lambda>_. b)) c) = cp c" "nf (upd_mycpu (intena_update (\<lambda>_. b)) c) = nf c"
  "own (upd_mycpu (intena_update (\<lambda>_. b)) c) = own c" "lkd (upd_mycpu (intena_update (\<lambda>_. b)) c) = lkd c"
  by (auto simp: view_defs upd_mycpu_def mycpu_def fun_eq_iff)

section \<open>The routines, in these terms\<close>




lemma hartid_views [simp]: "hartid (rel lk c) = hartid c" "hartid (upd_mycpu f c) = hartid c" "sie (upd_mycpu f c) = sie c"
  by (simp_all add: rel_def popped_def upd_mycpu_def)

lemma sie_rel: "sie (rel lk c) = (nf c (hartid c) = 1 \<and> intena (mycpu c))"
  by (simp add: rel_def popped_def mycpu_def nf_def)

lemma visit_eq:
  assumes "lock_free (ProcLock i) (ctl s)"
  shows "scheduler_visit i s = (if pstate (procs s i) = RUNNABLE
    then (Swtch, s\<lparr>ctl := upd_mycpu (cproc_update (\<lambda>_. Some i)) (acq (ProcLock i) (ctl s)),
      procs := (procs s)(i := (procs s i)\<lparr>pstate := RUNNING\<rparr>)\<rparr>)
    else (Ret (), s\<lparr>ctl := settle (ctl s)\<rparr>))"
  using assms by (simp add: scheduler_visit_def kdefs acquire_ok release_ok upd_proc_def)







section \<open>The invariant\<close>














text \<open>What the hart's own state is, at the beginning of a step.\<close>

lemma on_sel [simp]: "procs (on h S) = procs (kern S)" "hartid (ctl (on h S)) = h" "sie (ctl (on h S)) = hsie S h"
  "cp (ctl (on h S)) = cp (ctl (kern S))" "nf (ctl (on h S)) = nf (ctl (kern S))"
  "own (ctl (on h S)) = own (ctl (kern S))" "lkd (ctl (on h S)) = lkd (ctl (kern S))"
  by (simp_all add: on_def views)

lemma off_sel [simp]: "kern (off h t S) = t" "saved (off h t S) = saved S" "kern (put_saved p r S) = kern S"
  "saved (put_saved p r S) = (saved S)(p := r)"
  by (simp_all add: off_def put_saved_def)






section \<open>Every step keeps it\<close>















section \<open>What follows for the running system\<close>








section \<open>Woken processes run\<close>

text \<open>A pass over the table passes by the slots that are not runnable and switches to the first that is.\<close>

lemma visit_none:
  "\<forall>i\<in>set xs. lock_free (ProcLock i) (ctl s) \<and> pstate (procs s i) \<noteq> RUNNABLE \<Longrightarrow>
   for_each xs scheduler_visit s = (Ret (), s\<lparr>ctl := (if xs = [] then ctl s else settle (ctl s))\<rparr>)"
  by (induction xs arbitrary: s) (simp_all add: seq_def bind_def visit_eq skip_def ret_def)





end
