(* ===== verification/Charcode.thy ===== *)
theory Charcode
  imports Kprelude
begin

text \<open>
  Characters in the C library: the UTF-8 coder of \<open>mlibc/options/internal/generic/charcode.cpp\<close>, the
  character classes of \<open>charset.cpp\<close>, and the functions of \<open>ctype.h\<close> and \<open>wchar.h\<close> on top of them.

  A \<open>code_seq\<close> that is read is the list of the units between \<open>it\<close> and \<open>end\<close>; one that is written is
  the number of units there is room for, and the units stored so far are part of the result.  A failing
  \<open>__ensure\<close>, which ends the process, is the value \<open>None\<close>.
\<close>

section \<open>The coder\<close>

type_synonym codepoint = u32

datatype charcode_error = Cnull | Cdirty | Cillegal_input | Cinput_underflow | Coutput_overflow

record decode_state =
  progress :: nat
  cpoint :: codepoint

definition decode_init :: decode_state where
  "decode_init = \<lparr>progress = 0, cpoint = 0\<rparr>"

text \<open>One code unit for \<open>utf8_charcode::decode_state\<close>.  The unit is consumed unless the result is an error.\<close>

definition decode_unit :: "decode_state \<Rightarrow> byte \<Rightarrow> (charcode_error \<times> decode_state) option" where
  "decode_unit ds uc =
     (if progress ds = 0 then
        if uc AND 0x80 = 0 then Some (Cnull, ds\<lparr>cpoint := ucast uc\<rparr>)
        else if uc AND 0xE0 = 0xC0 then Some (Cnull, \<lparr>progress = 1, cpoint = ucast (uc AND 0x1F)\<rparr>)
        else if uc AND 0xF0 = 0xE0 then Some (Cnull, \<lparr>progress = 2, cpoint = ucast (uc AND 0xF)\<rparr>)
        else if uc AND 0xF8 = 0xF0 then Some (Cnull, \<lparr>progress = 3, cpoint = ucast (uc AND 7)\<rparr>)
        else if uc AND 0xC0 = 0x80 \<or> uc AND 0xF8 = 0xF8 then Some (Cillegal_input, ds)
        else None
      else if uc AND 0xC0 = 0x80
        then Some (Cnull, \<lparr>progress = progress ds - 1, cpoint = push_bit 6 (cpoint ds) OR ucast (uc AND 0x3F)\<rparr>)
        else None)"

text \<open>The stores of \<open>utf8_charcode::encode_state\<close> (\<open>NSEQ_STORE\<close>), one after the other while there is room, and the
  units of a code point.\<close>

fun nseq_store :: "byte list \<Rightarrow> nat \<Rightarrow> charcode_error \<times> byte list" where
  "nseq_store [] room = (Cnull, [])"
| "nseq_store (b # bs) 0 = (Coutput_overflow, [])"
| "nseq_store (b # bs) (Suc room) = (let (e, out) = nseq_store bs room in (e, b # out))"

definition encode_unit :: "nat \<Rightarrow> codepoint \<Rightarrow> charcode_error \<times> byte list" where
  "encode_unit room wc =
     (if wc \<le> 0x7F then nseq_store [ucast wc] room
      else if wc \<le> 0x7FF then
        nseq_store [ucast (0xC0 OR drop_bit 6 wc), ucast (0x80 OR (wc AND 0x3F))] room
      else if wc \<le> 0xFFFF then
        nseq_store [ucast (0xE0 OR drop_bit 12 wc), ucast (0x80 OR (drop_bit 6 wc AND 0x3F)),
          ucast (0x80 OR (wc AND 0x3F))] room
      else if wc \<le> 0x10FFFF then
        nseq_store [ucast (0xF0 OR drop_bit 18 wc), ucast (0x80 OR (drop_bit 12 wc AND 0x3F)),
          ucast (0x80 OR (drop_bit 6 wc AND 0x3F)), ucast (0x80 OR (wc AND 0x3F))] room
      else (Cillegal_input, []))"

section \<open>Sequences\<close>

text \<open>\<open>decode\<close> and \<open>decode_wtranscode\<close>: the loop over the units \<open>dec\<close> still to be decoded; \<open>nseq\<close> is what the caller
  finds unconsumed, \<open>out\<close> what has been stored.\<close>

fun decode_loop :: "decode_state \<Rightarrow> byte list \<Rightarrow> byte list \<Rightarrow> nat \<Rightarrow> codepoint list \<Rightarrow>
    (charcode_error \<times> byte list \<times> codepoint list) option" where
  "decode_loop ds [] nseq room out = Some (if progress ds \<noteq> 0 then Cinput_underflow else Cnull, nseq, out)"
| "decode_loop ds (b # dec) nseq 0 out = Some (if progress ds \<noteq> 0 then Cinput_underflow else Cnull, nseq, out)"
| "decode_loop ds (b # dec) nseq (Suc room) out =
     (case decode_unit ds b of
        None \<Rightarrow> None
      | Some (e, ds') \<Rightarrow>
          if e \<noteq> Cnull then Some (e, nseq, out)
          else if progress ds' = 0 then
            if cpoint ds' = 0 then Some (Cnull, dec, out)
            else decode_loop ds' dec dec room (out @ [cpoint ds'])
          else decode_loop ds' dec nseq (Suc room) out)"

definition decode :: "byte list \<Rightarrow> nat \<Rightarrow> (charcode_error \<times> byte list \<times> codepoint list) option" where
  "decode nseq room = decode_loop decode_init nseq nseq room []"

definition decode_wtranscode :: "byte list \<Rightarrow> nat \<Rightarrow> (charcode_error \<times> byte list \<times> codepoint list) option" where
  "decode_wtranscode nseq room = decode_loop decode_init nseq nseq room []"

fun decode_length_loop :: "decode_state \<Rightarrow> byte list \<Rightarrow> byte list \<Rightarrow> nat \<Rightarrow> (charcode_error \<times> byte list \<times> nat) option" where
  "decode_length_loop ds [] nseq n = Some (if progress ds \<noteq> 0 then Cinput_underflow else Cnull, nseq, n)"
| "decode_length_loop ds (b # dec) nseq n =
     (case decode_unit ds b of
        None \<Rightarrow> None
      | Some (e, ds') \<Rightarrow>
          if e \<noteq> Cnull then Some (e, nseq, n)
          else if progress ds' = 0 then
            if cpoint ds' = 0 then Some (Cnull, dec, n)
            else decode_length_loop ds' dec dec (Suc n)
          else decode_length_loop ds' dec nseq n)"

definition decode_wtranscode_length :: "byte list \<Rightarrow> (charcode_error \<times> byte list \<times> nat) option" where
  "decode_wtranscode_length nseq = decode_length_loop decode_init nseq nseq 0"

text \<open>\<open>encode_wtranscode\<close>: \<open>enc\<close> are the units stored, \<open>out\<close> those of complete characters; \<open>room\<close> is the room behind
  \<open>enc\<close>.\<close>

fun encode_loop :: "codepoint list \<Rightarrow> nat \<Rightarrow> byte list \<Rightarrow> byte list \<Rightarrow> charcode_error \<times> codepoint list \<times> byte list" where
  "encode_loop [] room enc out = (if length enc \<noteq> length out then Coutput_overflow else Cnull, [], out)"
| "encode_loop (cp # wseq) room enc out =
     (if room = 0 then (if length enc \<noteq> length out then Coutput_overflow else Cnull, cp # wseq, out)
      else if cp = 0 then (Cnull, cp # wseq, out)
      else let (e, bs) = encode_unit room cp in
        if e \<noteq> Cnull then (e, cp # wseq, out)
        else encode_loop wseq (room - length bs) (enc @ bs) (enc @ bs))"

definition encode_wtranscode :: "codepoint list \<Rightarrow> nat \<Rightarrow> charcode_error \<times> codepoint list \<times> byte list" where
  "encode_wtranscode wseq room = encode_loop wseq room [] []"

fun encode_length_loop :: "codepoint list \<Rightarrow> nat \<Rightarrow> charcode_error \<times> codepoint list \<times> nat" where
  "encode_length_loop [] n = (Cnull, [], n)"
| "encode_length_loop (cp # wseq) n =
     (if cp = 0 then (Cnull, cp # wseq, n)
      else let (e, bs) = encode_unit 4 cp in
        if e \<noteq> Cnull then (e, cp # wseq, n) else encode_length_loop wseq (Suc n))"

definition encode_wtranscode_length :: "codepoint list \<Rightarrow> charcode_error \<times> codepoint list \<times> nat" where
  "encode_wtranscode_length wseq = encode_length_loop wseq 0"

text \<open>A single unit, for the functions of \<open>ctype.h\<close>.\<close>

definition promote :: "byte \<Rightarrow> (charcode_error \<times> codepoint) option" where
  "promote nc =
     (if nc \<le> 0x7F then Some (Cnull, ucast nc)
      else case decode [nc] 1 of
        None \<Rightarrow> None
      | Some (e, nseq, ws) \<Rightarrow>
          if e \<noteq> Cnull then Some (e, 0)
          else if nseq = [] \<and> length ws = 1 then Some (Cnull, hd ws) else None)"

section \<open>Character classes\<close>

definition is_alpha :: "codepoint \<Rightarrow> bool" where
  "is_alpha c \<longleftrightarrow> c \<le> 0x7F \<and> (0x61 \<le> c \<and> c \<le> 0x7A \<or> 0x41 \<le> c \<and> c \<le> 0x5A)"

definition is_digit :: "codepoint \<Rightarrow> bool" where
  "is_digit c \<longleftrightarrow> c \<le> 0x7F \<and> 0x30 \<le> c \<and> c \<le> 0x39"

definition is_xdigit :: "codepoint \<Rightarrow> bool" where
  "is_xdigit c \<longleftrightarrow> c \<le> 0x7F \<and> (0x30 \<le> c \<and> c \<le> 0x39 \<or> 0x61 \<le> c \<and> c \<le> 0x66 \<or> 0x41 \<le> c \<and> c \<le> 0x46)"

definition is_alnum :: "codepoint \<Rightarrow> bool" where
  "is_alnum c \<longleftrightarrow> c \<le> 0x7F \<and> (0x30 \<le> c \<and> c \<le> 0x39 \<or> 0x61 \<le> c \<and> c \<le> 0x7A \<or> 0x41 \<le> c \<and> c \<le> 0x5A)"

definition is_punct :: "codepoint \<Rightarrow> bool" where
  "is_punct c \<longleftrightarrow> c \<le> 0x7F \<and> c \<in> {0x21, 0x22, 0x23, 0x24, 0x25, 0x26, 0x27, 0x28, 0x29, 0x2A, 0x2B, 0x2C, 0x2D, 0x2E, 0x2F,
     0x3A, 0x3B, 0x3C, 0x3D, 0x3E, 0x3F, 0x40, 0x5B, 0x5C, 0x5D, 0x5E, 0x5F, 0x60, 0x7B, 0x7C, 0x7D, 0x7E}"

definition is_graph :: "codepoint \<Rightarrow> bool" where
  "is_graph c \<longleftrightarrow> c \<le> 0x7F \<and> 0x21 \<le> c \<and> c \<le> 0x7E"

definition is_blank :: "codepoint \<Rightarrow> bool" where
  "is_blank c \<longleftrightarrow> c \<le> 0x7F \<and> (c = 0x20 \<or> c = 9)"

definition is_space :: "codepoint \<Rightarrow> bool" where
  "is_space c \<longleftrightarrow> c \<le> 0x7F \<and> (c = 0x20 \<or> c = 9 \<or> c = 10 \<or> c = 11 \<or> c = 12 \<or> c = 13)"

definition is_print :: "codepoint \<Rightarrow> bool" where
  "is_print c \<longleftrightarrow> c \<le> 0x7F \<and> 0x20 \<le> c \<and> c \<le> 0x7E"

definition is_lower :: "codepoint \<Rightarrow> bool" where
  "is_lower c \<longleftrightarrow> c \<le> 0x7F \<and> 0x61 \<le> c \<and> c \<le> 0x7A"

definition is_upper :: "codepoint \<Rightarrow> bool" where
  "is_upper c \<longleftrightarrow> c \<le> 0x7F \<and> 0x41 \<le> c \<and> c \<le> 0x5A"

definition to_lower :: "codepoint \<Rightarrow> codepoint" where
  "to_lower c = (if c \<le> 0x7F \<and> 0x41 \<le> c \<and> c \<le> 0x5A then c - 0x41 + 0x61 else c)"

definition to_upper :: "codepoint \<Rightarrow> codepoint" where
  "to_upper c = (if c \<le> 0x7F \<and> 0x61 \<le> c \<and> c \<le> 0x7A then c - 0x61 + 0x41 else c)"

definition generic_is_control :: "codepoint \<Rightarrow> bool" where
  "generic_is_control c \<longleftrightarrow> c \<le> 0x1F \<or> c = 0x7F \<or> 0x80 \<le> c \<and> c \<le> 0x9F"

text \<open>The functions of \<open>ctype.h\<close> hand their argument, reduced to a \<open>char\<close>, to \<open>promote\<close>.\<close>

definition ctype_of :: "(codepoint \<Rightarrow> 'a) \<Rightarrow> 'a \<Rightarrow> byte \<Rightarrow> 'a option" where
  "ctype_of f other nc =
     (case promote nc of None \<Rightarrow> None | Some (e, cp) \<Rightarrow> Some (if e \<noteq> Cnull then other else f cp))"

definition isalpha :: "int \<Rightarrow> bool option" where "isalpha nc = ctype_of is_alpha False (word_of_int nc)"
definition isdigit :: "int \<Rightarrow> bool option" where "isdigit nc = ctype_of is_digit False (word_of_int nc)"
definition isxdigit :: "int \<Rightarrow> bool option" where "isxdigit nc = ctype_of is_xdigit False (word_of_int nc)"
definition isalnum :: "int \<Rightarrow> bool option" where "isalnum nc = ctype_of is_alnum False (word_of_int nc)"
definition ispunct :: "int \<Rightarrow> bool option" where "ispunct nc = ctype_of is_punct False (word_of_int nc)"
definition isgraph :: "int \<Rightarrow> bool option" where "isgraph nc = ctype_of is_graph False (word_of_int nc)"
definition isblank :: "int \<Rightarrow> bool option" where "isblank nc = ctype_of is_blank False (word_of_int nc)"
definition isspace :: "int \<Rightarrow> bool option" where "isspace nc = ctype_of is_space False (word_of_int nc)"
definition isprint :: "int \<Rightarrow> bool option" where "isprint nc = ctype_of is_print False (word_of_int nc)"
definition islower :: "int \<Rightarrow> bool option" where "islower nc = ctype_of is_lower False (word_of_int nc)"
definition isupper :: "int \<Rightarrow> bool option" where "isupper nc = ctype_of is_upper False (word_of_int nc)"
definition iscntrl :: "int \<Rightarrow> bool option" where "iscntrl nc = ctype_of generic_is_control False (word_of_int nc)"
definition tolower :: "int \<Rightarrow> int option" where "tolower nc = ctype_of (\<lambda>cp. uint (to_lower cp)) nc (word_of_int nc)"
definition toupper :: "int \<Rightarrow> int option" where "toupper nc = ctype_of (\<lambda>cp. uint (to_upper cp)) nc (word_of_int nc)"

section \<open>Bytes of a character\<close>

lemma small_cases:
  assumes "list_all P (map of_nat [0..<n])" "unat (y :: 'a::len word) < n"
  shows "P y"
proof -
  have "y = of_nat (unat y)" by simp
  then have "y \<in> set (map of_nat [0..<n])" using assms(2) by (metis atLeastLessThan_iff imageI list.set_map set_upt zero_le)
  then show ?thesis using assms(1) by (auto simp: list_all_iff)
qed

lemma ascii_byte: "unat y < 128 \<Longrightarrow> ucast (y :: u32) AND 0x80 = (0 :: byte) \<and> ucast (ucast y :: byte) = y"
  by (rule small_cases [where n = 128]) (code_simp, simp)

lemma lead2_byte:
  "unat y < 32 \<Longrightarrow> (let b = ucast (0xC0 OR (y :: u32)) :: byte in b AND 0x80 \<noteq> 0 \<and> b AND 0xE0 = 0xC0 \<and> ucast (b AND 0x1F) = y)"
  by (rule small_cases [where n = 32]) (code_simp, simp)

lemma lead3_byte:
  "unat y < 16 \<Longrightarrow> (let b = ucast (0xE0 OR (y :: u32)) :: byte in b AND 0x80 \<noteq> 0 \<and> b AND 0xE0 \<noteq> 0xC0 \<and> b AND 0xF0 = 0xE0 \<and>
    ucast (b AND 0xF) = y)"
  by (rule small_cases [where n = 16]) (code_simp, simp)

lemma lead4_byte:
  "unat y < 8 \<Longrightarrow> (let b = ucast (0xF0 OR (y :: u32)) :: byte in b AND 0x80 \<noteq> 0 \<and> b AND 0xE0 \<noteq> 0xC0 \<and> b AND 0xF0 \<noteq> 0xE0 \<and>
    b AND 0xF8 = 0xF0 \<and> ucast (b AND 7) = y)"
  by (rule small_cases [where n = 8]) (code_simp, simp)

lemma and_3F: "(x :: u32) AND 0x3F = take_bit 6 x"
  by (simp add: take_bit_eq_mask mask_eq_exp_minus_1)

lemma cont_small: "unat y < 64 \<Longrightarrow> (let b = ucast (0x80 OR (y :: u32)) :: byte in b AND 0xC0 = 0x80 \<and> ucast (b AND 0x3F) = y)"
  by (rule small_cases [where n = 64]) (code_simp, simp)

lemma cont_byte: "(let b = ucast (0x80 OR (x AND 0x3F :: u32)) :: byte in b AND 0xC0 = 0x80 \<and> ucast (b AND 0x3F) = x AND 0x3F)"
  by (rule cont_small) (use take_bit_nat_less_exp [of 6 "unat x"] in \<open>simp add: and_3F unsigned_take_bit_eq\<close>)

lemma join_bits: "push_bit 6 (drop_bit 6 w) OR (w AND 0x3F) = (w :: u32)"
  unfolding and_3F by (rule bit_word_eqI) (auto simp: bit_simps)

lemma unat_drop: "unat (drop_bit k w) = unat w div 2 ^ k"
  using take_bit_nat_eq_self [OF unsigned_less [of w]] by (simp add: unsigned_drop_bit_eq drop_bit_nat_def)


section \<open>Characters survive encoding and decoding\<close>

text \<open>The units of a character, and that decoding them stores the character.\<close>

definition utf8 :: "codepoint \<Rightarrow> byte list" where
  "utf8 cp = snd (encode_unit 4 cp)"

lemma nseq_store_room: "length bs \<le> room \<Longrightarrow> nseq_store bs room = (Cnull, bs)"
  by (induction bs room rule: nseq_store.induct) simp_all

lemma utf8_eq:
  "utf8 cp =
     (if cp \<le> 0x7F then [ucast cp]
      else if cp \<le> 0x7FF then [ucast (0xC0 OR drop_bit 6 cp), ucast (0x80 OR (cp AND 0x3F))]
      else if cp \<le> 0xFFFF then
        [ucast (0xE0 OR drop_bit 12 cp), ucast (0x80 OR (drop_bit 6 cp AND 0x3F)), ucast (0x80 OR (cp AND 0x3F))]
      else if cp \<le> 0x10FFFF then
        [ucast (0xF0 OR drop_bit 18 cp), ucast (0x80 OR (drop_bit 12 cp AND 0x3F)),
          ucast (0x80 OR (drop_bit 6 cp AND 0x3F)), ucast (0x80 OR (cp AND 0x3F))]
      else [])"
  unfolding utf8_def encode_unit_def by (simp add: nseq_store_room)

lemma decode_units:
  "cp \<le> 0x10FFFF \<Longrightarrow> cp \<noteq> 0 \<Longrightarrow> progress ds = 0 \<Longrightarrow>
   decode_loop ds (utf8 cp @ rest) nseq (Suc k) out = decode_loop \<lparr>progress = 0, cpoint = cp\<rparr> rest rest k (out @ [cp])"
proof -
  assume cp: "cp \<le> 0x10FFFF" "cp \<noteq> 0" and ds: "progress ds = 0"
  have d: "drop_bit 6 (drop_bit 6 cp) = drop_bit 12 cp" "drop_bit 6 (drop_bit 12 cp) = drop_bit 18 cp" by simp_all
  note j = join_bits [of cp] join_bits [of "drop_bit 6 cp", unfolded d] join_bits [of "drop_bit 12 cp", unfolded d]
  note c = cont_byte [unfolded Let_def]
  consider "cp \<le> 0x7F" | "\<not> cp \<le> 0x7F" "cp \<le> 0x7FF" | "\<not> cp \<le> 0x7F" "\<not> cp \<le> 0x7FF" "cp \<le> 0xFFFF"
    | "\<not> cp \<le> 0x7F" "\<not> cp \<le> 0x7FF" "\<not> cp \<le> 0xFFFF" by blast
  then show ?thesis
  proof cases
    case 1
    then have "unat cp < 128" by (simp add: word_le_nat_alt)
    then show ?thesis using 1 cp ascii_byte [of cp] ds by (cases ds) (simp add: utf8_eq decode_unit_def)
  next
    case 2
    then have "unat (drop_bit 6 cp) < 32" by (simp add: word_le_nat_alt unat_drop)
    note l = lead2_byte [OF this, unfolded Let_def]
    show ?thesis using 2 cp l c [of cp] j(1) ds by (simp add: utf8_eq decode_unit_def)
  next
    case 3
    then have "unat (drop_bit 12 cp) < 16" by (simp add: word_le_nat_alt unat_drop)
    note l = lead3_byte [OF this, unfolded Let_def]
    show ?thesis using 3 cp l c [of cp] c [of "drop_bit 6 cp"] j(1,2) ds by (simp add: utf8_eq decode_unit_def)
  next
    case 4
    then have "unat (drop_bit 18 cp) < 8" using cp by (simp add: word_le_nat_alt unat_drop)
    note l = lead4_byte [OF this, unfolded Let_def]
    show ?thesis using 4 cp l c [of cp] c [of "drop_bit 6 cp"] c [of "drop_bit 12 cp"] j ds
      by (simp add: utf8_eq decode_unit_def)
  qed
qed

lemma encode_unit_room: "cp \<le> 0x10FFFF \<Longrightarrow> 4 \<le> room \<Longrightarrow> encode_unit room cp = (Cnull, utf8 cp) \<and> length (utf8 cp) \<in> {1..4}"
  by (simp add: utf8_def encode_unit_def nseq_store_room)

lemma encode_loop_valid:
  "\<forall>cp\<in>set cs. cp \<noteq> 0 \<and> cp \<le> 0x10FFFF \<Longrightarrow> 4 * length cs \<le> room \<Longrightarrow> encode_loop cs room out out = (Cnull, [], out @ concat (map utf8 cs))"
proof (induction cs arbitrary: room out)
  case (Cons cp cs)
  then have u: "encode_unit room cp = (Cnull, utf8 cp)" "length (utf8 cp) \<le> 4" using encode_unit_room [of cp room] by auto
  then have "4 * length cs \<le> room - length (utf8 cp)" using Cons.prems(2) by simp
  then show ?case using Cons u by simp
qed simp

lemma decode_loop_valid:
  "\<forall>cp\<in>set cs. cp \<noteq> 0 \<and> cp \<le> 0x10FFFF \<Longrightarrow> length cs \<le> room \<Longrightarrow> progress ds = 0 \<Longrightarrow> cs \<noteq> [] \<or> nseq = [] \<Longrightarrow>
   decode_loop ds (concat (map utf8 cs)) nseq room out = Some (Cnull, [], out @ cs)"
proof (induction cs arbitrary: ds nseq room out)
  case (Cons cp cs)
  then obtain k where k: "room = Suc k" "length cs \<le> k" by (cases room) auto
  show ?case
    using Cons.IH [of k "\<lparr>progress = 0, cpoint = cp\<rparr>" "concat (map utf8 cs)" "out @ [cp]"] Cons.prems k
      decode_units [of cp ds "concat (map utf8 cs)" nseq k out]
    by (cases cs) simp_all
qed simp


text \<open>The decoder that only counts stores nothing and is otherwise the same.\<close>

lemma decode_length_loop_eq:
  "length dec \<le> room \<Longrightarrow> decode_length_loop ds dec nseq (length out) =
   map_option (\<lambda>(e, q, cs). (e, q, length cs)) (decode_loop ds dec nseq room out)"
proof (induction dec arbitrary: ds nseq room out)
  case (Cons b dec)
  then obtain k where k: "room = Suc k" "length dec \<le> k" by (cases room) auto
  show ?case
    using k Cons.IH [of "Suc k" _ nseq out] Cons.IH [of k _ dec "out @ [_]"] by (auto split: option.splits)
qed simp

lemma decode_length_valid:
  assumes "\<forall>cp\<in>set cs. cp \<noteq> 0 \<and> cp \<le> 0x10FFFF"
  shows "decode_wtranscode_length (concat (map utf8 cs)) = Some (Cnull, [], length cs)"
proof -
  let ?bs = "concat (map utf8 cs)"
  let ?room = "max (length ?bs) (length cs)"
  have "decode_loop decode_init ?bs ?bs ?room [] = Some (Cnull, [], cs)"
    using decode_loop_valid [OF assms, of ?room decode_init ?bs "[]"] by (cases cs) (simp_all add: decode_init_def)
  then show ?thesis
    using decode_length_loop_eq [of ?bs ?room decode_init ?bs "[]"] by (simp add: decode_wtranscode_length_def)
qed

text \<open>C23. Text survives UTF-8.  A sequence of code points that are not NUL, for which there is room, is encoded without an error,
  into at most four bytes each, and decoding the bytes gives the sequence back and consumes them all.\<close>

theorem utf8_roundtrip:
  assumes "\<forall>cp\<in>set cs. cp \<noteq> 0 \<and> cp \<le> 0x10FFFF" "4 * length cs \<le> room" "length cs \<le> wroom"
  shows "\<exists>bs. encode_wtranscode cs room = (Cnull, [], bs) \<and> length bs \<le> 4 * length cs \<and>
    decode_wtranscode bs wroom = Some (Cnull, [], cs) \<and> decode_wtranscode_length bs = Some (Cnull, [], length cs)"
proof -
  let ?bs = "concat (map utf8 cs)"
  have "encode_wtranscode cs room = (Cnull, [], ?bs)" using encode_loop_valid [OF assms(1,2)] by (simp add: encode_wtranscode_def)
  moreover have "length ?bs \<le> 4 * length cs" using assms(1)
  proof (induction cs)
    case (Cons cp cs)
    then show ?case using encode_unit_room [of cp 4] by auto
  qed simp
  moreover have "decode_wtranscode ?bs wroom = Some (Cnull, [], cs)"
    using decode_loop_valid [OF assms(1,3), of decode_init ?bs "[]"] by (cases cs) (simp_all add: decode_wtranscode_def decode_init_def)
  ultimately show ?thesis using decode_length_valid [OF assms(1)] by blast
qed

theorem utf8_roundtrip_witness:
  "\<exists>bs. encode_wtranscode [0x48, 0xE9, 0x20AC, 0x1F600] 16 = (Cnull, [], bs) \<and>
     decode_wtranscode bs 4 = Some (Cnull, [], [0x48, 0xE9, 0x20AC, 0x1F600])"
  using utf8_roundtrip [of "[0x48, 0xE9, 0x20AC, 0x1F600]" 16 4] by auto

text \<open>The functions of \<open>ctype.h\<close> always answer, and with false for every unit outside ASCII.\<close>

lemma bit_byte: "(x = (y :: byte)) \<longleftrightarrow> (\<forall>n\<in>{0,1,2,3,4,5,6,7}. bit x n = bit y n)"
proof
  assume b: "\<forall>n\<in>{0,1,2,3,4,5,6,7}. bit x n = bit y n"
  show "x = y"
  proof (rule bit_word_eqI)
    fix n assume "n < LENGTH(8)"
    then have "n \<in> {0,1,2,3,4,5,6,7}" by auto
    then show "bit x n = bit y n" using b by blast
  qed
qed simp

lemma lead_masks:
  "(uc :: byte) AND 0x80 = 0 \<longleftrightarrow> \<not> bit uc 7"
  "uc AND 0xE0 = 0xC0 \<longleftrightarrow> \<not> bit uc 5 \<and> bit uc 6 \<and> bit uc 7"
  "uc AND 0xF0 = 0xE0 \<longleftrightarrow> \<not> bit uc 4 \<and> bit uc 5 \<and> bit uc 6 \<and> bit uc 7"
  "uc AND 0xF8 = 0xF0 \<longleftrightarrow> \<not> bit uc 3 \<and> bit uc 4 \<and> bit uc 5 \<and> bit uc 6 \<and> bit uc 7"
  "uc AND 0xC0 = 0x80 \<longleftrightarrow> \<not> bit uc 6 \<and> bit uc 7"
  "uc AND 0xF8 = 0xF8 \<longleftrightarrow> bit uc 3 \<and> bit uc 4 \<and> bit uc 5 \<and> bit uc 6 \<and> bit uc 7"
  by (simp_all add: bit_byte bit_and_iff bit_0)

lemma ascii_bit: "(uc :: byte) \<le> 0x7F \<longleftrightarrow> \<not> bit uc 7"
proof (cases "unat uc < 128")
  case True
  then show ?thesis using not_bit_ge [of uc 7 7] by (simp add: word_le_nat_alt)
next
  case False
  then have "unat uc div 128 = 1" using unsigned_less [of uc, where 'a = nat] by (intro div_nat_eqI) simp_all
  then have "bit (unat uc) 7" by (simp add: bit_iff_odd)
  then show ?thesis using False by (simp add: word_le_nat_alt bit_unsigned_iff)
qed

lemma ctype_of_eq: "ctype_of f other nc = Some (if nc \<le> 0x7F then f (ucast nc) else other)"
  by (simp add: ctype_of_def promote_def decode_def decode_init_def decode_unit_def lead_masks ascii_bit)

end
