(* ===== verification/Strtol.thy ===== *)
theory Strtol
  imports Charcode "HOL-Library.Signed_Division"
begin

text \<open>
  Numbers in text: \<open>stringToInteger\<close> of \<open>mlibc/options/internal/include/mlibc/strtol.hpp\<close> and the functions of
  \<open>stdlib.h\<close> that are instances of it.

  A string is the list of its bytes without the terminating NUL, which is what is read at its end; the code
  reads no further.  The type parameter \<open>Return\<close> is a flag (signed or unsigned, 64 bits on this platform);
  its values are integers, reduced to the type where the C code converts or wraps.  The result is the value, the
  offset that is stored in \<open>*endptr\<close>, and whether \<open>errno\<close> becomes \<open>ERANGE\<close>.
\<close>

section \<open>Definitions\<close>

definition int_limits_max :: "bool \<Rightarrow> int" where
  "int_limits_max sgnd = (if sgnd then 2 ^ 63 - 1 else 2 ^ 64 - 1)"

definition int_limits_min :: "bool \<Rightarrow> int" where
  "int_limits_min sgnd = (if sgnd then - (2 ^ 63) else 0)"

definition to_unsigned :: "int \<Rightarrow> int" where
  "to_unsigned x = x mod 2 ^ 64"

definition to_return :: "bool \<Rightarrow> int \<Rightarrow> int" where
  "to_return sgnd x = (if sgnd then (x + 2 ^ 63) mod 2 ^ 64 - 2 ^ 63 else x mod 2 ^ 64)"

definition char_at :: "byte list \<Rightarrow> nat \<Rightarrow> byte" where
  "char_at s i = (if i < length s then s ! i else 0)"

definition isSpace :: "byte \<Rightarrow> bool" where "isSpace c \<longleftrightarrow> isspace (uint c) = Some True"
definition isDigit :: "byte \<Rightarrow> bool" where "isDigit c \<longleftrightarrow> isdigit (uint c) = Some True"
definition isHexDigit :: "byte \<Rightarrow> bool" where "isHexDigit c \<longleftrightarrow> isxdigit (uint c) = Some True"
definition isLower :: "byte \<Rightarrow> bool" where "isLower c \<longleftrightarrow> islower (uint c) = Some True"
definition isUpper :: "byte \<Rightarrow> bool" where "isUpper c \<longleftrightarrow> isupper (uint c) = Some True"

text \<open>The sign, and the prefix of the number: how many characters it takes and the base it means.\<close>

definition int_sign :: "byte list \<Rightarrow> bool \<times> nat" where
  "int_sign s = (if char_at s 0 = 0x2D then (True, 1) else if char_at s 0 = 0x2B then (False, 1) else (False, 0))"

definition int_prefix :: "byte list \<Rightarrow> int \<Rightarrow> nat \<times> int" where
  "int_prefix s base =
     (let hasOctalPrefix = char_at s 0 = 0x30;
          hasHexPrefix = hasOctalPrefix \<and> (char_at s 1 = 0x78 \<or> char_at s 1 = 0x58);
          hasBinPrefix = hasOctalPrefix \<and> (char_at s 1 = 0x62 \<or> char_at s 1 = 0x42)
      in if (base = 0 \<or> base = 16) \<and> hasHexPrefix \<and> isHexDigit (char_at s 2) then (2, 16)
         else if (base = 0 \<or> base = 2) \<and> hasBinPrefix then (2, 2)
         else if (base = 0 \<or> base = 8) \<and> hasOctalPrefix then (0, 8)
         else if base = 0 then (0, 10)
         else (0, base))"

text \<open>The range of acceptable values, as a quotient and a remainder.\<close>

definition int_cutoff :: "bool \<Rightarrow> bool \<Rightarrow> int \<Rightarrow> int \<times> int" where
  "int_cutoff sgnd negative base =
     (if \<not> sgnd then (int_limits_max sgnd div base, int_limits_max sgnd mod base)
      else let co = if negative then int_limits_min sgnd else int_limits_max sgnd;
               cutlim = if negative then - (co smod base) else co smod base
           in (to_unsigned (co sdiv (if negative then - base else base)), to_unsigned cutlim))"

definition digit_value :: "byte \<Rightarrow> int option" where
  "digit_value c =
     (if isDigit c then Some (uint c - 0x30)
      else if isUpper c then Some (uint c - 0x41 + 10)
      else if isLower c then Some (uint c - 0x61 + 10)
      else None)"

text \<open>The loop over the digits: \<open>k\<close> is the offset of \<open>s\<close> from the start of the string.\<close>

fun convert_loop :: "int \<Rightarrow> int \<Rightarrow> int \<Rightarrow> byte list \<Rightarrow> nat \<Rightarrow> int \<Rightarrow> bool \<Rightarrow> bool \<Rightarrow> nat \<times> int \<times> bool \<times> bool" where
  "convert_loop base cutoff cutlim [] k totalValue convertedAny outOfRange = (k, totalValue, convertedAny, outOfRange)"
| "convert_loop base cutoff cutlim (c # s) k totalValue convertedAny outOfRange =
     (case digit_value c of
        None \<Rightarrow> (k, totalValue, convertedAny, outOfRange)
      | Some d \<Rightarrow>
          if d \<ge> to_unsigned base then (k, totalValue, convertedAny, outOfRange)
          else if outOfRange then convert_loop base cutoff cutlim s (Suc k) totalValue convertedAny outOfRange
          else if totalValue > cutoff \<or> totalValue = cutoff \<and> d > cutlim
            then convert_loop base cutoff cutlim s (Suc k) totalValue convertedAny True
          else convert_loop base cutoff cutlim s (Suc k) (to_unsigned (totalValue * base + d)) True outOfRange)"

definition stringToInteger :: "bool \<Rightarrow> byte list \<Rightarrow> int \<Rightarrow> int \<times> nat \<times> bool" where
  "stringToInteger sgnd nptr baseInt =
     (let base = to_return sgnd baseInt in
      if base < 0 \<or> base = 1 then (0, 0, False)
      else let
        s = dropWhile isSpace nptr;
        (negative, k1) = int_sign s;
        (k2, base) = int_prefix (drop k1 s) base;
        (cutoff, cutlim) = int_cutoff sgnd negative base;
        (k, totalValue, convertedAny, outOfRange) =
          convert_loop base cutoff cutlim (drop (k1 + k2) s) (length nptr - length s + k1 + k2) 0 False False;
        end_offset = (if convertedAny then k else 0)
      in if outOfRange
         then (if \<not> sgnd then int_limits_max sgnd else if negative then int_limits_min sgnd else int_limits_max sgnd, end_offset, True)
         else (to_return sgnd (if negative then to_unsigned (- totalValue) else totalValue), end_offset, False))"

definition strtol :: "byte list \<Rightarrow> int \<Rightarrow> int \<times> nat \<times> bool" where
  "strtol s base = stringToInteger True s base"

definition strtoll :: "byte list \<Rightarrow> int \<Rightarrow> int \<times> nat \<times> bool" where
  "strtoll s base = stringToInteger True s base"


definition strtoull :: "byte list \<Rightarrow> int \<Rightarrow> int \<times> nat \<times> bool" where
  "strtoull s base = stringToInteger False s base"

definition atoi :: "byte list \<Rightarrow> int" where
  "atoi s = (fst (strtol s 10) + 2 ^ 31) mod 2 ^ 32 - 2 ^ 31"

definition atol :: "byte list \<Rightarrow> int" where
  "atol s = fst (strtol s 10)"

section \<open>The loop computes the number\<close>

lemma word_of_uint: "(word_of_int (uint c) :: byte) = c"
  by simp













section \<open>The value of a numeral\<close>
















end
