(* ===== verification/Calendar.thy ===== *)
theory Calendar
  imports Charcode "HOL-Library.Signed_Division"
begin

text \<open>
  The calendar of the C library, \<open>mlibc/options/ansi/generic/time.cpp\<close>: dates and days since 1970, broken-down
  times, and the rules of the \<open>TZ\<close> variable.

  Values of the types \<open>int\<close>, \<open>long\<close> and \<open>time_t\<close> are integers, since C leaves their overflow undefined; \<open>to_int\<close>
  and \<open>to_uint\<close> are the conversions to \<open>int\<close> and to \<open>unsigned int\<close>, whose arithmetic wraps.  Division and
  remainder of signed values (\<open>sdiv\<close>, \<open>smod\<close>) round towards zero.
\<close>

section \<open>Dates\<close>

definition to_uint :: "int \<Rightarrow> int" where
  "to_uint x = x mod 2 ^ 32"

definition to_int :: "int \<Rightarrow> int" where
  "to_int x = (x + 2 ^ 31) mod 2 ^ 32 - 2 ^ 31"

definition civil_from_days :: "int \<Rightarrow> int \<times> int \<times> int" where
  "civil_from_days days_since_epoch =
     (let time = days_since_epoch + 719468;
          era = to_int ((if time \<ge> 0 then time else time - 146096) sdiv 146097);
          doe = to_uint (time - era * 146097);
          yoe = to_uint (doe - doe div 1460 + doe div 36524 - doe div 146096) div 365;
          y = to_int yoe + era * 400;
          doy = to_uint (doe - (365 * yoe + yoe div 4 - yoe div 100));
          mp = to_uint (5 * doy + 2) div 153;
          d = to_uint (doy - to_uint (153 * mp + 2) div 5 + 1);
          m = to_uint (mp + (if mp < 10 then 3 else - 9))
      in (y + (if m \<le> 2 then 1 else 0), m, d))"

definition weekday_from_days :: "int \<Rightarrow> int" where
  "weekday_from_days days_since_epoch =
     to_uint (if days_since_epoch \<ge> - 4 then (days_since_epoch + 4) smod 7 else (days_since_epoch + 5) smod 7 + 6)"

definition yearday_from_date :: "int \<Rightarrow> int \<Rightarrow> int \<Rightarrow> int" where
  "yearday_from_date year month day =
     (let n1 = to_uint (275 * month) div 9;
          n2 = to_uint (month + 9) div 12;
          n3 = to_uint (1 + to_uint (year - to_uint (4 * year) div 4 + 2) div 3)
      in to_uint (n1 - n2 * n3 + day - 30))"

definition is_leap_year :: "int \<Rightarrow> bool" where
  "is_leap_year year \<longleftrightarrow> year smod 4 = 0 \<and> (year smod 100 \<noteq> 0 \<or> year smod 400 = 0)"

definition days_from_civil :: "int \<Rightarrow> int \<Rightarrow> int \<Rightarrow> int" where
  "days_from_civil y0 m d =
     (let y = y0 - (if m \<le> 2 then 1 else 0);
          era = (if y \<ge> 0 then y else y - 399) sdiv 400;
          yoe = to_uint (y - era * 400);
          doy = to_uint (to_uint (153 * (if m > 2 then m - 3 else m + 9) + 2) div 5 + d - 1);
          doe = to_uint (yoe * 365 + yoe div 4 - yoe div 100 + doy)
      in era * 146097 + to_int doe - 719468)"

section \<open>Broken-down time\<close>

record tm =
  tm_sec :: int
  tm_min :: int
  tm_hour :: int
  tm_mday :: int
  tm_mon :: int
  tm_year :: int
  tm_wday :: int
  tm_yday :: int
  tm_isdst :: int
  tm_gmtoff :: int

text \<open>What \<open>gmtime_r\<close> and \<open>localtime_r\<close> have in common: the fields for a number of seconds.\<close>

definition broken_down :: "int \<Rightarrow> int \<Rightarrow> int \<Rightarrow> tm" where
  "broken_down unix_local isdst gmtoff =
     (let days_since_epoch = to_int (unix_local sdiv (60 * 60 * 24));
          (year, month, day) = civil_from_days days_since_epoch;
          weekday = weekday_from_days days_since_epoch;
          yday = yearday_from_date (to_uint year) month day
      in \<lparr>tm_sec = unix_local smod 60, tm_min = (unix_local sdiv 60) smod 60, tm_hour = (unix_local sdiv (60 * 60)) smod 24,
          tm_mday = to_int day, tm_mon = to_int (month - 1), tm_year = year - 1900, tm_wday = to_int weekday,
          tm_yday = to_int (yday - 1), tm_isdst = isdst, tm_gmtoff = gmtoff\<rparr>)"

definition gmtime_r :: "int \<Rightarrow> tm" where
  "gmtime_r unix_gmt = broken_down unix_gmt (- 1) 0"

definition timegm :: "tm \<Rightarrow> int" where
  "timegm t =
     (let year = tm_year t + 1900;
          month = tm_mon t + 1;
          days = days_from_civil (to_int year) (to_uint month) (to_uint (tm_mday t))
      in days * 86400 + tm_hour t * 60 * 60 + tm_min t * 60 + tm_sec t)"

definition mktime :: "tm \<Rightarrow> int" where
  "mktime t = timegm t"

section \<open>The years of an era\<close>








section \<open>Days and dates\<close>



lemma to_uint_id: "0 \<le> x \<Longrightarrow> x < 2 ^ 32 \<Longrightarrow> to_uint x = x"
  by (simp add: to_uint_def)








section \<open>The Gregorian calendar\<close>



definition gregorian_leap :: "int \<Rightarrow> bool" where
  "gregorian_leap y \<longleftrightarrow> 4 dvd y \<and> (\<not> 100 dvd y \<or> 400 dvd y)"


lemma smod_dvd: "x smod k = 0 \<longleftrightarrow> k dvd (x :: int)"
proof -
  have "x smod k = 0 \<longleftrightarrow> \<bar>x\<bar> mod \<bar>k\<bar> = 0" by (auto simp: signed_modulo_int_def sgn_if)
  then show ?thesis by (simp add: dvd_eq_mod_eq_0 [symmetric])
qed

lemma is_leap_year_eq: "is_leap_year y = gregorian_leap y"
  by (simp add: is_leap_year_def gregorian_leap_def smod_dvd)










section \<open>Times\<close>










text \<open>What the fields are not: for a time before 1970 the seconds are negative, and the day of the year is that of a leap year
  in every year.\<close>

lemma gmtime_negative: "tm_sec (gmtime_r (- 1)) = - 1 \<and> tm_mday (gmtime_r (- 1)) = 1 \<and> tm_year (gmtime_r (- 1)) = 70"
  by code_simp

lemma yearday_ignores_year:
  assumes "0 \<le> year" "year < 2 ^ 30"
  shows "yearday_from_date year month day = yearday_from_date 0 month day"
proof -
  have "to_uint (4 * year) = 4 * year" using assms by (simp add: to_uint_id)
  then show ?thesis unfolding yearday_from_date_def Let_def by (simp add: to_uint_def)
qed

lemma yearday_wrong: "tm_yday (gmtime_r (59 * 86400)) = 60 \<and> civil_from_days 59 = (1970, 3, 1)"
  by code_simp

end
