(* ===== verification/Timezone.thy ===== *)
theory Timezone
  imports Calendar
begin

text \<open>
  Time zones in the C library: the \<open>TZ\<close> variable (\<open>getnum\<close>, \<open>getoffset\<close>, \<open>getrule\<close>, \<open>parse_tz\<close> of
  \<open>mlibc/options/ansi/generic/time.cpp\<close>), when daylight saving time applies, and \<open>localtime_r\<close>.

  A string is the list of the bytes before its NUL; a pointer into it is the rest of the list, and a null pointer
  \<open>None\<close>.  Zone names are the bytes that \<open>parse_tz\<close> copies to its buffers, before the NUL it puts behind them.
  The zone files (\<open>parse_tzfile\<close>) are read through the system and are not modelled.
\<close>

section \<open>Definitions\<close>

definition is_char :: "(int \<Rightarrow> bool option) \<Rightarrow> byte \<Rightarrow> bool" where
  "is_char f c \<longleftrightarrow> f (uint c) = Some True"

definition first_char :: "byte list \<Rightarrow> byte" where
  "first_char s = (case s of [] \<Rightarrow> 0 | c # _ \<Rightarrow> c)"

text \<open>\<open>getnum\<close> at a type of \<open>w\<close> bits.\<close>

fun getnum_loop :: "nat \<Rightarrow> int \<Rightarrow> byte list \<Rightarrow> int \<Rightarrow> (byte list \<times> int) option" where
  "getnum_loop w hi [] num = Some ([], num)"
| "getnum_loop w hi (c # s) num =
     (if is_char isdigit c then
        let num' = (num * 10 + (uint c - 0x30)) mod 2 ^ w in
        if num' > hi then None else getnum_loop w hi s num'
      else Some (c # s, num))"

definition getnum :: "nat \<Rightarrow> byte list \<Rightarrow> int \<Rightarrow> int \<Rightarrow> (byte list \<times> int) option" where
  "getnum w s lo hi =
     (if \<not> is_char isdigit (first_char s) then None
      else case getnum_loop w hi s 0 of
        None \<Rightarrow> None
      | Some (s', num) \<Rightarrow> if num < lo then None else Some (s', num))"

definition getoffset :: "byte list \<Rightarrow> (byte list \<times> int) option" where
  "getoffset s =
     (let negative = first_char s = 0x2D;
          s = (if first_char s = 0x2D \<or> first_char s = 0x2B then tl s else s);
          sign = (\<lambda>(s, x). Some (s, if negative then x * - 1 else x))
      in case getnum 32 s 0 (24 * 7 - 1) of
        None \<Rightarrow> None
      | Some (s, h) \<Rightarrow>
          if first_char s \<noteq> 0x3A then sign (s, h * 60 * 60)
          else case getnum 32 (tl s) 0 59 of
            None \<Rightarrow> None
          | Some (s, m) \<Rightarrow>
              if first_char s \<noteq> 0x3A then sign (s, h * 60 * 60 + m * 60)
              else case getnum 32 (tl s) 0 60 of
                None \<Rightarrow> None
              | Some (s, sec) \<Rightarrow> sign (s, h * 60 * 60 + m * 60 + sec))"

datatype RuleType = TZFILE | JULIAN_DAY | DAY_OF_YEAR | MONTH_NTH_DAY_OF_WEEK

record Rule =
  rtype :: RuleType
  rday :: int
  rweek :: int
  rmonth :: int
  rtime :: int

text \<open>The time of day at the end of a rule, and the rule; the fields that were read are stored even if the rest is
  malformed.\<close>

definition getrule_time :: "byte list \<Rightarrow> Rule \<Rightarrow> byte list option \<times> Rule" where
  "getrule_time s r =
     (if first_char s = 0x2F then
        case getoffset (tl s) of None \<Rightarrow> (None, r) | Some (s', t) \<Rightarrow> (Some s', r\<lparr>rtime := t\<rparr>)
      else (Some s, r\<lparr>rtime := 2 * 60 * 60\<rparr>))"

definition getrule :: "byte list \<Rightarrow> Rule \<Rightarrow> byte list option \<times> Rule" where
  "getrule s r =
     (if first_char s = 0x4A then
        let r = r\<lparr>rtype := JULIAN_DAY\<rparr> in
        case getnum 16 (tl s) 1 365 of None \<Rightarrow> (None, r) | Some (s, d) \<Rightarrow> getrule_time s (r\<lparr>rday := d\<rparr>)
      else if first_char s = 0x4D then
        let r = r\<lparr>rtype := MONTH_NTH_DAY_OF_WEEK\<rparr> in
        case getnum 8 (tl s) 1 12 of
          None \<Rightarrow> (None, r)
        | Some (s, m) \<Rightarrow>
            let r = r\<lparr>rmonth := m\<rparr> in
            if first_char s \<noteq> 0x2E then (None, r)
            else case getnum 8 (tl s) 1 5 of
              None \<Rightarrow> (None, r)
            | Some (s, w) \<Rightarrow>
                let r = r\<lparr>rweek := w\<rparr> in
                if first_char s \<noteq> 0x2E then (None, r)
                else case getnum 16 (tl s) 0 6 of None \<Rightarrow> (None, r) | Some (s, d) \<Rightarrow> getrule_time s (r\<lparr>rday := d\<rparr>)
      else if is_char isdigit (first_char s) then
        let r = r\<lparr>rtype := DAY_OF_YEAR\<rparr> in
        case getnum 16 s 0 365 of None \<Rightarrow> (None, r) | Some (s, d) \<Rightarrow> getrule_time s (r\<lparr>rday := d\<rparr>)
      else (None, r))"

record tz_state =
  rule0 :: Rule
  rule1 :: Rule
  tt_gmtoff0 :: int
  tt_gmtoff1 :: int
  timezone :: int
  daylight :: int
  tz_name :: "byte list"
  tz_name_dst :: "byte list"

text \<open>The variables as the program starts.\<close>

definition tz_initial :: tz_state where
  "tz_initial = \<lparr>rule0 = \<lparr>rtype = TZFILE, rday = 0, rweek = 0, rmonth = 0, rtime = 0\<rparr>,
     rule1 = \<lparr>rtype = TZFILE, rday = 0, rweek = 0, rmonth = 0, rtime = 0\<rparr>,
     tt_gmtoff0 = 0, tt_gmtoff1 = 0, timezone = 0, daylight = 0, tz_name = [], tz_name_dst = []\<rparr>"

text \<open>The loop over a zone name: the name and what follows it, or \<open>None\<close> if the name is malformed.\<close>

fun tz_name_loop :: "nat \<Rightarrow> bool \<Rightarrow> byte list \<Rightarrow> byte list \<Rightarrow> (byte list \<times> byte list) option" where
  "tz_name_loop tz_name_max quoted tzn [] = Some (tzn, [])"
| "tz_name_loop tz_name_max quoted tzn (c # tz) =
     (if length tzn > tz_name_max then None
      else if is_char isalpha c \<or> quoted \<and> (c = 0x2B \<or> c = 0x2D \<or> is_char isdigit c)
        then tz_name_loop tz_name_max quoted (tzn @ [c]) tz
      else if length tzn < 3 then None
      else if quoted then if c = 0x3E then Some (tzn, tz) else None
      else Some (tzn, c # tz))"

definition parse_name :: "nat \<Rightarrow> byte list \<Rightarrow> (byte list \<times> byte list) option" where
  "parse_name tz_name_max tz =
     (if first_char tz = 0x3C then tz_name_loop tz_name_max True [] (tl tz) else tz_name_loop tz_name_max False [] tz)"

definition TZ_DEFAULT_RULE_STRING :: "byte list" where
  "TZ_DEFAULT_RULE_STRING = [0x2C, 0x4D, 0x33, 0x2E, 0x32, 0x2E, 0x30, 0x2C, 0x4D, 0x31, 0x31, 0x2E, 0x31, 0x2E, 0x30]"

text \<open>The part of \<open>parse_tz\<close> behind the name of the alternate zone.\<close>

definition parse_dst_rules :: "byte list \<Rightarrow> int \<Rightarrow> tz_state \<Rightarrow> tz_state" where
  "parse_dst_rules tz offset_dst st =
     (let tz = (if tz = [] then TZ_DEFAULT_RULE_STRING else tz) in
      if first_char tz \<noteq> 0x2C then st
      else let (p, r0) = getrule (tl tz) (rule0 st); st = st\<lparr>rule0 := r0\<rparr> in
        case p of
          None \<Rightarrow> st
        | Some tz \<Rightarrow>
            if first_char tz \<noteq> 0x2C then st
            else let (p, r1) = getrule (tl tz) (rule1 st); st = st\<lparr>rule1 := r1\<rparr> in
              if p = Some [] then st\<lparr>tt_gmtoff1 := - offset_dst, daylight := 1\<rparr> else st)"

text \<open>\<open>parse_tz\<close>; the result is true when the string is not in the format.\<close>

definition parse_tz :: "nat \<Rightarrow> byte list \<Rightarrow> tz_state \<Rightarrow> bool \<times> tz_state" where
  "parse_tz tz_name_max tz st =
     (case parse_name tz_name_max (if first_char tz = 0x3A then tl tz else tz) of
        None \<Rightarrow> (True, st)
      | Some (tzn, tz) \<Rightarrow>
          case getoffset tz of
            None \<Rightarrow> (True, st)
          | Some (tz, offset) \<Rightarrow>
              let st = st\<lparr>tz_name := tzn, timezone := offset, tt_gmtoff0 := - offset\<rparr> in
              if tz = [] then (False, st\<lparr>tz_name_dst := tzn\<rparr>)
              else case parse_name tz_name_max tz of
                None \<Rightarrow> (False, st)
              | Some (tzn_dst, tz) \<Rightarrow>
                  let st = st\<lparr>tz_name_dst := tzn_dst\<rparr>; offset_dst = offset - 60 * 60 in
                  if tz \<noteq> [] \<and> first_char tz \<noteq> 0x2C then
                    case getoffset tz of
                      None \<Rightarrow> (False, st)
                    | Some (tz, offset_dst) \<Rightarrow> (False, parse_dst_rules tz offset_dst st)
                  else (False, parse_dst_rules tz offset_dst st))"

section \<open>Local time\<close>

definition tm_zero :: tm where
  "tm_zero = \<lparr>tm_sec = 0, tm_min = 0, tm_hour = 0, tm_mday = 0, tm_mon = 0, tm_year = 0, tm_wday = 0, tm_yday = 0,
     tm_isdst = 0, tm_gmtoff = 0\<rparr>"

text \<open>The transition of a rule in a year; \<open>mktime\<close> only computes a value and leaves the structure as it is.\<close>

definition time_from_rule :: "Rule \<Rightarrow> int \<Rightarrow> int option" where
  "time_from_rule rule year =
     (case rtype rule of
        JULIAN_DAY \<Rightarrow>
          let day = (rday rule - 1) mod 2 ^ 16;
              day = (if is_leap_year year \<and> day \<ge> 60 then rday rule else day)
          in Some (mktime (tm_zero\<lparr>tm_year := year - 1900, tm_yday := day\<rparr>))
      | DAY_OF_YEAR \<Rightarrow> Some (mktime (tm_zero\<lparr>tm_year := year - 1900, tm_yday := rday rule\<rparr>))
      | MONTH_NTH_DAY_OF_WEEK \<Rightarrow>
          let t = tm_zero\<lparr>tm_year := year - 1900, tm_mon := rmonth rule - 1, tm_mday := 1\<rparr>;
              first_wday = tm_wday t;
              day = 1 + ((7 + rday rule - first_wday) smod 7) + (rweek rule - 1) * 7;
              t = t\<lparr>tm_mday := day\<rparr>;
              day = (if rweek rule = 5 \<and> tm_mon t \<noteq> rmonth rule - 1 then day - 7 else day)
          in Some (mktime (t\<lparr>tm_year := year - 1900, tm_mon := rmonth rule - 1, tm_mday := day, tm_hour := 0, tm_min := 0, tm_sec := 0\<rparr>))
      | TZFILE \<Rightarrow> None)"

definition is_in_dst :: "tz_state \<Rightarrow> int \<Rightarrow> bool option" where
  "is_in_dst st unix_gmt =
     (let (year, _, _) = civil_from_days (unix_gmt sdiv (60 * 60 * 24)) in
      case (time_from_rule (rule0 st) year, time_from_rule (rule1 st) year) of
        (Some t0, Some t1) \<Rightarrow>
          let start_time = to_int t0; end_time = to_int t1 in
          Some (if start_time \<le> end_time then unix_gmt \<ge> start_time \<and> unix_gmt < end_time
                else unix_gmt \<ge> start_time \<or> unix_gmt < end_time)
      | _ \<Rightarrow> None)"

text \<open>The offset from GMT and whether daylight saving time applies, for the zone that \<open>do_tzset\<close> has set; \<open>tzfile\<close> stands for
  the look-up in a zone file.\<close>

definition unix_local_from_gmt :: "(int \<Rightarrow> (int \<times> bool) option) \<Rightarrow> tz_state \<Rightarrow> int \<Rightarrow> (int \<times> bool) option" where
  "unix_local_from_gmt tzfile st unix_gmt =
     (if daylight st \<noteq> 0 \<and> rtype (rule0 st) = TZFILE then tzfile unix_gmt
      else case (if daylight st \<noteq> 0 then is_in_dst st unix_gmt else Some False) of
        None \<Rightarrow> None
      | Some True \<Rightarrow> Some (tt_gmtoff1 st, True)
      | Some False \<Rightarrow> Some (- timezone st, False))"

definition localtime_r :: "(int \<Rightarrow> (int \<times> bool) option) \<Rightarrow> tz_state \<Rightarrow> int \<Rightarrow> tm option" where
  "localtime_r tzfile st unix_gmt =
     (case unix_local_from_gmt tzfile st unix_gmt of
        None \<Rightarrow> None
      | Some (off, dst) \<Rightarrow> Some (broken_down (unix_gmt + off) (if dst then 1 else 0) off))"

section \<open>Zone strings\<close>

lemma tz_name_loop_length:
  "tz_name_loop n quoted tzn tz = Some (name, rest) \<Longrightarrow> length tzn \<le> n + 1 \<Longrightarrow>
   length name \<le> n + 1 \<and> (rest \<noteq> [] \<longrightarrow> length name \<le> n)"
  by (induction n quoted tzn tz rule: tz_name_loop.induct) (auto split: if_splits)

text \<open>The buffers have room for \<open>n\<close> bytes and the NUL.  The name of the zone fits; that of the alternate zone may be one byte too
  long when it ends the string.\<close>

lemma parse_name_length:
  assumes "parse_name n tz = Some (name, rest)"
  shows "length name \<le> n + 1 \<and> (rest \<noteq> [] \<longrightarrow> length name \<le> n)"
  using assms tz_name_loop_length [of n] by (auto simp: parse_name_def split: if_splits)

lemma dst_rules_keep: "tz_name (parse_dst_rules tz off st) = tz_name st" "tz_name_dst (parse_dst_rules tz off st) = tz_name_dst st"
  by (simp_all add: parse_dst_rules_def Let_def split: prod.splits option.splits)

lemma getoffset_nil: "getoffset [] = None"
  by (simp add: getoffset_def getnum_def first_char_def is_char_def isdigit_def ctype_of_eq is_digit_def)

lemma zone_name_fits:
  assumes "parse_tz n tz st = (False, st')"
  shows "length (tz_name st') \<le> n"
proof -
  obtain tzn rest where p: "parse_name n (if first_char tz = 0x3A then tl tz else tz) = Some (tzn, rest)" "getoffset rest \<noteq> None"
      "tz_name st' = tzn"
    using assms by (auto simp: parse_tz_def Let_def dst_rules_keep split: option.splits if_splits)
  then have "rest \<noteq> []" using getoffset_nil by auto
  then show ?thesis using parse_name_length [OF p(1)] p(3) by simp
qed

lemma dst_name_overflow:
  "length (tz_name_dst (snd (parse_tz 6 [0x41, 0x41, 0x41, 0x30, 0x42, 0x42, 0x42, 0x42, 0x42, 0x42, 0x42] st))) = 7"
proof -
  have c: "is_char isalpha 0x41" "is_char isalpha 0x42" "\<not> is_char isalpha 0x30" "is_char isdigit 0x30" "\<not> is_char isdigit 0x42" by code_simp+
  have "getoffset [0x30, 0x42, 0x42, 0x42, 0x42, 0x42, 0x42, 0x42] = Some ([0x42, 0x42, 0x42, 0x42, 0x42, 0x42, 0x42], 0)"
    by (simp add: getoffset_def getnum_def first_char_def c)
  then show ?thesis by (simp add: parse_tz_def parse_name_def first_char_def c dst_rules_keep Let_def)
qed

lemma dst_name_length:
  assumes "parse_tz n tz st = (False, st')" "length (tz_name_dst st) \<le> n"
  shows "length (tz_name_dst st') \<le> n + 1"
proof -
  have "tz_name_dst st' = tz_name_dst st \<or> (\<exists>tz' rest. parse_name n tz' = Some (tz_name_dst st', rest))"
    using assms(1) by (auto simp: parse_tz_def Let_def dst_rules_keep split: option.splits if_splits)
  then show ?thesis using assms(2) parse_name_length by fastforce
qed

text \<open>C38. Zone names and their buffers.  \<open>do_tzset\<close> allocates room for \<open>tz_name_max\<close> bytes and a NUL.  Whatever the \<open>TZ\<close> variable says,
  the name of the zone fits; the name of the alternate zone exceeds its buffer by at most one byte, and some string makes it do
  so.\<close>

theorem zone_names:
  assumes "parse_tz n tz st = (False, st')" "length (tz_name_dst st) \<le> n"
  shows "length (tz_name st') \<le> n \<and> length (tz_name_dst st') \<le> n + 1 \<and>
    (\<exists>tz. length (tz_name_dst (snd (parse_tz 6 tz st))) = 6 + 1)"
  using zone_name_fits [OF assms(1)] dst_name_length [OF assms] dst_name_overflow [of st] by auto

theorem zone_names_witness: "length (tz_name (snd (parse_tz 6 [0x55, 0x54, 0x43, 0x30] tz_initial))) \<le> 6"
proof -
  have c: "is_char isalpha 0x55" "is_char isalpha 0x54" "is_char isalpha 0x43" "\<not> is_char isalpha 0x30" "is_char isdigit 0x30" by code_simp+
  have "getoffset [0x30] = Some ([], 0)" by (simp add: getoffset_def getnum_def first_char_def c)
  then have "fst (parse_tz 6 [0x55, 0x54, 0x43, 0x30] tz_initial) = False" by (simp add: parse_tz_def parse_name_def first_char_def c)
  moreover have "tz_name_dst tz_initial = []" by (simp add: tz_initial_def)
  ultimately show ?thesis
    using zone_names [of 6 "[0x55, 0x54, 0x43, 0x30]" tz_initial "snd (parse_tz 6 [0x55, 0x54, 0x43, 0x30] tz_initial)"]
    by (cases "parse_tz 6 [0x55, 0x54, 0x43, 0x30] tz_initial") simp
qed

text \<open>Rules that name a day of the year ignore it, and rules that name a day of the week count from the first of the month.\<close>

lemma day_rules_ignore_day:
  assumes "rtype r = JULIAN_DAY \<or> rtype r = DAY_OF_YEAR"
  shows "time_from_rule r year = Some (days_from_civil (to_int year) 1 0 * 86400)"
  using assms by (auto simp: time_from_rule_def tm_zero_def mktime_def timegm_def to_uint_def)

end
