(* ===== verification/Mutex.thy ===== *)
theory Mutex
  imports Kprelude
begin

text \<open>
  Locks of the C library: the mutexes of \<open>mlibc/options/internal/generic/threads.cpp\<close> and the \<open>FutexLock\<close> of
  \<open>options/internal/include/mlibc/lock.hpp\<close>.

  Threads interleave between any two accesses to the lock word, so an operation is given by its atomic parts: one
  round of the loop of \<open>thread_mutex_lock\<close>, which has one atomic access, the bookkeeping of the thread that has
  just taken the lock, and the three parts of \<open>thread_mutex_unlock\<close>.  The relation \<open>mstep\<close> composes them into
  threads that lock and unlock in any order, which only unlock what they have locked.
  The system calls on futexes are parameters: \<open>wait\<close> gives the result of \<open>sys_futex_wait\<close> for the lock word and
  the expected value (\<open>cinux\<close> returns 0 at once; others return after a wakeup, or with an error), \<open>wake\<close> the one
  of \<open>sys_futex_wake\<close>.
\<close>

section \<open>The mutex\<close>

definition "EPERM = (1 :: int)"
definition "EINTR = (4 :: int)"
definition "EAGAIN = (11 :: int)"
definition "EACCES = (13 :: int)"
definition "EINVAL = (22 :: int)"
definition "EDEADLK = (35 :: int)"

definition "mutexRecursive = (1 :: u32)"
definition "mutexErrorCheck = (2 :: u32)"

definition mutex_owner_mask :: u32 where
  "mutex_owner_mask = push_bit 30 1 - 1"

definition mutex_waiters_bit :: u32 where
  "mutex_waiters_bit = push_bit 31 1"

record mutex =
  mstate :: u32
  recursion :: u32
  mflags :: u32

text \<open>How a part of an operation ends: it goes on with another round, it has the lock word, it returns, it has given up the
  lock word with the value \<open>w\<close> it had, or the process is stopped by \<open>__ensure\<close> or \<open>panicLogger\<close>.\<close>

datatype lock_end = Again u32 | Took | Returns int | Leaving | Left u32 | Dies

definition thread_mutex_init :: "int \<Rightarrow> mutex option" where
  "thread_mutex_init type =
     (if type = 2 then Some \<lparr>mstate = 0, recursion = 0, mflags = mutexRecursive\<rparr>
      else if type = 1 then Some \<lparr>mstate = 0, recursion = 0, mflags = mutexErrorCheck\<rparr>
      else if type = 0 then Some \<lparr>mstate = 0, recursion = 0, mflags = 0\<rparr>
      else None)"

definition thread_mutex_lock :: "(u32 \<Rightarrow> u32 \<Rightarrow> int) \<Rightarrow> u32 \<Rightarrow> u32 \<Rightarrow> mutex \<Rightarrow> lock_end \<times> mutex" where
  "thread_mutex_lock wait this_tid expected m =
     (if expected = 0 then
        if mstate m = 0 then (Took, m\<lparr>mstate := this_tid\<rparr>) else (Again (mstate m), m)
      else if expected AND mutex_owner_mask = this_tid then
        if mflags m AND mutexRecursive = 0
        then if mflags m AND mutexErrorCheck \<noteq> 0 then (Returns EDEADLK, m) else (Dies, m)
        else (Returns 0, m\<lparr>recursion := recursion m + 1\<rparr>)
      else if expected AND mutex_waiters_bit \<noteq> 0 then
        let e = wait (mstate m) expected in
        if e \<noteq> 0 \<and> e \<noteq> EAGAIN \<and> e \<noteq> EINTR then (Dies, m) else (Again 0, m)
      else let desired = expected OR mutex_waiters_bit in
        if mstate m = expected then (Again desired, m\<lparr>mstate := desired\<rparr>) else (Again (mstate m), m))"

definition mutex_taken :: "mutex \<Rightarrow> lock_end \<times> mutex" where
  "mutex_taken m = (if recursion m \<noteq> 0 then (Dies, m) else (Returns 0, m\<lparr>recursion := 1\<rparr>))"

definition thread_mutex_unlock :: "mutex \<Rightarrow> lock_end \<times> mutex" where
  "thread_mutex_unlock m =
     (if recursion m = 0 then (Dies, m)
      else if recursion m - 1 \<noteq> 0 then (Returns 0, m\<lparr>recursion := recursion m - 1\<rparr>)
      else (Leaving, m\<lparr>recursion := recursion m - 1\<rparr>))"

definition mutex_exchange :: "mutex \<Rightarrow> lock_end \<times> mutex" where
  "mutex_exchange m = (Left (mstate m), m\<lparr>mstate := 0\<rparr>)"

definition mutex_left :: "int \<Rightarrow> u32 \<Rightarrow> u32 \<Rightarrow> u32 \<Rightarrow> lock_end" where
  "mutex_left wake flags this_tid state =
     (if flags AND mutexErrorCheck \<noteq> 0 \<and> state AND mutex_owner_mask \<noteq> this_tid then Returns EPERM
      else if flags AND mutexErrorCheck \<noteq> 0 \<and> state AND mutex_owner_mask = 0 then Returns EINVAL
      else if state AND mutex_owner_mask \<noteq> this_tid then Dies
      else if state AND mutex_waiters_bit \<noteq> 0 \<and> \<not> (wake \<ge> 0 \<or> wake = EACCES \<or> wake = EINVAL) then Dies
      else Returns 0)"

section \<open>\<open>FutexLockImpl\<close>\<close>

text \<open>The lock of the library itself, with or without recursion, in the same parts; \<open>unlock\<close> ends with \<open>mutex_exchange\<close> and
  \<open>mutex_left\<close> without flags.  \<open>try_lock\<close> is given without interference between its load and its exchange.\<close>

definition futex_lock :: "bool \<Rightarrow> (u32 \<Rightarrow> u32 \<Rightarrow> int) \<Rightarrow> u32 \<Rightarrow> u32 \<Rightarrow> mutex \<Rightarrow> lock_end \<times> mutex" where
  "futex_lock Recursive wait this_tid expected m =
     (if expected = 0 then
        if mstate m = 0 then (Took, m\<lparr>mstate := this_tid\<rparr>) else (Again (mstate m), m)
      else if expected AND mutex_owner_mask = this_tid then
        if Recursive then (Returns 0, m\<lparr>recursion := recursion m + 1\<rparr>) else (Dies, m)
      else if expected AND mutex_waiters_bit \<noteq> 0 then
        let e = wait (mstate m) expected in
        if e \<noteq> 0 \<and> e \<noteq> EAGAIN \<and> e \<noteq> EINTR then (Dies, m) else (Again 0, m)
      else let desired = expected OR mutex_waiters_bit in
        if mstate m = expected then (Again desired, m\<lparr>mstate := desired\<rparr>) else (Again (mstate m), m))"

definition futex_try_lock :: "bool \<Rightarrow> u32 \<Rightarrow> mutex \<Rightarrow> bool option \<times> mutex" where
  "futex_try_lock Recursive this_tid m =
     (if mstate m = 0 then
        (Some True, if Recursive then m\<lparr>mstate := this_tid, recursion := 1\<rparr> else m\<lparr>mstate := this_tid\<rparr>)
      else if mstate m AND mutex_owner_mask = this_tid then
        if Recursive then if recursion m \<noteq> 0 then (None, m) else (Some True, m\<lparr>recursion := recursion m + 1\<rparr>)
        else (Some False, m)
      else (Some False, m))"

definition futex_unlock :: "bool \<Rightarrow> mutex \<Rightarrow> lock_end \<times> mutex" where
  "futex_unlock Recursive m =
     (if Recursive then
        if recursion m = 0 then (Dies, m)
        else if recursion m - 1 \<noteq> 0 then (Returns 0, m\<lparr>recursion := recursion m - 1\<rparr>)
        else (Leaving, m\<lparr>recursion := recursion m - 1\<rparr>)
      else (Leaving, m))"

section \<open>Threads\<close>

datatype tpc = Out | In_lock u32 | In_took | In_leaving | In_left u32 | Dead

record msys =
  mtx :: mutex
  tpc :: "u32 \<Rightarrow> tpc"
  depth :: "u32 \<Rightarrow> nat"

text \<open>What a thread does next after a part of \<open>lock\<close> or \<open>unlock\<close>; a lock call that returns 0 counts.\<close>

fun after_lock :: "lock_end \<Rightarrow> nat \<Rightarrow> tpc \<times> nat" where
  "after_lock (Again e) d = (In_lock e, d)"
| "after_lock Took d = (In_took, d)"
| "after_lock (Returns e) d = (Out, if e = 0 then Suc d else d)"
| "after_lock _ d = (Dead, d)"

fun after_unlock :: "lock_end \<Rightarrow> nat \<Rightarrow> tpc \<times> nat" where
  "after_unlock (Returns e) d = (Out, d - 1)"
| "after_unlock Leaving d = (In_leaving, d)"
| "after_unlock (Left w) d = (In_left w, d - 1)"
| "after_unlock _ d = (Dead, d)"

definition put_thread :: "u32 \<Rightarrow> tpc \<times> nat \<Rightarrow> mutex \<Rightarrow> msys \<Rightarrow> msys" where
  "put_thread t pd m S = S\<lparr>mtx := m, tpc := (tpc S)(t := fst pd), depth := (depth S)(t := snd pd)\<rparr>"

text \<open>Thread identifiers fit the owner part of the lock word, and no thread nests \<open>2 ^ 32\<close> deep.\<close>

definition tid_ok :: "u32 \<Rightarrow> bool" where
  "tid_ok t \<longleftrightarrow> t \<noteq> 0 \<and> t AND mutex_owner_mask = t"

inductive mstep :: "(u32 \<Rightarrow> u32 \<Rightarrow> int) \<Rightarrow> int \<Rightarrow> msys \<Rightarrow> msys \<Rightarrow> bool" for wait wake where
  call_lock: "tpc S t = Out \<Longrightarrow> tid_ok t \<Longrightarrow> depth S t < 2 ^ 32 - 1 \<Longrightarrow> mstep wait wake S (put_thread t (In_lock 0, depth S t) (mtx S) S)"
| round: "tpc S t = In_lock e \<Longrightarrow> thread_mutex_lock wait t e (mtx S) = (r, m) \<Longrightarrow>
    mstep wait wake S (put_thread t (after_lock r (depth S t)) m S)"
| taken: "tpc S t = In_took \<Longrightarrow> mutex_taken (mtx S) = (r, m) \<Longrightarrow>
    mstep wait wake S (put_thread t (after_lock r (depth S t)) m S)"
| call_unlock: "tpc S t = Out \<Longrightarrow> 0 < depth S t \<Longrightarrow> thread_mutex_unlock (mtx S) = (r, m) \<Longrightarrow>
    mstep wait wake S (put_thread t (after_unlock r (depth S t)) m S)"
| exchange: "tpc S t = In_leaving \<Longrightarrow> mutex_exchange (mtx S) = (r, m) \<Longrightarrow>
    mstep wait wake S (put_thread t (after_unlock r (depth S t)) m S)"
| left: "tpc S t = In_left w \<Longrightarrow> mutex_left wake (mflags (mtx S)) t w = r \<Longrightarrow>
    mstep wait wake S (put_thread t (fst (after_unlock r 0), depth S t) (mtx S) S)"

section \<open>Mutual exclusion\<close>

definition holds :: "msys \<Rightarrow> u32 \<Rightarrow> bool" where
  "holds S t \<longleftrightarrow> 0 < depth S t \<or> tpc S t = In_took"

text \<open>The invariant of one thread, given the lock word and the recursion count.\<close>

definition thread_ok :: "mutex \<Rightarrow> u32 \<Rightarrow> tpc \<Rightarrow> nat \<Rightarrow> bool" where
  "thread_ok m t pc d \<longleftrightarrow>
     (if tid_ok t then
        ((0 < d \<or> pc = In_took) \<longleftrightarrow> mstate m AND mutex_owner_mask = t) \<and> d < 2 ^ 32 \<and>
        (case pc of
           Out \<Rightarrow> 0 < d \<longrightarrow> recursion m = of_nat d
         | In_lock e \<Rightarrow> (0 < d \<longrightarrow> recursion m = of_nat d) \<and> d < 2 ^ 32 - 1 \<and> (e \<noteq> 0 \<and> e AND mutex_owner_mask = t \<longrightarrow> 0 < d)
         | In_took \<Rightarrow> d = 0 \<and> recursion m = 0
         | In_leaving \<Rightarrow> d = 1 \<and> recursion m = 0
         | In_left w \<Rightarrow> d = 0 \<and> w AND mutex_owner_mask = t
         | Dead \<Rightarrow> mflags m AND (mutexRecursive OR mutexErrorCheck) = 0)
      else pc = Out \<and> d = 0)"

definition mutex_ok :: "msys \<Rightarrow> bool" where
  "mutex_ok S \<longleftrightarrow> (\<forall>t. thread_ok (mtx S) t (tpc S t) (depth S t)) \<and> ((\<forall>t. \<not> holds S t) \<longrightarrow> recursion (mtx S) = 0)"

lemma mask_facts:
  "(x OR mutex_waiters_bit) AND mutex_owner_mask = x AND mutex_owner_mask"
  "tid_ok t \<Longrightarrow> t AND mutex_owner_mask = t" "tid_ok t \<Longrightarrow> t \<noteq> 0" "tid_ok t \<Longrightarrow> 0 \<noteq> t"
proof -
  have "mutex_waiters_bit AND mutex_owner_mask = 0" by code_simp
  then show "(x OR mutex_waiters_bit) AND mutex_owner_mask = x AND mutex_owner_mask" by (simp add: bit.conj_disj_distrib2)
qed (auto simp: tid_ok_def)

lemma mutex_okI:
  assumes "\<And>u. u \<noteq> t \<Longrightarrow> thread_ok m u (tpc S u) (depth S u)" "thread_ok m t pc d"
    and "0 < d \<or> pc = In_took \<or> (\<exists>u. u \<noteq> t \<and> holds S u) \<or> recursion m = 0"
  shows "mutex_ok (put_thread t (pc, d) m S)"
  using assms by (auto simp: mutex_ok_def put_thread_def holds_def)

lemma only_holder:
  assumes "mutex_ok S" "holds S t" "u \<noteq> t"
  shows "\<not> holds S u"
proof -
  have "thread_ok (mtx S) t (tpc S t) (depth S t)" "thread_ok (mtx S) u (tpc S u) (depth S u)" using assms(1) by (simp_all add: mutex_ok_def)
  then show ?thesis using assms(2,3) by (auto simp: thread_ok_def holds_def split: if_splits)
qed

text \<open>Another thread only looks at the owner in the lock word, unless it is the owner.\<close>

lemma other_ok:
  assumes "thread_ok m u pc d" "mstate m' AND mutex_owner_mask = u \<longleftrightarrow> mstate m AND mutex_owner_mask = u" "mflags m' = mflags m"
    and "recursion m' = recursion m \<or> \<not> (0 < d \<or> pc = In_took)"
  shows "thread_ok m' u pc d"
  using assms by (auto simp: thread_ok_def split: tpc.splits if_splits)

lemma thread_okD: "mutex_ok S \<Longrightarrow> thread_ok (mtx S) t (tpc S t) (depth S t)"
  by (simp add: mutex_ok_def)

lemma idle_recursion: "mutex_ok S \<Longrightarrow> 0 < depth S t \<or> tpc S t = In_took \<or> (\<exists>u. u \<noteq> t \<and> holds S u) \<or> recursion (mtx S) = 0"
  by (auto simp: mutex_ok_def holds_def)

text \<open>Parts that leave the owner and the recursion count alone.\<close>

lemma quiet_ok:
  assumes "mutex_ok S" "mstate m AND mutex_owner_mask = mstate (mtx S) AND mutex_owner_mask" "recursion m = recursion (mtx S)"
    and "mflags m = mflags (mtx S)" "thread_ok m t pc d" "0 < depth S t \<or> tpc S t = In_took \<longrightarrow> 0 < d \<or> pc = In_took"
  shows "mutex_ok (put_thread t (pc, d) m S)"
proof (rule mutex_okI)
  fix u assume "u \<noteq> t"
  show "thread_ok m u (tpc S u) (depth S u)" using other_ok [OF thread_okD [OF assms(1), of u], of m] assms(2-4) by simp
next
  show "0 < d \<or> pc = In_took \<or> (\<exists>u. u \<noteq> t \<and> holds S u) \<or> recursion m = 0"
    using idle_recursion [OF assms(1), of t] assms(3,6) by auto
qed (rule assms(5))

text \<open>Parts of the thread that has the lock, or gets it when nobody has.\<close>

lemma owner_ok:
  assumes "mutex_ok S" "\<forall>u. u \<noteq> t \<longrightarrow> \<not> holds S u" "mstate m AND mutex_owner_mask \<in> {0, t}" "mflags m = mflags (mtx S)"
    and "thread_ok m t pc d" "0 < d \<or> pc = In_took \<or> recursion m = 0"
  shows "mutex_ok (put_thread t (pc, d) m S)"
proof (rule mutex_okI)
  fix u assume u: "u \<noteq> t"
  have k: "thread_ok (mtx S) u (tpc S u) (depth S u)" using assms(1) by (rule thread_okD)
  have n: "\<not> (0 < depth S u \<or> tpc S u = In_took)" using assms(2) u by (simp add: holds_def)
  have "tid_ok u \<Longrightarrow> (mstate (mtx S) AND mutex_owner_mask = u) = False" "tid_ok u \<Longrightarrow> (mstate m AND mutex_owner_mask = u) = False"
    using k n assms(3) u mask_facts(3,4) by (auto simp: thread_ok_def)
  then show "thread_ok m u (tpc S u) (depth S u)"
    using k n assms(4) by (cases "tid_ok u") (auto simp: thread_ok_def split: tpc.splits)
qed (use assms in auto)

lemma free_no_holder:
  assumes "mutex_ok S" "mstate (mtx S) AND mutex_owner_mask = 0"
  shows "\<not> holds S u"
  using thread_okD [OF assms(1), of u] assms(2) by (auto simp: thread_ok_def holds_def tid_ok_def split: if_splits)

lemma round_ok:
  assumes "mutex_ok S" "tpc S t = In_lock e" "thread_mutex_lock wait t e (mtx S) = (r, m)" "\<And>w. wait w e \<in> {0, EAGAIN, EINTR}"
  shows "mutex_ok (put_thread t (after_lock r (depth S t)) m S)"
proof -
  note k = thread_okD [OF assms(1), of t, unfolded assms(2)]
  then have t: "tid_ok t" by (auto simp: thread_ok_def split: if_splits)
  consider (take) "e = 0" "mstate (mtx S) = 0" | (busy) "e = 0" "mstate (mtx S) \<noteq> 0"
    | (mine) "e \<noteq> 0" "e AND mutex_owner_mask = t" | (wait) "e \<noteq> 0" "e AND mutex_owner_mask \<noteq> t" "e AND mutex_waiters_bit \<noteq> 0"
    | (flag) "e \<noteq> 0" "e AND mutex_owner_mask \<noteq> t" "e AND mutex_waiters_bit = 0" by blast
  then show ?thesis
  proof cases
    case take
    then have n: "\<forall>u. \<not> holds S u" using free_no_holder [OF assms(1)] by simp
    then have "recursion (mtx S) = 0" "depth S t = 0" using assms(1) by (auto simp: mutex_ok_def holds_def)
    then show ?thesis using assms(1,3) take n t mask_facts(2) [OF t]
      by (auto simp: thread_mutex_lock_def thread_ok_def intro!: owner_ok)
  next
    case busy
    then show ?thesis using assms(1-3) k t by (auto simp: thread_mutex_lock_def thread_ok_def intro!: quiet_ok)
  next
    case mine
    then have d: "0 < depth S t" "recursion (mtx S) = of_nat (depth S t)" "depth S t < 2 ^ 32 - 1" "mstate (mtx S) AND mutex_owner_mask = t"
      using k t by (auto simp: thread_ok_def)
    then have "\<forall>u. u \<noteq> t \<longrightarrow> \<not> holds S u" using only_holder [OF assms(1), of t] by (simp add: holds_def)
    then show ?thesis using assms(1-3) mine d t
      by (auto simp: thread_mutex_lock_def thread_ok_def EDEADLK_def bit.conj_disj_distrib split: if_splits intro!: owner_ok)
  next
    case wait
    then show ?thesis using assms(1-3) assms(4) [of "mstate (mtx S)"] k t
      by (auto simp: thread_mutex_lock_def thread_ok_def Let_def intro!: quiet_ok)
  next
    case flag
    then show ?thesis using assms(1-3) k t
      by (auto simp: thread_mutex_lock_def thread_ok_def Let_def mask_facts split: if_splits intro!: quiet_ok)
  qed
qed

text \<open>A thread that has the lock runs alone with it.\<close>

lemma holder_alone: "mutex_ok S \<Longrightarrow> 0 < depth S t \<or> tpc S t = In_took \<Longrightarrow> \<forall>u. u \<noteq> t \<longrightarrow> \<not> holds S u"
  using only_holder [of S t] by (simp add: holds_def)

lemma taken_ok:
  assumes "mutex_ok S" "tpc S t = In_took" "mutex_taken (mtx S) = (r, m)"
  shows "mutex_ok (put_thread t (after_lock r (depth S t)) m S)"
  using thread_okD [OF assms(1), of t, unfolded assms(2)] holder_alone [OF assms(1), of t] assms
  by (auto simp: mutex_taken_def thread_ok_def split: if_splits intro!: owner_ok)

lemma of_nat_u32_0: "n < 2 ^ 32 \<Longrightarrow> (of_nat n :: u32) = 0 \<longleftrightarrow> n = 0"
  using nat_dvd_not_less [of n "2 ^ 32"] by (auto simp: word_of_nat_eq_0_iff)

lemma unlock_ok:
  assumes "mutex_ok S" "tpc S t = Out" "0 < depth S t" "thread_mutex_unlock (mtx S) = (r, m)"
  shows "mutex_ok (put_thread t (after_unlock r (depth S t)) m S)"
proof -
  note k = thread_okD [OF assms(1), of t, unfolded assms(2)]
  then have d: "tid_ok t" "recursion (mtx S) = of_nat (depth S t)" "depth S t < 2 ^ 32" "mstate (mtx S) AND mutex_owner_mask = t"
    using assms(3) by (auto simp: thread_ok_def split: if_splits)
  note z = of_nat_u32_0
  note alone = holder_alone [OF assms(1), of t]
  show ?thesis
  proof (cases "depth S t = 1")
    case True
    then have "r = Leaving" "m = (mtx S)\<lparr>recursion := 0\<rparr>" using assms(4) d(2) by (simp_all add: thread_mutex_unlock_def)
    then show ?thesis using True assms(1) alone d by (auto simp: thread_ok_def intro!: owner_ok)
  next
    case False
    then obtain n where n: "depth S t = Suc (Suc n)" using assms(3) by (metis One_nat_def Suc_pred not_gr0)
    have "recursion (mtx S) - 1 = of_nat (Suc n)" "of_nat (Suc n) \<noteq> (0 :: u32)" "recursion (mtx S) \<noteq> 0"
      using z [of "Suc n"] z [of "depth S t"] d(2,3) n by (simp_all del: of_nat_Suc, simp)
    then have "r = Returns 0" "m = (mtx S)\<lparr>recursion := of_nat (Suc n)\<rparr>"
      using assms(4) unfolding thread_mutex_unlock_def by auto
    then show ?thesis using n assms(1,2) alone d by (auto simp: thread_ok_def intro!: owner_ok)
  qed
qed

lemma exchange_ok:
  assumes "mutex_ok S" "tpc S t = In_leaving" "mutex_exchange (mtx S) = (r, m)"
  shows "mutex_ok (put_thread t (after_unlock r (depth S t)) m S)"
  using thread_okD [OF assms(1), of t, unfolded assms(2)] holder_alone [OF assms(1), of t] assms
  by (auto simp: mutex_exchange_def thread_ok_def mask_facts split: if_splits intro!: owner_ok)

lemma left_ok:
  assumes "mutex_ok S" "tpc S t = In_left w" "mutex_left wake (mflags (mtx S)) t w = r" "0 \<le> wake"
  shows "mutex_ok (put_thread t (fst (after_unlock r 0), depth S t) (mtx S) S)"
  using thread_okD [OF assms(1), of t, unfolded assms(2)] assms
  by (auto simp: mutex_left_def thread_ok_def mask_facts split: if_splits intro!: quiet_ok)

lemma mstep_ok:
  assumes "mstep wait wake S T" "mutex_ok S" "\<And>w e. wait w e \<in> {0, EAGAIN, EINTR}" "0 \<le> wake"
  shows "mutex_ok T"
  using assms
proof (cases rule: mstep.cases)
  case (call_lock t)
  then show ?thesis using thread_okD [OF assms(2), of t] assms(2) by (auto simp: thread_ok_def split: if_splits intro!: quiet_ok)
qed (auto intro: round_ok taken_ok unlock_ok exchange_ok left_ok assms)

definition mutex_system :: "mutex \<Rightarrow> msys" where
  "mutex_system m = \<lparr>mtx = m, tpc = (\<lambda>_. Out), depth = (\<lambda>_. 0)\<rparr>"

lemma mutex_system_ok: "thread_mutex_init type = Some m \<Longrightarrow> mutex_ok (mutex_system m)"
  by (auto simp: mutex_system_def mutex_ok_def thread_ok_def holds_def thread_mutex_init_def tid_ok_def split: if_splits)

lemma mstep_flags: "mstep wait wake S T \<Longrightarrow> mflags (mtx T) = mflags (mtx S)"
  by (cases rule: mstep.cases)
    (auto simp: put_thread_def thread_mutex_lock_def mutex_taken_def thread_mutex_unlock_def mutex_exchange_def Let_def split: if_splits)

lemma msteps_ok:
  assumes "(mstep wait wake)\<^sup>*\<^sup>* S T" "mutex_ok S" "\<And>w e. wait w e \<in> {0, EAGAIN, EINTR}" "0 \<le> wake"
  shows "mutex_ok T \<and> mflags (mtx T) = mflags (mtx S)"
  using assms(1) by (induction rule: rtranclp_induct) (auto simp: assms(2) mstep_flags intro: mstep_ok [OF _ _ assms(3,4)])

text \<open>A free lock is taken by any thread that wants it, after at most three rounds of its loop.\<close>

lemma round_step:
  "tpc S t = In_lock e \<Longrightarrow> thread_mutex_lock wait t e (mtx S) = (Again e', mtx S) \<Longrightarrow>
   \<exists>T. mstep wait wake S T \<and> tpc T t = In_lock e' \<and> mtx T = mtx S \<and> depth T t = depth S t"
  using mstep.round [of S t e wait "Again e'" "mtx S" wake] by (intro exI conjI) (assumption, simp_all add: put_thread_def)

lemma take_free:
  assumes "tpc S t = In_lock 0" "mstate (mtx S) = 0" "recursion (mtx S) = 0"
  shows "\<exists>T. (mstep wait wake)\<^sup>*\<^sup>* S T \<and> tpc T t = Out \<and> depth T t = Suc (depth S t)"
proof -
  have "thread_mutex_lock wait t 0 (mtx S) = (Took, (mtx S)\<lparr>mstate := t\<rparr>)" using assms by (simp add: thread_mutex_lock_def)
  note a = mstep.round [OF assms(1) this, where wake = wake]
  let ?T = "put_thread t (after_lock Took (depth S t)) ((mtx S)\<lparr>mstate := t\<rparr>) S"
  have "tpc ?T t = In_took" "mutex_taken (mtx ?T) = (Returns 0, (mtx ?T)\<lparr>recursion := 1\<rparr>)"
    using assms by (simp_all add: put_thread_def mutex_taken_def)
  note b = mstep.taken [OF this, where wait = wait and wake = wake]
  let ?U = "put_thread t (after_lock (Returns 0) (depth ?T t)) ((mtx ?T)\<lparr>recursion := 1\<rparr>) ?T"
  have "(mstep wait wake)\<^sup>*\<^sup>* S ?U" using rtranclp.rtrancl_into_rtrancl [of "mstep wait wake", OF r_into_rtranclp [of "mstep wait wake", OF a] b] .
  moreover have "tpc ?U t = Out" "depth ?U t = Suc (depth S t)" by (simp_all add: put_thread_def)
  ultimately show ?thesis by blast
qed

lemma lock_free_taken:
  assumes "mutex_ok S" "tpc S t = In_lock e" "mstate (mtx S) = 0" "\<And>w e. wait w e \<in> {0, EAGAIN, EINTR}"
  shows "\<exists>T. (mstep wait wake)\<^sup>*\<^sup>* S T \<and> tpc T t = Out \<and> depth T t = 1"
proof -
  have n: "\<forall>u. \<not> holds S u" using free_no_holder [OF assms(1)] assms(3) by simp
  then have z: "recursion (mtx S) = 0" "depth S t = 0" using assms(1) by (auto simp: mutex_ok_def holds_def)
  show ?thesis
  proof (cases "e = 0")
    case True
    then show ?thesis using take_free [of S t] assms z by auto
  next
    case False
    then have "e AND mutex_owner_mask \<noteq> t" using thread_okD [OF assms(1), of t] assms(2) z by (auto simp: thread_ok_def split: if_splits)
    then have "thread_mutex_lock wait t e (mtx S) = (Again 0, mtx S)"
      using False assms(3) assms(4) [of "mstate (mtx S)" e] by (auto simp: thread_mutex_lock_def Let_def)
    then obtain T where T: "mstep wait wake S T" "tpc T t = In_lock 0" "mtx T = mtx S" "depth T t = depth S t"
      using round_step [OF assms(2), of wait 0 wake] by blast
    then show ?thesis using take_free [of T t wait wake] assms(3) z by (metis One_nat_def converse_rtranclp_into_rtranclp)
  qed
qed

text \<open>C20. A mutex excludes.  However the threads of a process interleave on a mutex of any type, at most one has it; the lock word
  names that thread and the recursion count is the number of its locks.  No thread of a recursive or error-checking mutex
  is stopped by an assertion, and when the mutex is free a thread in \<open>pthread_mutex_lock\<close> takes it with its next steps.\<close>

theorem mutex_excludes:
  assumes "thread_mutex_init type = Some m" "\<forall>w e. wait w e \<in> {0, EAGAIN, EINTR}" "0 \<le> wake"
    and "(mstep wait wake)\<^sup>*\<^sup>* (mutex_system m) S"
  shows "(\<forall>t u. 0 < depth S t \<and> 0 < depth S u \<longrightarrow> t = u) \<and>
    (\<forall>t. 0 < depth S t \<and> tpc S t = Out \<longrightarrow> mstate (mtx S) AND mutex_owner_mask = t \<and> recursion (mtx S) = of_nat (depth S t)) \<and>
    (type \<noteq> 0 \<longrightarrow> (\<forall>t. tpc S t \<noteq> Dead)) \<and>
    (\<forall>t e. tpc S t = In_lock e \<and> mstate (mtx S) = 0 \<longrightarrow> (\<exists>T. (mstep wait wake)\<^sup>*\<^sup>* S T \<and> tpc T t = Out \<and> depth T t = 1))"
proof -
  have w: "\<And>w e. wait w e \<in> {0, EAGAIN, EINTR}" using assms(2) by blast
  have ok: "mutex_ok S" "mflags (mtx S) = mflags m"
    using msteps_ok [OF assms(4) mutex_system_ok [OF assms(1)] w assms(3)] by (simp_all add: mutex_system_def)
  have "type \<noteq> 0 \<longrightarrow> mflags m AND (mutexRecursive OR mutexErrorCheck) \<noteq> 0"
    using assms(1) by (auto simp: thread_mutex_init_def mutexRecursive_def mutexErrorCheck_def split: if_splits)
  then have "tpc S t \<noteq> Dead" if "type \<noteq> 0" for t
    using thread_okD [OF ok(1), of t] ok(2) that by (auto simp: thread_ok_def split: if_splits)
  moreover have "mstate (mtx S) AND mutex_owner_mask = t \<and> recursion (mtx S) = of_nat (depth S t)" if "0 < depth S t" "tpc S t = Out" for t
    using thread_okD [OF ok(1), of t] that by (auto simp: thread_ok_def split: if_splits)
  moreover have "t = u" if "0 < depth S t" "0 < depth S u" for t u
    using only_holder [OF ok(1), of t u] that by (auto simp: holds_def)
  ultimately show ?thesis using lock_free_taken [where wait = wait and wake = wake, OF ok(1) _ _ w] by blast
qed

theorem mutex_excludes_witness:
  "\<exists>S. (mstep (\<lambda>_ _. 0) 0)\<^sup>*\<^sup>* (mutex_system \<lparr>mstate = 0, recursion = 0, mflags = mutexRecursive\<rparr>) S \<and>
     depth S 7 = 1 \<and> recursion (mtx S) = 1 \<and> (\<forall>u. 0 < depth S u \<longrightarrow> u = 7)"
proof -
  let ?m = "\<lparr>mstate = 0, recursion = 0, mflags = mutexRecursive\<rparr>" and ?w = "\<lambda>_ _. 0 :: int"
  let ?A = "put_thread 7 (In_lock 0, 0) ?m (mutex_system ?m)"
  have "tid_ok 7" by code_simp
  then have a: "mstep ?w 0 (mutex_system ?m) ?A"
    using mstep.call_lock [of "mutex_system ?m" 7 ?w 0] by (simp add: mutex_system_def)
  obtain S where S: "(mstep ?w 0)\<^sup>*\<^sup>* ?A S" "tpc S 7 = Out" "depth S 7 = 1"
    using take_free [of ?A 7 ?w 0] by (auto simp: put_thread_def mutex_system_def)
  have r: "(mstep ?w 0)\<^sup>*\<^sup>* (mutex_system ?m) S" using a S(1) by (rule converse_rtranclp_into_rtranclp)
  have i: "thread_mutex_init 2 = Some ?m" by (simp add: thread_mutex_init_def)
  note e = mutex_excludes [OF i _ _ r]
  have "recursion (mtx S) = of_nat (depth S 7)" using e S(2,3) by (metis insertCI order_refl zero_less_one)
  moreover have "\<forall>u. 0 < depth S u \<longrightarrow> u = 7" using e S(3) by (metis insertCI order_refl zero_less_one)
  ultimately show ?thesis using r S(3) by (intro exI [of _ S]) simp
qed

text \<open>The library's recursive lock is the recursive mutex; its \<open>try_lock\<close> stops the process when the caller already has the lock.\<close>

lemma futex_lock_recursive:
  "mflags m = mutexRecursive \<Longrightarrow> futex_lock True wait t e m = thread_mutex_lock wait t e m" "futex_unlock True m = thread_mutex_unlock m"
  by (simp_all add: futex_lock_def thread_mutex_lock_def futex_unlock_def thread_mutex_unlock_def mutexRecursive_def)

lemma try_lock_dies:
  assumes "tid_ok t" "mstate m AND mutex_owner_mask = t" "recursion m \<noteq> 0"
  shows "futex_try_lock True t m = (None, m)"
  using assms by (auto simp: futex_try_lock_def tid_ok_def)

end
