(* ===== verification/Uvmcopy.thy ===== *)
theory Uvmcopy
  imports Uvm
begin

text \<open>
  What \<open>fork\<close> does to user memory: \<open>uvmunmap\<close> and \<open>uvmcopy\<close> of \<open>kernel/vm.c\<close>.

  \<open>unmaps\<close> says that the pages of a set have been unmapped and their frames given back; \<open>copied\<close> that the pages of the
  old table below a bound have been copied to fresh frames under the new one.
\<close>

section \<open>Unmapping\<close>

definition valid :: "memory \<Rightarrow> u64 \<Rightarrow> u64 \<Rightarrow> bool" where
  "valid m pt va \<longleftrightarrow> ent m pt va AND PTE_V \<noteq> 0"

definition pages :: "u64 \<Rightarrow> nat \<Rightarrow> u64 set" where
  "pages va n = {va + of_nat (j * 4096) |j. j < n}"

definition freeable :: "u64 \<Rightarrow> u64 set \<Rightarrow> 'a kmem_state_scheme \<Rightarrow> u64 list \<Rightarrow> bool" where
  "freeable pt R s ys \<longleftrightarrow> (\<forall>vb\<in>R. aligned vb \<and> vb < MAXVA \<and> (valid (mem s) pt vb \<longrightarrow>
       page_ok (kend s) (frame (mem s) pt vb) \<and> frame (mem s) pt vb \<notin> set ys \<and> frame (mem s) pt vb \<notin> nodes (mem s) pt)) \<and>
     inj_on (frame (mem s) pt) {vb\<in>R. valid (mem s) pt vb}"

definition unmaps :: "u64 \<Rightarrow> u64 set \<Rightarrow> 'a kmem_state_scheme \<Rightarrow> u64 list \<Rightarrow> 'a kmem_state_scheme \<Rightarrow> u64 list \<Rightarrow> bool" where
  "unmaps pt R s ys s' zs \<longleftrightarrow>
     kmem_inv zs s' \<and> pt_ok zs (mem s') pt \<and> nodes (mem s') pt = nodes (mem s) pt \<and> keeps s s' \<and>
     (\<forall>vb. aligned vb \<longrightarrow> vb < MAXVA \<longrightarrow>
        ent (mem s') pt vb = (if vb \<in> R \<and> valid (mem s) pt vb then 0 else ent (mem s) pt vb)) \<and>
     set zs = set ys \<union> frame (mem s) pt ` {vb\<in>R. valid (mem s) pt vb} \<and>
     (\<forall>q. aligned q \<longrightarrow> q \<notin> nodes (mem s) pt \<longrightarrow> q \<notin> frame (mem s) pt ` {vb\<in>R. valid (mem s) pt vb} \<longrightarrow>
        same_on {q} (mem s) (mem s'))"

lemma pages_0 [simp]: "pages va 0 = {}"
  by (simp add: pages_def)

lemma pages_Suc: "pages va (Suc n) = insert va (pages (va + PGSIZE) n)"
proof -
  have "va + of_nat (Suc j * 4096) = va + PGSIZE + of_nat (j * 4096)" for j by (simp add: algebra_simps)
  then have "{va + of_nat (Suc j * 4096) |j. j < n} = pages (va + PGSIZE) n" unfolding pages_def by metis
  moreover have "pages va (Suc n) = insert va {va + of_nat (Suc j * 4096) |j. j < n}"
    unfolding pages_def by (auto simp: less_Suc_eq_0_disj simp del: of_nat_mult of_nat_Suc mult_Suc)
      (metis (no_types, lifting) add.right_neutral mult_zero_left of_nat_0 zero_less_Suc)
  ultimately show ?thesis by simp
qed

lemma unmaps_empty: "kmem_inv ys s \<Longrightarrow> pt_ok ys (mem s) pt \<Longrightarrow> unmaps pt {} s ys s ys"
  by (simp add: unmaps_def)

lemma unmaps_view:
  assumes "unmaps pt R s ys t zs" "vb \<notin> R" "aligned vb" "vb < MAXVA"
  shows "ent (mem t) pt vb = ent (mem s) pt vb" "valid (mem t) pt vb = valid (mem s) pt vb" "frame (mem t) pt vb = frame (mem s) pt vb"
  using assms by (auto simp: unmaps_def valid_def frame_def)

lemma unmaps_trans:
  assumes a: "unmaps pt R s ys t zs" and b: "unmaps pt Q t zs u ws" and d: "R \<inter> Q = {}" "\<forall>vb\<in>Q. aligned vb \<and> vb < MAXVA"
  shows "unmaps pt (R \<union> Q) s ys u ws"
proof -
  have v: "valid (mem t) pt vb = valid (mem s) pt vb" "frame (mem t) pt vb = frame (mem s) pt vb" if "vb \<in> Q" for vb
    using unmaps_view [OF a, of vb] that d by auto
  then have q: "{vb\<in>Q. valid (mem t) pt vb} = {vb\<in>Q. valid (mem s) pt vb}" by auto
  then have f: "frame (mem t) pt ` {vb\<in>Q. valid (mem t) pt vb} = frame (mem s) pt ` {vb\<in>Q. valid (mem s) pt vb}"
    using v(2) by (auto simp: image_iff)
  have rq: "{vb\<in>R \<union> Q. valid (mem s) pt vb} = {vb\<in>R. valid (mem s) pt vb} \<union> {vb\<in>Q. valid (mem s) pt vb}" by auto
  have "ent (mem u) pt vb = (if vb \<in> R \<union> Q \<and> valid (mem s) pt vb then 0 else ent (mem s) pt vb)" if "aligned vb" "vb < MAXVA" for vb
    using a b that v(1) [of vb] d unfolding unmaps_def by (auto split: if_splits)
  moreover have "same_on {q} (mem s) (mem u)"
    if "aligned q" "q \<notin> nodes (mem s) pt" "q \<notin> frame (mem s) pt ` {vb\<in>R \<union> Q. valid (mem s) pt vb}" for q
    using a b that f rq unfolding unmaps_def by (auto simp: image_Un intro: same_on_trans)
  ultimately show ?thesis using a b f rq keeps_trans unfolding unmaps_def by (auto simp: image_Un)
qed

lemma freeable_mono: "freeable pt R s ys \<Longrightarrow> Q \<subseteq> R \<Longrightarrow> freeable pt Q s ys"
  unfolding freeable_def by (auto elim: inj_on_subset)

lemma freeable_next:
  assumes "freeable pt (R \<union> Q) s ys" "unmaps pt R s ys t zs" "R \<inter> Q = {}"
  shows "freeable pt Q t zs"
proof -
  have al: "aligned vb" "vb < MAXVA" if "vb \<in> Q" for vb using assms(1) that by (auto simp: freeable_def)
  have v: "valid (mem t) pt vb = valid (mem s) pt vb" "frame (mem t) pt vb = frame (mem s) pt vb" if "vb \<in> Q" for vb
    using unmaps_view [OF assms(2), of vb] that assms(3) al by auto
  have "frame (mem s) pt vb \<notin> frame (mem s) pt ` {vb\<in>R. valid (mem s) pt vb}" if "vb \<in> Q" "valid (mem s) pt vb" for vb
    using assms(1,3) that unfolding freeable_def inj_on_def by blast
  moreover have "kend t = kend s" using assms(2) keeps_kend [of s t] by (simp add: unmaps_def)
  ultimately show ?thesis using assms(1,2) v unfolding freeable_def unmaps_def inj_on_def by auto
qed

text \<open>One page.\<close>

definition unmap_page :: "u64 \<Rightarrow> u64 \<Rightarrow> (unit, 'a kmem_state_scheme) routine" where
  "unmap_page pt a =
     bind (walk pt a False) (\<lambda>pte.
     if pte = 0 then skip else
     bind (ldw pte) (\<lambda>e.
     if e AND PTE_V = 0 then skip else
     seq (only_if True (kfree (PTE2PA e))) (stw pte 0)))"

lemma unmap_page_ok:
  assumes inv: "kmem_inv ys s" and ok: "pt_ok ys (mem s) pt" and fr: "freeable pt {va} s ys"
  shows "\<exists>s' zs. unmap_page pt va s = (Ret (), s') \<and> unmaps pt {va} s ys s' zs"
proof (cases "valid (mem s) pt va")
  case False
  have va: "va < MAXVA" using fr by (simp add: freeable_def)
  have "unmap_page pt va s = (Ret (), s)"
    using False va by (auto simp: unmap_page_def kdefs walk_read ldw_def ent_def valid_def split: option.splits)
  moreover have "unmaps pt {va} s ys s ys" using inv ok False by (auto simp: unmaps_def)
  ultimately show ?thesis by blast
next
  case True
  let ?x = "frame (mem s) pt va"
  have va: "aligned va" "va < MAXVA" and x: "page_ok (kend s) ?x" "?x \<notin> set ys" "?x \<notin> nodes (mem s) pt" "aligned ?x"
    using fr True by (simp_all add: freeable_def frame_def)
  obtain p where p: "node (mem s) pt va 2 = Some p" "ent (mem s) pt va = load64 (mem s) (pte_at p 0 va)"
    using True by (auto simp: valid_def ent_def split: option.splits)
  obtain t where t: "kfree ?x s = (Ret (), t)" "kmem_inv (?x # ys) t" "keeps s t"
      "\<forall>P. (\<forall>q\<in>P. aligned q \<and> q \<noteq> ?x) \<longrightarrow> same_on P (mem s) (mem t)"
  proof -
    have "lock_free KmemLock (ctl s)" using inv by (simp add: kmem_inv_def)
    note e = kfree_eq [OF x(1) this]
    have "keeps s (s\<lparr>mem := m, freelist := f, ctl := settle (ctl s)\<rparr>)" for m f unfolding keeps_def by blast
    then show ?thesis using km.free_some [OF inv x(1,2)] e that by auto
  qed
  have n: "same_on (nodes (mem s) pt) (mem s) (mem t)" using t(4) pt_ok_nodes [OF ok] x(3) by blast
  have okt: "pt_ok (?x # ys) (mem t) pt"
    using pt_ok_same [OF ok n] x(3) nodes_same [OF n] unfolding pt_ok_def by auto
  have pt: "node (mem t) pt va 2 = Some p" using node_same [OF n, of 2 va] p(1) by simp
  let ?u = "t\<lparr>mem := store64 (mem t) (pte_at p 0 va) 0\<rparr>"
  have ev: "evolves pt (?x # ys) t (?x # ys) ?u" by (rule evolves_leaf [OF t(2) okt pt])
  have nu: "nodes (mem ?u) pt = nodes (mem s) pt" using pt_ok_leaf_store(2) [OF okt pt] nodes_same [OF n] by simp
  have ent: "ent (mem ?u) pt vb = (if vb = va then 0 else ent (mem s) pt vb)" if "aligned vb" "vb < MAXVA" for vb
    using ent_leaf_store [OF okt pt, of 0 vb] agree_page [OF va(2) that(2) va(1) that(1)] ent_same [OF n, of vb] by auto
  have o: "same_on {q} (mem s) (mem ?u)" if "aligned q" "q \<notin> nodes (mem s) pt" "q \<noteq> ?x" for q
  proof (rule same_on_trans)
    show "same_on {q} (mem s) (mem t)" using t(4) that by simp
    have pn: "p \<in> nodes (mem s) pt" "aligned p" using in_nodes [OF p(1)] pt_ok_nodes [OF ok] by auto
    show "same_on {q} (mem t) (mem ?u)"
      using same_on_store64 [OF pn(2) offset_in_page, of "{q}"] that pn(1) by (auto simp: pte_at_offset)
  qed
  have "pte_at p 0 va \<noteq> 0" using pte_at_nonzero [OF ok p(1)] by simp
  then have "unmap_page pt va s = (Ret (), ?u)"
    using True va(2) p t(1) by (simp add: unmap_page_def kdefs walk_read ldw_def stw_def valid_def frame_def)
  moreover have "{vb \<in> {va}. valid (mem s) pt vb} = {va}" using True by auto
  moreover have "unmaps pt {va} s ys ?u (?x # ys)"
    unfolding unmaps_def calculation(2) using ev nu ent o True keeps_trans [OF t(3)] by (auto simp: evolves_def)
  ultimately show ?thesis by blast
qed

lemma pages_above:
  assumes "unat va + Suc n * 4096 \<le> 2 ^ 38"
  shows "va \<notin> pages (va + PGSIZE) n"
proof
  assume "va \<in> pages (va + PGSIZE) n"
  then obtain j where j: "j < n" "va = va + of_nat (Suc j * 4096)" by (auto simp: pages_def algebra_simps)
  define k where "k = Suc j * 4096"
  have "of_nat k = (0 :: u64)" using j(2) unfolding k_def by (metis add_cancel_right_right)
  moreover have "unat (of_nat k :: u64) = k" "k \<noteq> 0" using j(1) assms by (simp_all add: k_def unat_of_nat take_bit_nat_eq_self del: of_nat_mult of_nat_Suc of_nat_add)
  ultimately show False by simp
qed

lemma unmap_loop_ok:
  "kmem_inv ys s \<Longrightarrow> pt_ok ys (mem s) pt \<Longrightarrow> unat va + n * 4096 \<le> 2 ^ 38 \<Longrightarrow> freeable pt (pages va n) s ys \<Longrightarrow>
   \<exists>s' zs. uvmunmap_loop n pt va (va + of_nat n * PGSIZE) True s = (Ret (), s') \<and> unmaps pt (pages va n) s ys s' zs"
proof (induction n arbitrary: va s ys)
  case 0
  then show ?case using unmaps_empty [of ys s pt] by (auto simp: uvmunmap_loop.simps skip_def ret_def)
next
  case (Suc n)
  have r: "pages va (Suc n) = {va} \<union> pages (va + PGSIZE) n" by (simp add: pages_Suc)
  have d: "{va} \<inter> pages (va + PGSIZE) n = {}" using pages_above [OF Suc.prems(3)] by simp
  obtain t zs where t: "unmap_page pt va s = (Ret (), t)" "unmaps pt {va} s ys t zs"
    using unmap_page_ok [OF Suc.prems(1,2) freeable_mono [OF Suc.prems(4)], of va] r by blast
  have i: "kmem_inv zs t" "pt_ok zs (mem t) pt" using t(2) by (simp_all add: unmaps_def)
  have f: "freeable pt (pages (va + PGSIZE) n) t zs" using freeable_next [OF _ t(2) d] Suc.prems(4) r by simp
  have u: "unat (va + PGSIZE) = unat va + 4096" using unat_add_of_nat [of va 4096] Suc.prems(3) by simp
  then obtain s' ws where s': "uvmunmap_loop n pt (va + PGSIZE) (va + PGSIZE + of_nat n * PGSIZE) True t = (Ret (), s')"
      "unmaps pt (pages (va + PGSIZE) n) t zs s' ws"
    using Suc.IH [OF i _ f] Suc.prems(3) by auto
  have e: "va + of_nat (Suc n) * PGSIZE = va + PGSIZE + of_nat n * PGSIZE" by (simp add: algebra_simps)
  have "unat (va + of_nat (Suc n * 4096)) = unat va + Suc n * 4096"
    using unat_add_of_nat [of va "Suc n * 4096"] Suc.prems(3) by simp
  then have "va < va + of_nat (Suc n) * PGSIZE" by (simp add: word_less_nat_alt algebra_simps)
  then have "uvmunmap_loop (Suc n) pt va (va + of_nat (Suc n) * PGSIZE) True s = (Ret (), s')"
    using t(1) s'(1) unfolding e by (subst uvmunmap_loop.simps) (simp add: seq_def bind_def unmap_page_def)
  moreover have "\<forall>vb\<in>pages (va + PGSIZE) n. aligned vb \<and> vb < MAXVA" using f by (simp add: freeable_def)
  ultimately show ?case using unmaps_trans [OF t(2) s'(2) d] r by auto
qed

section \<open>Copying\<close>

text \<open>Memory is only changed on pages that were free or belonged to the new table.\<close>

definition untouched :: "u64 list \<Rightarrow> u64 \<Rightarrow> 'a kmem_state_scheme \<Rightarrow> 'a kmem_state_scheme \<Rightarrow> bool" where
  "untouched xs new s s' \<longleftrightarrow> (\<forall>q. aligned q \<longrightarrow> q \<notin> set xs \<longrightarrow> q \<notin> nodes (mem s) new \<longrightarrow> same_on {q} (mem s) (mem s'))"

text \<open>The old and the new table before the copy.\<close>

definition forkable :: "u64 list \<Rightarrow> 'a kmem_state_scheme \<Rightarrow> u64 \<Rightarrow> u64 \<Rightarrow> u64 \<Rightarrow> bool" where
  "forkable xs s old new nb \<longleftrightarrow>
     kmem_inv xs s \<and> pt_ok xs (mem s) old \<and> pt_ok xs (mem s) new \<and> nodes (mem s) old \<inter> nodes (mem s) new = {} \<and> nb \<le> MAXVA \<and>
     (\<forall>va. aligned va \<longrightarrow> va < nb \<longrightarrow> \<not> valid (mem s) new va \<and> (valid (mem s) old va \<longrightarrow>
        page_ok (kend s) (frame (mem s) old va) \<and> frame (mem s) old va \<notin> set xs \<and> frame (mem s) old va \<notin> nodes (mem s) new))"

text \<open>A page of the new table that has been copied from the old one to the frame \<open>x\<close>.\<close>

definition page_copy :: "u64 list \<Rightarrow> memory \<Rightarrow> u64 \<Rightarrow> u64 \<Rightarrow> u64 list \<Rightarrow> memory \<Rightarrow> u64 \<Rightarrow> bool" where
  "page_copy xs m old new ys m' va \<longleftrightarrow>
     ent m' new va = PA2PTE (frame m' new va) OR PTE_FLAGS (ent m old va) OR PTE_V \<and>
     frame m' new va \<in> set xs \<and> frame m' new va \<notin> set ys \<and> frame m' new va \<notin> nodes m' new \<and>
     (\<forall>j<4096. m' (frame m' new va + of_nat j) = m (frame m old va + of_nat j))"

definition copied :: "u64 list \<Rightarrow> 'a kmem_state_scheme \<Rightarrow> u64 \<Rightarrow> u64 \<Rightarrow> nat \<Rightarrow> u64 list \<Rightarrow> 'a kmem_state_scheme \<Rightarrow> bool" where
  "copied xs s old new k ys s' \<longleftrightarrow>
     kmem_inv ys s' \<and> set ys \<subseteq> set xs \<and> keeps s s' \<and> pt_ok ys (mem s') new \<and>
     nodes (mem s') new \<subseteq> nodes (mem s) new \<union> (set xs - set ys) \<and> untouched xs new s s' \<and>
     (\<forall>va. aligned va \<longrightarrow> va < MAXVA \<longrightarrow>
        (if unat va < k * 4096 \<and> valid (mem s) old va then page_copy xs (mem s) old new ys (mem s') va
         else ent (mem s') new va = ent (mem s) new va)) \<and>
     inj_on (frame (mem s') new) {va. aligned va \<and> unat va < k * 4096 \<and> valid (mem s) old va}"

lemma same_on_all: "\<forall>q\<in>P. same_on {q} m m' \<Longrightarrow> same_on P m m'"
  by (auto simp: same_on_def)

lemma copied_0: "forkable xs s old new nb \<Longrightarrow> copied xs s old new 0 xs s"
  by (auto simp: forkable_def copied_def untouched_def)

lemma old_same:
  assumes "forkable xs s old new nb" "untouched xs new s s'"
  shows "same_on (nodes (mem s) old) (mem s) (mem s')"
proof (rule same_on_all, rule ballI)
  fix q assume q: "q \<in> nodes (mem s) old"
  have "pt_ok xs (mem s) old" "q \<notin> nodes (mem s) new" using assms(1) q by (auto simp: forkable_def)
  then show "same_on {q} (mem s) (mem s')" using assms(2) pt_ok_nodes [of xs "mem s" old q] q by (simp add: untouched_def)
qed

lemma old_frame_same:
  assumes "forkable xs s old new nb" "untouched xs new s s'" "aligned va" "va < nb" "valid (mem s) old va" "j < 4096"
  shows "mem s' (frame (mem s) old va + of_nat j) = mem s (frame (mem s) old va + of_nat j)"
proof -
  have "frame (mem s) old va \<notin> set xs" "frame (mem s) old va \<notin> nodes (mem s) new" "aligned (frame (mem s) old va)"
    using assms(1,3-5) by (auto simp: forkable_def frame_def)
  then have "same_on {frame (mem s) old va} (mem s) (mem s')" using assms(2) by (simp add: untouched_def)
  then show ?thesis using in_page_offset [OF assms(6)] by (simp add: same_on_def)
qed

text \<open>A page that is not valid is passed by.\<close>

lemma unat_page: "k * 4096 < 2 ^ 38 \<Longrightarrow> unat (of_nat (k * 4096) :: u64) = k * 4096"
  by (simp add: unat_of_nat take_bit_nat_eq_self del: of_nat_mult)

lemma page_below:
  assumes "k * 4096 < 2 ^ 38" "aligned vb"
  shows "unat vb < Suc k * 4096 \<longleftrightarrow> unat vb < k * 4096 \<or> vb = of_nat (k * 4096)"
proof -
  obtain j where j: "unat vb = j * 4096" using assms(2) unfolding aligned_unat by (metis div_mult_mod_eq add.right_neutral)
  have "vb = of_nat (k * 4096) \<longleftrightarrow> unat vb = k * 4096" using unat_page [OF assms(1)] by (metis word_unat_eq_iff)
  then show ?thesis using j by auto
qed

lemma copied_skip:
  assumes "copied xs s old new k ys s'" "va = of_nat (k * 4096)" "k * 4096 < 2 ^ 38" "\<not> valid (mem s) old va"
  shows "copied xs s old new (Suc k) ys s'"
proof -
  have b: "unat vb < Suc k * 4096 \<and> valid (mem s) old vb \<longleftrightarrow> unat vb < k * 4096 \<and> valid (mem s) old vb" if "aligned vb" for vb
    using page_below [OF assms(3) that] assms(2,4) by auto
  then have "{vb. aligned vb \<and> unat vb < Suc k * 4096 \<and> valid (mem s) old vb} = {vb. aligned vb \<and> unat vb < k * 4096 \<and> valid (mem s) old vb}" by auto
  then show ?thesis using assms(1) b unfolding copied_def by auto
qed

text \<open>Copied pages keep their frames and contents while the new table grows.\<close>

lemma evolvesD:
  assumes "evolves pt ys t zs u"
  shows "kmem_inv zs u" "set zs \<subseteq> set ys" "pt_ok zs (mem u) pt" "nodes (mem u) pt \<subseteq> nodes (mem t) pt \<union> (set ys - set zs)"
    "\<And>q. aligned q \<Longrightarrow> q \<notin> set ys \<Longrightarrow> q \<notin> nodes (mem t) pt \<Longrightarrow> same_on {q} (mem t) (mem u)" "keeps t u"
  using assms by (simp_all add: evolves_def)

lemma page_copy_evolve:
  assumes "page_copy xs m old new ys (mem t) va" "evolves new ys t zs u" "ent (mem u) new va = ent (mem t) new va"
  shows "page_copy xs m old new zs (mem u) va" "frame (mem u) new va \<notin> set ys"
proof -
  note e = evolvesD [OF assms(2)]
  let ?y = "frame (mem t) new va"
  have y: "?y \<in> set xs" "?y \<notin> set ys" "?y \<notin> nodes (mem t) new" "aligned ?y" using assms(1) by (simp_all add: page_copy_def frame_def)
  have f: "frame (mem u) new va = ?y" using assms(3) by (simp add: frame_def)
  have "same_on {?y} (mem t) (mem u)" using e(5) y by blast
  then have c: "mem u (?y + of_nat j) = mem t (?y + of_nat j)" if "j < 4096" for j
    using in_page_offset [OF that, of ?y] by (simp add: same_on_def)
  show "frame (mem u) new va \<notin> set ys" using f y by simp
  show "page_copy xs m old new zs (mem u) va"
    using assms(1,3) y e(2,4) c f unfolding page_copy_def by auto
qed

lemma copied_frames:
  assumes "copied xs s old new k ys t" "aligned va" "va < MAXVA" "unat va < k * 4096" "valid (mem s) old va"
  shows "page_copy xs (mem s) old new ys (mem t) va"
  using assms unfolding copied_def by auto

lemma untouched_evolve:
  assumes "copied xs s old new k ys t" "evolves new ys t zs u"
  shows "untouched xs new s u"
  unfolding untouched_def
proof (intro allI impI)
  fix q assume q: "aligned q" "q \<notin> set xs" "q \<notin> nodes (mem s) new"
  then have "same_on {q} (mem s) (mem t)" "q \<notin> set ys" "q \<notin> nodes (mem t) new"
    using assms(1) unfolding copied_def untouched_def by auto
  then show "same_on {q} (mem s) (mem u)" using evolvesD(5) [OF assms(2) q(1)] same_on_trans by blast
qed

lemma copied_base:
  assumes "copied xs s old new k ys t" "evolves new ys t zs u"
  shows "kmem_inv zs u \<and> set zs \<subseteq> set xs \<and> keeps s u \<and> pt_ok zs (mem u) new \<and>
     nodes (mem u) new \<subseteq> nodes (mem s) new \<union> (set xs - set zs) \<and> untouched xs new s u"
proof -
  have t: "set ys \<subseteq> set xs" "keeps s t" "nodes (mem t) new \<subseteq> nodes (mem s) new \<union> (set xs - set ys)"
    using assms(1) by (simp_all add: copied_def)
  show ?thesis using evolvesD [OF assms(2)] t keeps_trans [OF t(2)] untouched_evolve [OF assms] by blast
qed

lemma copied_evolve:
  assumes c: "copied xs s old new k ys t" and e: "evolves new ys t zs u" and k: "k * 4096 \<le> 2 ^ 38"
    and n: "\<And>vb. aligned vb \<Longrightarrow> vb < MAXVA \<Longrightarrow> ent (mem u) new vb = ent (mem t) new vb"
  shows "copied xs s old new k zs u"
proof -
  let ?A = "{va. aligned va \<and> unat va < k * 4096 \<and> valid (mem s) old va}"
  have a: "va < MAXVA" if "unat va < k * 4096" for va using that k by (simp add: word_less_nat_alt)
  have "inj_on (frame (mem t) new) ?A" using c by (simp add: copied_def)
  then have "inj_on (frame (mem u) new) ?A" using n a by (auto simp: inj_on_def frame_def)
  moreover have "if unat va < k * 4096 \<and> valid (mem s) old va then page_copy xs (mem s) old new zs (mem u) va
      else ent (mem u) new va = ent (mem s) new va" if "aligned va" "va < MAXVA" for va
    using page_copy_evolve(1) [OF _ e n [OF that]] n [OF that] c that unfolding copied_def by auto
  ultimately show ?thesis using copied_base [OF c e] unfolding copied_def by blast
qed

lemma copied_step:
  assumes c: "copied xs s old new k ys t" and e: "evolves new ys t zs u" and k: "k * 4096 < 2 ^ 38" and va: "va = of_nat (k * 4096)"
    and n: "\<And>vb. aligned vb \<Longrightarrow> vb < MAXVA \<Longrightarrow> ent (mem u) new vb =
        (if vb = va then PA2PTE x OR PTE_FLAGS (ent (mem s) old va) OR PTE_V else ent (mem t) new vb)"
    and x: "frame (mem u) new va = x" "x \<in> set ys" "x \<notin> set zs" "x \<notin> nodes (mem u) new" "valid (mem s) old va"
    and m: "\<And>j. j < 4096 \<Longrightarrow> mem u (x + of_nat j) = mem s (frame (mem s) old va + of_nat j)"
  shows "copied xs s old new (Suc k) zs u"
proof -
  let ?A = "\<lambda>k. {va. aligned va \<and> unat va < k * 4096 \<and> valid (mem s) old va}"
  have u: "unat va = k * 4096" "aligned va" "va < MAXVA"
    using unat_page [OF k] k by (simp_all add: va aligned_unat word_less_nat_alt del: of_nat_mult)
  have b: "unat vb < Suc k * 4096 \<longleftrightarrow> unat vb < k * 4096 \<or> vb = va" if "aligned vb" for vb using page_below [OF k that] va by simp
  have lt: "vb < MAXVA" "vb \<noteq> va" if "unat vb < k * 4096" for vb using that k u(1) by (auto simp: word_less_nat_alt)
  have old: "page_copy xs (mem s) old new zs (mem u) vb" "frame (mem u) new vb \<notin> set ys" "frame (mem u) new vb = frame (mem t) new vb"
    if "vb \<in> ?A k" for vb
  proof -
    have v: "aligned vb" "vb < MAXVA" "vb \<noteq> va" using that lt by auto
    have e1: "ent (mem u) new vb = ent (mem t) new vb" using n [OF v(1,2)] v(3) by simp
    have "page_copy xs (mem s) old new ys (mem t) vb" using copied_frames [OF c v(1,2)] that by simp
    then show "page_copy xs (mem s) old new zs (mem u) vb" "frame (mem u) new vb \<notin> set ys" "frame (mem u) new vb = frame (mem t) new vb"
      using page_copy_evolve [OF _ e e1] e1 by (simp_all add: frame_def)
  qed
  have xs: "set ys \<subseteq> set xs" using c by (simp add: copied_def)
  have new: "page_copy xs (mem s) old new zs (mem u) va" using n [OF u(2,3)] x m xs unfolding page_copy_def by auto
  have A: "?A (Suc k) = insert va (?A k)" using b x(5) u by auto
  have "inj_on (frame (mem u) new) (?A k)" using c old(3) by (auto simp: copied_def inj_on_def)
  moreover have "frame (mem u) new va \<notin> frame (mem u) new ` ?A k" using old(2) x(1,2) by auto
  ultimately have "inj_on (frame (mem u) new) (?A (Suc k))" unfolding A by (simp add: inj_on_insert) blast
  moreover have "if unat vb < Suc k * 4096 \<and> valid (mem s) old vb then page_copy xs (mem s) old new zs (mem u) vb
      else ent (mem u) new vb = ent (mem s) new vb" if v: "aligned vb" "vb < MAXVA" for vb
  proof (cases "vb = va")
    case True
    then show ?thesis using new b [OF v(1)] x(5) by simp
  next
    case False
    then have "ent (mem u) new vb = ent (mem t) new vb" using n [OF v] by simp
    then show ?thesis using False old(1) [of vb] b [OF v(1)] v c unfolding copied_def by auto
  qed
  ultimately show ?thesis using copied_base [OF c e] unfolding copied_def by blast
qed

text \<open>A page is allocated and filled with the contents of another.\<close>

lemma filled:
  assumes inv: "kmem_inv (x # zs) t" and ok: "pt_ok (x # zs) (mem t) new" and f: "page_ok (kend t) f" "f \<noteq> x"
  shows "\<exists>u v. kalloc t = (Ret x, u) \<and> v = u\<lparr>mem := memmove (mem u) x f 4096\<rparr> \<and> evolves new (x # zs) t zs v \<and>
     nodes (mem v) new = nodes (mem t) new \<and> (\<forall>vb. ent (mem v) new vb = ent (mem t) new vb) \<and>
     (\<forall>j<4096. mem v (x + of_nat j) = mem t (f + of_nat j))"
proof -
  have x: "freelist t = x" "x \<noteq> 0" "page_ok (kend t) x" "aligned x" "lock_free KmemLock (ctl t)" "x \<notin> set zs"
      "\<forall>z\<in>set zs. aligned z"
    using inv by (auto simp: kmem_inv_def page_ok_def)
  define u where "u = t\<lparr>freelist := load64 (mem t) x, ctl := settle (ctl t), mem := memset (mem t) x 5 4096\<rparr>"
  have k: "kalloc t = (Ret x, u)" using kalloc_eq [of t] x by (simp add: u_def)
  have b: "unat x + unat (4096 :: u32) < 2 ^ 64" "unat f + unat (4096 :: u32) < 2 ^ 64"
    using x(3) f(1) by (simp_all add: page_ok_def word_less_nat_alt)
  note mv = memmove_eq [OF b(2,1), of "mem u"]
  let ?v = "u\<lparr>mem := memmove (mem u) x f 4096\<rparr>"
  have away: "same_on P (mem u) (memmove (mem u) x f 4096)" if "\<forall>q\<in>P. aligned q \<and> q \<noteq> x" for P
    using pages_disjoint [of x] x(4) that unfolding mv by (auto simp: same_on_def in_page_def)
  have same: "same_on P (mem t) (mem ?v)" if P: "\<forall>q\<in>P. aligned q \<and> q \<noteq> x" for P
  proof (rule same_on_trans)
    show "same_on P (mem t) (mem u)" using same_on_memset_page [OF x(4) P] by (simp add: u_def)
    show "same_on P (mem u) (mem ?v)" using away [OF P] by simp
  qed
  have n: "same_on (nodes (mem t) new) (mem t) (mem ?v)" using same pt_ok_nodes [OF ok] by auto
  have i: "kmem_inv zs ?v"
  proof (rule kmem_inv_same)
    show "kmem_inv zs u" using kalloc_inv [OF inv] by (simp add: u_def)
    show "same_on (set zs) (mem u) (memmove (mem u) x f 4096)"
      using away [of "set zs"] x(6,7) by blast
  qed
  have kp: "keeps t ?v" unfolding keeps_def u_def
    by (intro exI [of _ "memmove (mem u) x f 4096"] exI [of _ "load64 (mem t) x"] exI [of _ "settle (ctl t)"]) (simp add: u_def)
  have okv: "pt_ok zs (mem ?v) new" using pt_ok_subset [OF pt_ok_same [OF ok n], of zs] by auto
  have ev: "evolves new (x # zs) t zs ?v"
    unfolding evolves_def using i okv nodes_same [OF n] same kp by auto
  have c: "mem ?v (x + of_nat j) = mem t (f + of_nat j)" if j: "j < 4096" for j
  proof -
    have "unat (of_nat j :: u64) = j" using j by (simp add: unat_of_nat take_bit_nat_eq_self)
    then have "mem ?v (x + of_nat j) = mem u (f + of_nat j)" using j by (simp add: mv)
    also have "\<dots> = mem t (f + of_nat j)"
      using same_on_memset_page [OF x(4), of "{f}" "mem t" 5] f in_page_offset [OF j, of f] by (simp add: same_on_def page_ok_def u_def)
    finally show ?thesis .
  qed
  show ?thesis using k ev nodes_same [OF n] ent_same [OF n] c by blast
qed

definition copy_page :: "u64 \<Rightarrow> u64 \<Rightarrow> u64 \<Rightarrow> (bool, 'a kmem_state_scheme) routine" where
  "copy_page new i e =
     bind kalloc (\<lambda>pa.
     if pa = 0 then ret False else
     seq (modify (\<lambda>s. s\<lparr>mem := memmove (mem s) pa (PTE2PA e) 4096\<rparr>)) (
     bind (mappages new i PGSIZE pa (PTE_FLAGS e)) (\<lambda>r.
     if r \<noteq> 0 then seq (kfree pa) (ret False) else ret True)))"

lemma flags_small: "PTE_FLAGS e OR PTE_V < 1024"
proof -
  have "PTE_FLAGS e OR PTE_V = take_bit 10 (e OR 1)"
    by (rule bit_word_eqI) (auto simp: PTE_FLAGS_def bit_simps mask10_eq)
  moreover have "unat (take_bit 10 (e OR 1)) < 2 ^ 10" unfolding unsigned_take_bit_eq by (rule take_bit_nat_less_exp)
  ultimately show ?thesis by (simp add: word_less_nat_alt)
qed

lemma frame_copy:
  assumes "ent m new va = PA2PTE x OR PTE_FLAGS e OR PTE_V" "page_ok b x"
  shows "frame m new va = x"
proof -
  have "aligned x" "x < 0x100000000000000" using assms(2) by (auto simp: page_ok_def word_less_nat_alt)
  then show ?thesis using PTE2PA_PA2PTE [OF _ _ flags_small, of x e] assms(1) by (simp add: frame_def or.assoc)
qed

lemma freed:
  assumes ev: "evolves pt (x # zs) t ws v" and x: "x \<notin> set ws" "page_ok (kend t) x" "x \<notin> nodes (mem v) pt"
    and sub: "set ws \<subseteq> set zs" "x \<notin> set zs" and nv: "nodes (mem v) pt \<subseteq> nodes (mem t) pt \<union> (set zs - set ws)"
  shows "\<exists>u. kfree x v = (Ret (), u) \<and> evolves pt (x # zs) t (x # ws) u \<and> (\<forall>vb. ent (mem u) pt vb = ent (mem v) pt vb)"
proof -
  note e = evolvesD [OF ev]
  have pv: "page_ok (kend v) x" using keeps_kend [OF e(6)] x(2) by simp
  have "lock_free KmemLock (ctl v)" using e(1) by (simp add: kmem_inv_def)
  note k = kfree_eq [OF pv this]
  obtain u where u: "kfree x v = (Ret (), u)" "kmem_inv (x # ws) u" "keeps v u"
      "\<And>P. (\<forall>q\<in>P. aligned q \<and> q \<noteq> x) \<Longrightarrow> same_on P (mem v) (mem u)"
  proof -
    have "keeps v (v\<lparr>mem := m, freelist := f, ctl := settle (ctl v)\<rparr>)" for m f unfolding keeps_def by blast
    then show ?thesis using km.free_some [OF e(1) pv x(1)] k that by auto
  qed
  have n: "same_on (nodes (mem v) pt) (mem v) (mem u)" using u(4) pt_ok_nodes [OF e(3)] x(3) by blast
  have ok: "pt_ok (x # ws) (mem u) pt" using pt_ok_same [OF e(3) n] x(3) nodes_same [OF n] unfolding pt_ok_def by auto
  have o: "same_on {q} (mem t) (mem u)" if "aligned q" "q \<notin> set (x # zs)" "q \<notin> nodes (mem t) pt" for q
    using e(5) [OF that] u(4) [of "{q}"] that same_on_trans by auto
  have "nodes (mem u) pt \<subseteq> nodes (mem t) pt \<union> (set (x # zs) - set (x # ws))" using nodes_same [OF n] nv sub by auto
  then have "evolves pt (x # zs) t (x # ws) u"
    unfolding evolves_def using u(2) ok o keeps_trans [OF e(6) u(3)] sub by auto
  then show ?thesis using u(1) ent_same [OF n] by blast
qed

lemma map_one:
  assumes "kmem_inv ys s" "pt_ok ys (mem s) pt" "aligned va" "va < MAXVA" "ent (mem s) pt va AND PTE_V = 0"
  shows "\<exists>r s' zs. mappages pt va PGSIZE x perm s = (Ret r, s') \<and> evolves pt ys s zs s' \<and>
     (if r = 0 then \<forall>vb. aligned vb \<longrightarrow> vb < MAXVA \<longrightarrow> ent (mem s') pt vb = (if vb = va then PA2PTE x OR perm OR PTE_V else ent (mem s) pt vb)
      else zs = [] \<and> (\<forall>vb. aligned vb \<longrightarrow> vb < MAXVA \<longrightarrow> ent (mem s') pt vb = ent (mem s) pt vb))"
proof -
  have "unat va + 1 * 4096 \<le> 2 ^ 38"
    using assms(3,4) by (auto simp: aligned_unat word_less_nat_alt elim!: dvdE simp flip: dvd_eq_mod_eq_0)
  moreover have "\<forall>vb. aligned vb \<longrightarrow> vb < MAXVA \<longrightarrow> unat (vb - va) < 1 * 4096 \<longrightarrow> ent (mem s) pt vb AND PTE_V = 0"
    using assms(5) one_page [OF assms(3)] by simp
  ultimately obtain r s' zs j where m: "mappages pt va PGSIZE x perm s = (Ret r, s')" "evolves pt ys s zs s'"
      "maps (mem s) pt va j x perm (mem s')" "r = 0 \<and> j = 1 \<or> r = - 1 \<and> zs = [] \<and> j < 1"
    using mappages_ok [OF assms(1-3), of 1 x perm] by auto
  then show ?thesis using one_page [OF assms(3)] by (auto simp: maps_def)
qed

lemma copy_success:
  assumes fk: "forkable xs s old new nb" and c: "copied xs s old new k (x # zs) t"
    and va: "va = of_nat (k * 4096)" "k * 4096 < 2 ^ 38" "va < nb" "valid (mem s) old va"
    and ev: "evolves new (x # zs) t ws u" and x: "page_ok (kend t) x" "x \<notin> set ws" "x \<notin> nodes (mem u) new"
    and n: "\<And>vb. aligned vb \<Longrightarrow> vb < MAXVA \<Longrightarrow> ent (mem u) new vb =
        (if vb = va then PA2PTE x OR PTE_FLAGS (ent (mem s) old va) OR PTE_V else ent (mem t) new vb)"
    and m: "\<And>j. j < 4096 \<Longrightarrow> mem u (x + of_nat j) = mem t (frame (mem s) old va + of_nat j)"
  shows "copied xs s old new (Suc k) ws u"
proof -
  have al: "aligned va" "va < MAXVA"
    using unat_page [OF va(2)] va(2) by (simp_all add: va(1) aligned_unat word_less_nat_alt del: of_nat_mult)
  have "frame (mem u) new va = x" using frame_copy [OF _ x(1)] n [OF al] by simp
  moreover have "mem u (x + of_nat j) = mem s (frame (mem s) old va + of_nat j)" if j: "j < 4096" for j
    using m [OF j] old_frame_same [OF fk _ al(1) va(3,4) j, of t] c by (simp add: copied_def)
  ultimately show ?thesis using copied_step [OF c ev va(2,1) n] x(2,3) va(4) by simp
qed

lemma copy_page_some:
  assumes fk: "forkable xs s old new nb" and c: "copied xs s old new k (x # zs) t"
    and va: "va = of_nat (k * 4096)" "k * 4096 < 2 ^ 38" "va < nb" "valid (mem s) old va"
  shows "\<exists>b u ws. copy_page new va (ent (mem s) old va) t = (Ret b, u) \<and>
     (if b then copied xs s old new (Suc k) ws u else copied xs s old new k ws u \<and> length ws \<le> 1)"
proof -
  let ?f = "frame (mem s) old va"
  have ct: "kmem_inv (x # zs) t" "pt_ok (x # zs) (mem t) new" "keeps s t" "x \<in> set xs" using c by (simp_all add: copied_def)
  have u: "unat va = k * 4096" "aligned va" "va < MAXVA"
    using unat_page [OF va(2)] va(2) by (simp_all add: va(1) aligned_unat word_less_nat_alt del: of_nat_mult)
  have f: "page_ok (kend t) ?f" "?f \<notin> set xs" using fk va u keeps_kend [OF ct(3)] by (auto simp: forkable_def)
  have x: "page_ok (kend t) x" "x \<notin> set zs" "x \<notin> nodes (mem t) new" "aligned x" "x \<noteq> 0"
    using ct(1) pt_ok_nodes [OF ct(2)] by (auto simp: kmem_inv_def page_ok_def)
  obtain v w where v: "kalloc t = (Ret x, v)" "w = v\<lparr>mem := memmove (mem v) x ?f 4096\<rparr>" "evolves new (x # zs) t zs w"
      "nodes (mem w) new = nodes (mem t) new" "\<And>vb. ent (mem w) new vb = ent (mem t) new vb"
      "\<And>j. j < 4096 \<Longrightarrow> mem w (x + of_nat j) = mem t (?f + of_nat j)"
    using filled [OF ct(1,2) f(1)] f(2) ct(4) by metis
  note e = evolvesD [OF v(3)]
  have "ent (mem t) new va = ent (mem s) new va" using c u unfolding copied_def by auto
  then have "ent (mem w) new va AND PTE_V = 0" using v(5) fk u va(3) by (auto simp: forkable_def valid_def)
  then obtain r w' ws where m: "mappages new va PGSIZE x (PTE_FLAGS (ent (mem s) old va)) w = (Ret r, w')" "evolves new zs w ws w'"
     "if r = 0 then \<forall>vb. aligned vb \<longrightarrow> vb < MAXVA \<longrightarrow> ent (mem w') new vb =
          (if vb = va then PA2PTE x OR PTE_FLAGS (ent (mem s) old va) OR PTE_V else ent (mem w) new vb)
      else ws = [] \<and> (\<forall>vb. aligned vb \<longrightarrow> vb < MAXVA \<longrightarrow> ent (mem w') new vb = ent (mem w) new vb)"
    using map_one [OF e(1,3) u(2,3)] by blast
  note d = evolvesD [OF m(2)]
  have ev: "evolves new (x # zs) t ws w'" by (rule evolves_trans [OF v(3) m(2)])
  have xw: "x \<notin> set ws" "x \<notin> nodes (mem w') new" "x \<notin> nodes (mem w) new" using x d(2,4) v(4) by auto
  note step = v(1) v(2) [symmetric] m(1) x(5)
  show ?thesis
  proof (cases "r = 0")
    case True
    have n: "ent (mem w') new vb = (if vb = va then PA2PTE x OR PTE_FLAGS (ent (mem s) old va) OR PTE_V else ent (mem t) new vb)"
      if "aligned vb" "vb < MAXVA" for vb using m(3) v(5) True that by simp
    have "mem w' (x + of_nat j) = mem t (?f + of_nat j)" if j: "j < 4096" for j
    proof -
      have "same_on {x} (mem w) (mem w')" using d(5) x xw by simp
      then show ?thesis using in_page_offset [OF j, of x] v(6) [OF j] by (simp add: same_on_def)
    qed
    then have "copied xs s old new (Suc k) ws w'" using copy_success [OF fk c va ev x(1) xw(1,2) n] by blast
    moreover have "copy_page new va (ent (mem s) old va) t = (Ret True, w')"
      using step True by (simp add: copy_page_def kdefs frame_def)
    ultimately show ?thesis by (intro exI [of _ True]) auto
  next
    case False
    obtain w2 where w2: "kfree x w' = (Ret (), w2)" "evolves new (x # zs) t (x # ws) w2" "\<forall>vb. ent (mem w2) new vb = ent (mem w') new vb"
      using freed [OF ev xw(1) x(1) xw(2) d(2) x(2)] d(4) v(4) by auto
    have "copied xs s old new k (x # ws) w2" using copied_evolve [OF c w2(2)] va(2) w2(3) m(3) v(5) False by simp
    moreover have "copy_page new va (ent (mem s) old va) t = (Ret False, w2)"
      using step False w2(1) by (simp add: copy_page_def kdefs frame_def)
    ultimately show ?thesis using m(3) False by (intro exI [of _ False]) auto
  qed
qed

lemma copy_page_ok:
  assumes fk: "forkable xs s old new nb" and c: "copied xs s old new k ys t"
    and va: "va = of_nat (k * 4096)" "k * 4096 < 2 ^ 38" "va < nb" "valid (mem s) old va"
  shows "\<exists>b u ws. copy_page new va (ent (mem s) old va) t = (Ret b, u) \<and>
     (if b then copied xs s old new (Suc k) ws u else copied xs s old new k ws u \<and> length ws \<le> 1)"
proof (cases ys)
  case (Cons x zs)
  then show ?thesis using copy_page_some [OF fk _ va] c by blast
next
  case Nil
  have t: "freelist t = 0" "lock_free KmemLock (ctl t)" "kmem_inv [] t" "pt_ok [] (mem t) new"
    using c Nil by (simp_all add: copied_def kmem_inv_def)
  let ?u = "t\<lparr>ctl := settle (ctl t)\<rparr>"
  have "keeps t ?u" unfolding keeps_def
    by (intro exI [of _ "mem t"] exI [of _ "freelist t"] exI [of _ "settle (ctl t)"]) simp
  then have "evolves new [] t [] ?u" using t by (simp add: evolves_def kmem_inv_def)
  then have "copied xs s old new k [] ?u" using copied_evolve [OF c [unfolded Nil]] va(2) by simp
  then show ?thesis using kalloc_empty [OF t(1,2)] by (intro exI [of _ False] exI [of _ ?u] exI [of _ "[]"]) (simp add: copy_page_def kdefs)
qed

text \<open>When the copy fails, the pages copied so far can be unmapped and freed.\<close>

lemma pages_below:
  assumes nb: "nb \<le> MAXVA" and k: "k * 4096 < unat nb + 4096" and vb: "vb \<in> pages 0 k"
  shows "aligned vb" "vb < MAXVA" "unat vb < k * 4096" "vb < nb"
proof -
  have n: "unat nb \<le> 2 ^ 38" using nb by (simp add: word_le_nat_alt)
  obtain j where j: "vb = of_nat (j * 4096)" "j < k" using vb by (auto simp: pages_def)
  have "Suc j * 4096 \<le> k * 4096" using j(2) by (intro mult_le_mono1) simp
  then have l: "j * 4096 < unat nb" "j * 4096 < k * 4096" using k by simp_all
  then have "unat vb = j * 4096" using unat_page [of j] j(1) n by simp
  then show "aligned vb" "vb < MAXVA" "unat vb < k * 4096" "vb < nb" using l n by (simp_all add: aligned_unat word_less_nat_alt)
qed

lemma copied_valid:
  assumes fk: "forkable xs s old new nb" and c: "copied xs s old new k ys t" and k: "k * 4096 < unat nb + 4096"
    and vb: "vb \<in> pages 0 k" "valid (mem t) new vb"
  shows "valid (mem s) old vb" "page_copy xs (mem s) old new ys (mem t) vb"
proof -
  have "nb \<le> MAXVA" using fk by (simp add: forkable_def)
  note pg = pages_below [OF this k vb(1)]
  have "\<not> valid (mem s) new vb" using fk pg by (simp add: forkable_def)
  then show v: "valid (mem s) old vb" using c pg vb(2) unfolding copied_def by (auto simp: valid_def split: if_splits)
  show "page_copy xs (mem s) old new ys (mem t) vb" using copied_frames [OF c] pg v by simp
qed

lemma copied_freeable:
  assumes fk: "forkable xs s old new nb" and c: "copied xs s old new k ys t" and k: "k * 4096 < unat nb + 4096"
  shows "freeable new (pages 0 k) t ys"
proof -
  have "nb \<le> MAXVA" using fk by (simp add: forkable_def)
  note pg = pages_below [OF this k] and vl = copied_valid [OF fk c k]
  have xs: "\<forall>x\<in>set xs. page_ok (kend t) x" using fk c keeps_kend [of s t] by (simp add: forkable_def copied_def kmem_inv_def)
  have "inj_on (frame (mem t) new) {va. aligned va \<and> unat va < k * 4096 \<and> valid (mem s) old va}" using c by (simp add: copied_def)
  then have "inj_on (frame (mem t) new) {vb \<in> pages 0 k. valid (mem t) new vb}" by (rule inj_on_subset) (use pg vl in auto)
  moreover have "page_ok (kend t) (frame (mem t) new vb) \<and> frame (mem t) new vb \<notin> set ys \<and> frame (mem t) new vb \<notin> nodes (mem t) new"
    if "vb \<in> pages 0 k" "valid (mem t) new vb" for vb using vl [OF that] xs by (simp add: page_copy_def)
  ultimately show ?thesis using pg unfolding freeable_def by blast
qed

lemma uvmunmap_ok:
  assumes "kmem_inv ys t" "pt_ok ys (mem t) pt" "k * 4096 \<le> 2 ^ 38" "freeable pt (pages 0 k) t ys"
  shows "\<exists>u zs. uvmunmap pt 0 (of_nat k) True t = (Ret (), u) \<and> unmaps pt (pages 0 k) t ys u zs"
proof -
  have "unat (of_nat k :: u64) = k" using assms(3) by (simp add: unat_of_nat take_bit_nat_eq_self)
  then show ?thesis using unmap_loop_ok [OF assms(1,2), of 0 k] assms(3,4) by (simp add: uvmunmap_def)
qed

text \<open>The state after a copy that failed: the first \<open>k\<close> pages had been copied when memory ran out, and those are
  unmapped and their frames are free again.\<close>

definition undone :: "u64 list \<Rightarrow> 'a kmem_state_scheme \<Rightarrow> u64 \<Rightarrow> u64 \<Rightarrow> u64 \<Rightarrow> u64 list \<Rightarrow> 'a kmem_state_scheme \<Rightarrow> bool" where
  "undone xs s old new nb ys s' \<longleftrightarrow>
     (\<exists>k zs t. k * 4096 < unat nb \<and> copied xs s old new k zs t \<and> length zs \<le> 1 \<and> unmaps new (pages 0 k) t zs s' ys)"

text \<open>One turn of the loop.\<close>

lemma uvmcopy_turn:
  assumes "i < nb" "i < MAXVA" "pt_ok zs (mem t) old"
  shows "uvmcopy_loop (Suc n) old new i nb t =
    (if valid (mem t) old i
     then bind (copy_page new i (ent (mem t) old i)) (\<lambda>b. if b then uvmcopy_loop n old new (i + PGSIZE) nb
            else seq (uvmunmap new 0 (i div PGSIZE) True) (ret (- 1))) t
     else uvmcopy_loop n old new (i + PGSIZE) nb t)"
proof (cases "node (mem t) old i 2")
  case None
  then show ?thesis using assms by (subst uvmcopy_loop.simps) (simp add: bind_def walk_read valid_def ent_def)
next
  case (Some p)
  have "pte_at p 0 i \<noteq> 0" using pte_at_nonzero [OF assms(3) Some] by simp
  then show ?thesis using assms Some
    by (subst uvmcopy_loop.simps)
       (auto simp: bind_def walk_read valid_def ent_def ldw_def gets_def copy_page_def seq_def ret_def split: prod.splits outcome.splits)
qed

lemma copied_old:
  assumes "forkable xs s old new nb" "copied xs s old new k ys t"
  shows "pt_ok xs (mem t) old" "ent (mem t) old va = ent (mem s) old va" "valid (mem t) old va = valid (mem s) old va"
proof -
  have o: "same_on (nodes (mem s) old) (mem s) (mem t)" using old_same [OF assms(1)] assms(2) by (simp add: copied_def)
  show "pt_ok xs (mem t) old" using pt_ok_same [OF _ o] assms(1) by (simp add: forkable_def)
  show "ent (mem t) old va = ent (mem s) old va" by (rule ent_same [OF o])
  then show "valid (mem t) old va = valid (mem s) old va" by (simp add: valid_def)
qed

lemma copy_undo:
  assumes fk: "forkable xs s old new nb" and c: "copied xs s old new k ys t" "length ys \<le> 1" and k: "k * 4096 < unat nb"
  shows "\<exists>u zs. seq (uvmunmap new 0 (of_nat (k * 4096) div PGSIZE) True) (ret (- 1)) t = (Ret (- 1), u) \<and> undone xs s old new nb zs u"
proof -
  have b: "k * 4096 < 2 ^ 38" using fk k by (simp add: forkable_def word_le_nat_alt)
  have "unat (of_nat (k * 4096) div PGSIZE) = unat (of_nat k :: u64)"
    using unat_page [OF b] b by (simp add: unat_div unat_of_nat take_bit_nat_eq_self del: of_nat_mult)
  then have d: "of_nat (k * 4096) div PGSIZE = of_nat k" by (simp only: word_unat_eq_iff)
  have t: "kmem_inv ys t" "pt_ok ys (mem t) new" using c by (simp_all add: copied_def)
  obtain u zs where "uvmunmap new 0 (of_nat k) True t = (Ret (), u)" "unmaps new (pages 0 k) t ys u zs"
    using uvmunmap_ok [OF t _ copied_freeable [OF fk c(1)]] b k by auto
  then show ?thesis using c k unfolding d undone_def by (auto simp: seq_def bind_def ret_def)
qed

lemma copy_loop_ok:
  assumes fk: "forkable xs s old new nb"
  shows "copied xs s old new k ys t \<Longrightarrow> k + n = N \<Longrightarrow> unat nb \<le> N * 4096 \<Longrightarrow> N * 4096 < unat nb + 4096 \<Longrightarrow>
    \<exists>r u zs. uvmcopy_loop n old new (of_nat (k * 4096)) nb t = (Ret r, u) \<and>
      (r = 0 \<and> copied xs s old new N zs u \<or> r = - 1 \<and> undone xs s old new nb zs u)"
proof (induction n arbitrary: k ys t)
  case 0
  have nb: "unat nb \<le> 2 ^ 38" using fk by (simp add: forkable_def word_le_nat_alt)
  then have "k * 4096 < 2 ^ 64" using 0 by simp
  then have "unat (of_nat (k * 4096) :: u64) = k * 4096" by (simp add: unat_of_nat take_bit_nat_eq_self del: of_nat_mult)
  then have "\<not> of_nat (k * 4096) < nb" using 0 unfolding word_less_nat_alt by simp
  then show ?case using 0 by (subst uvmcopy_loop.simps) (auto simp: ret_def)
next
  case (Suc n)
  let ?va = "of_nat (k * 4096) :: u64"
  have "Suc k * 4096 \<le> N * 4096" using Suc.prems(2) by (intro mult_le_mono1) simp
  then have k: "k * 4096 < unat nb" using Suc.prems(4) by simp
  then have b: "k * 4096 < 2 ^ 38" using fk by (simp add: forkable_def word_le_nat_alt)
  have va: "?va < nb" "?va < MAXVA" using unat_page [OF b] k b by (simp_all add: word_less_nat_alt del: of_nat_mult)
  have n: "?va + PGSIZE = of_nat (Suc k * 4096)" by simp
  note turn = uvmcopy_turn [OF va copied_old(1) [OF fk Suc.prems(1)], of n new, unfolded copied_old(2,3) [OF fk Suc.prems(1)] n]
  note IH = Suc.IH [OF _ _ Suc.prems(3,4), of "Suc k"]
  show ?case
  proof (cases "valid (mem s) old ?va")
    case False
    then show ?thesis using IH [OF copied_skip [OF Suc.prems(1) refl b]] Suc.prems(2) turn by simp
  next
    case True
    obtain c u ws where p: "copy_page new ?va (ent (mem s) old ?va) t = (Ret c, u)"
        "if c then copied xs s old new (Suc k) ws u else copied xs s old new k ws u \<and> length ws \<le> 1"
      using copy_page_ok [OF fk Suc.prems(1) refl b va(1) True] by blast
    show ?thesis
    proof (cases c)
      case True
      then show ?thesis using IH [of ws u] p Suc.prems(2) turn \<open>valid (mem s) old ?va\<close> by (simp add: bind_def)
    next
      case False
      then obtain w zs where "seq (uvmunmap new 0 (?va div PGSIZE) True) (ret (- 1 :: int)) u = (Ret (- 1), w)" "undone xs s old new nb zs w"
        using copy_undo [OF fk _ _ k, of ws u] p(2) by auto
      then show ?thesis using False p(1) turn \<open>valid (mem s) old ?va\<close>
        by (intro exI [of _ "- 1"] exI [of _ w] exI [of _ zs]) (simp add: bind_def)
    qed
  qed
qed

lemma undone_facts:
  assumes fk: "forkable xs s old new nb" and u: "undone xs s old new nb ys t"
  shows "kmem_inv ys t" "set ys \<subseteq> set xs" "pt_ok ys (mem t) new" "untouched xs new s t"
    "aligned va \<Longrightarrow> va < MAXVA \<Longrightarrow> valid (mem t) new va = valid (mem s) new va"
proof -
  obtain k zs w where k: "k * 4096 < unat nb" "copied xs s old new k zs w" "unmaps new (pages 0 k) w zs t ys"
    using u by (auto simp: undone_def)
  have c: "set zs \<subseteq> set xs" "nodes (mem w) new \<subseteq> nodes (mem s) new \<union> (set xs - set zs)" "untouched xs new s w"
    using k(2) by (simp_all add: copied_def)
  have f: "frame (mem w) new ` {vb \<in> pages 0 k. valid (mem w) new vb} \<subseteq> set xs"
    using copied_valid(2) [OF fk k(2)] k(1) by (auto simp: page_copy_def)
  show "kmem_inv ys t" "set ys \<subseteq> set xs" "pt_ok ys (mem t) new" using k(3) c(1) f by (simp_all add: unmaps_def)
  show "untouched xs new s t" unfolding untouched_def
  proof (intro allI impI)
    fix q assume q: "aligned q" "q \<notin> set xs" "q \<notin> nodes (mem s) new"
    have "q \<notin> nodes (mem w) new" using q c(2) by blast
    moreover have "q \<notin> frame (mem w) new ` {vb \<in> pages 0 k. valid (mem w) new vb}" using q(2) f by blast
    ultimately have "same_on {q} (mem w) (mem t)" using k(3) q(1) by (simp add: unmaps_def)
    then show "same_on {q} (mem s) (mem t)" using c(3) q same_on_trans unfolding untouched_def by blast
  qed
  assume va: "aligned va" "va < MAXVA"
  show "valid (mem t) new va = valid (mem s) new va"
  proof (cases "va \<in> pages 0 k")
    case True
    then have "va < nb" using pages_below(4) [of nb k va] fk k(1) by (simp add: forkable_def)
    then have "\<not> valid (mem s) new va" using fk va by (simp add: forkable_def)
    then show ?thesis using k(3) va True unfolding unmaps_def by (auto simp: valid_def)
  next
    case False
    obtain j where j: "unat va = j * 4096" using va(1) unfolding aligned_unat by (metis div_mult_mod_eq add.right_neutral)
    then have "va = 0 + of_nat (j * 4096)" by (simp flip: j)
    then have "\<not> j < k" using False unfolding pages_def by blast
    then have "\<not> unat va < k * 4096" using j by simp
    then have "ent (mem w) new va = ent (mem s) new va" using k(2) va unfolding copied_def by auto
    then show ?thesis using unmaps_view(1) [OF k(3) False va] by (simp add: valid_def)
  qed
qed

text \<open>The bytes a process sees at its addresses.\<close>

lemma offset_small: "\<exists>j<4096. a - PGROUNDDOWN a = of_nat j"
proof -
  have "in_page (PGROUNDDOWN a) a" by (simp add: in_page_aligned)
  then show ?thesis unfolding in_page_def by (intro exI [of _ "unat (a - PGROUNDDOWN a)"]) simp
qed

lemma page_copy_ubyte: "page_copy xs m old new ys m' (PGROUNDDOWN a) \<Longrightarrow> ubyte m' new a = ubyte m old a"
  using offset_small [of a] by (auto simp: page_copy_def ubyte_def)

lemma untouched_ubyte:
  assumes "forkable xs s old new nb" "untouched xs new s t" "a < nb" "valid (mem s) old (PGROUNDDOWN a)"
  shows "ubyte (mem t) old a = ubyte (mem s) old a"
proof -
  have "PGROUNDDOWN a \<le> a" by (simp add: word_le_nat_alt unat_PGROUNDDOWN)
  then have "PGROUNDDOWN a < nb" using assms(3) by simp
  then show ?thesis
    using old_frame_same [OF assms(1,2) _ _ assms(4)] offset_small [of a] ent_same [OF old_same [OF assms(1,2)]]
    by (auto simp: ubyte_def frame_def)
qed

lemma pages_needed: "n \<le> (n + 4095) div 4096 * 4096" "(n + 4095) div 4096 * 4096 < n + 4096" for n :: nat
proof -
  define q r where "q = (n + 4095) div 4096 * 4096" and "r = (n + 4095) mod 4096"
  have "q + r = n + 4095" "r < 4096" using div_mult_mod_eq [of "n + 4095" 4096] by (simp_all add: q_def r_def)
  then have "n \<le> q" "q < n + 4096" by simp_all
  then show "n \<le> (n + 4095) div 4096 * 4096" "(n + 4095) div 4096 * 4096 < n + 4096" unfolding q_def .
qed

lemma page_bound:
  assumes "aligned va" "unat nb \<le> N * 4096" "N * 4096 < unat nb + 4096"
  shows "va < nb \<longleftrightarrow> unat va < N * 4096"
proof -
  obtain j where j: "unat va = j * 4096" using assms(1) unfolding aligned_unat by (metis div_mult_mod_eq add.right_neutral)
  have "unat va < unat nb" if "unat va < N * 4096"
  proof -
    have "Suc j * 4096 \<le> N * 4096" using that j by (intro mult_le_mono1) simp
    then show ?thesis using assms(3) j by simp
  qed
  then show ?thesis using assms(2) by (auto simp: word_less_nat_alt)
qed

lemma copied_facts:
  assumes "copied xs s old new k ys t"
  shows "kmem_inv ys t" "set ys \<subseteq> set xs" "pt_ok ys (mem t) new" "untouched xs new s t"
  using assms by (simp_all add: copied_def)

lemma copied_result:
  assumes fk: "forkable xs s old new nb" and c: "copied xs s old new N ys t" and N: "unat nb \<le> N * 4096" "N * 4096 < unat nb + 4096"
  shows "\<forall>va. aligned va \<and> va < nb \<and> valid (mem s) old va \<longrightarrow> page_copy xs (mem s) old new ys (mem t) va"
    "\<forall>a. a < nb \<and> valid (mem s) old (PGROUNDDOWN a) \<longrightarrow> ubyte (mem t) new a = ubyte (mem s) old a"
    "\<forall>va. aligned va \<and> va < MAXVA \<and> \<not> (va < nb \<and> valid (mem s) old va) \<longrightarrow> ent (mem t) new va = ent (mem s) new va"
    "inj_on (frame (mem t) new) {va. aligned va \<and> va < nb \<and> valid (mem s) old va}"
proof -
  note b = page_bound [OF _ N]
  have m: "va < MAXVA" if "va < nb" for va using fk that by (auto simp: forkable_def)
  show p: "\<forall>va. aligned va \<and> va < nb \<and> valid (mem s) old va \<longrightarrow> page_copy xs (mem s) old new ys (mem t) va"
    using copied_frames [OF c] b m by blast
  have "PGROUNDDOWN a \<le> a" for a :: u64 by (simp add: word_le_nat_alt unat_PGROUNDDOWN)
  then have "PGROUNDDOWN a < nb" if "a < nb" for a using that le_less_trans by blast
  then show "\<forall>a. a < nb \<and> valid (mem s) old (PGROUNDDOWN a) \<longrightarrow> ubyte (mem t) new a = ubyte (mem s) old a"
    using p page_copy_ubyte [of xs "mem s" old new ys "mem t"] aligned_PGROUNDDOWN by blast
  show "\<forall>va. aligned va \<and> va < MAXVA \<and> \<not> (va < nb \<and> valid (mem s) old va) \<longrightarrow> ent (mem t) new va = ent (mem s) new va"
    using c b unfolding copied_def by auto
  have "inj_on (frame (mem t) new) {va. aligned va \<and> unat va < N * 4096 \<and> valid (mem s) old va}" using c by (simp add: copied_def)
  then show "inj_on (frame (mem t) new) {va. aligned va \<and> va < nb \<and> valid (mem s) old va}"
    by (rule inj_on_subset) (use b in auto)
qed

section \<open>A machine that forks\<close>

text \<open>The address space of \<open>Uvm\<close>, an empty table and three free pages: two for the tables and one for the copy.\<close>

abbreviation (input) CHILD :: u64 where "CHILD \<equiv> 0x80107000"

abbreviation (input) free_pages :: "u64 list" where "free_pages \<equiv> [0x80104000, 0x80105000, 0x80106000]"

definition fork_mem :: memory where
  "fork_mem = store64 (store64 (store64 demo 0x80106000 0) 0x80105000 0x80106000) 0x80104000 0x80105000"

definition fork_state :: proc_state where
  "fork_state = demo_state\<lparr>mem := fork_mem, freelist := 0x80104000\<rparr>"

lemma same_on_store_head: "aligned p \<Longrightarrow> \<forall>q\<in>P. aligned q \<and> q \<noteq> p \<Longrightarrow> same_on P m (store64 m p v)"
  using same_on_store64 [of p 0 P m v] by simp

lemma load_store_head: "aligned p \<Longrightarrow> aligned q \<Longrightarrow> q \<noteq> p \<Longrightarrow> load64 (store64 m p v) q = load64 m q"
  using same_on_load64 [OF same_on_store_head [of p "{q}" m v], of q 0] by simp

lemma fork_aligned [simp]: "aligned (0x80104000 :: u64)" "aligned (0x80105000 :: u64)" "aligned (0x80106000 :: u64)" "aligned CHILD"
  by (simp_all add: aligned_def)

lemma fork_same: "\<forall>q\<in>P. aligned q \<and> q \<notin> set free_pages \<Longrightarrow> same_on P demo fork_mem"
  unfolding fork_mem_def by (intro same_on_trans [OF same_on_store_head same_on_trans [OF same_on_store_head same_on_store_head]]) auto

lemma fork_inv: "kmem_inv free_pages fork_state"
  by (simp add: kmem_inv_def fork_state_def fork_mem_def load_store_head page_ok_def)

lemma demo_tables: "nodes demo ROOT \<subseteq> {LEAF, MID, ROOT}"
proof -
  have "nodes demo1 ROOT \<subseteq> {MID, ROOT}"
    using grow_nodes [OF demo1_grow] fresh_nodes [of "\<lambda>_. 0" ROOT] by (simp add: demo1_def)
  then have "nodes demo2 ROOT \<subseteq> {LEAF, MID, ROOT}" using grow_nodes [OF demo2_grow] unfolding demo2_def by blast
  then show ?thesis unfolding demo_def using pt_ok_leaf_store(2) [OF demo2_ok demo2_node] by simp
qed

lemma fork_child: "zeroed fork_mem CHILD"
proof (rule zeroed_same)
  show "zeroed demo CHILD" unfolding demo_def demo2_def demo1_def grown_def by (intro zeroed_store) auto
  show "same_on {CHILD} demo fork_mem" by (rule fork_same) simp
qed

lemma fork_ready: "forkable free_pages fork_state ROOT CHILD 0x1000"
proof -
  have n: "same_on (nodes demo ROOT) demo fork_mem" using demo_tables by (intro fork_same) auto
  have t: "nodes fork_mem ROOT \<subseteq> {LEAF, MID, ROOT}" using nodes_same [OF n] demo_tables by simp
  have ok: "pt_ok free_pages fork_mem ROOT"
    using pt_ok_same [OF demo_ok n] t unfolding pt_ok_def by auto
  have c: "pt_ok free_pages fork_mem CHILD" "nodes fork_mem CHILD = {CHILD}" "ent fork_mem CHILD va = 0" for va
    using fresh_ok [OF fork_child, of free_pages] fresh_nodes [OF fork_child] fresh_ent [OF fork_child] by simp_all
  have f: "page_ok 0x80021530 (frame fork_mem ROOT va)" "frame fork_mem ROOT va = FRAME" if "aligned va" "va < 0x1000" for va
  proof -
    have "va = 0" using one_page [of 0 va] that by (simp add: word_less_nat_alt)
    then show "frame fork_mem ROOT va = FRAME" using demo_user(3) ent_same [OF n] by (simp add: frame_def)
    then show "page_ok 0x80021530 (frame fork_mem ROOT va)" by (simp add: page_ok_def)
  qed
  have "nodes fork_mem ROOT \<inter> nodes fork_mem CHILD = {}" using t c(2) by auto
  then show ?thesis using fork_inv ok c f by (simp add: forkable_def fork_state_def valid_def)
qed

section \<open>Properties\<close>

text \<open>C9. \<open>uvmcopy\<close>, the copy of a process's memory in \<open>fork\<close>.  Given a sound table of the parent, a sound table of
  the child with nothing mapped below \<open>nb\<close>, and a free list apart from both and from the parent's frames, the call
  returns.  In every case the parent's entries are as before and the parent reads the same bytes, the child's table and
  the free list are sound, and memory outside the free pages and the child's table is untouched.  With the result 0,
  each page the parent has below \<open>nb\<close> is mapped in the child with the same flags on a frame of its own, taken from the
  free list, and the child reads the same bytes at the same addresses; all other entries are as before.  With the
  result \<open>-1\<close>, memory ran out: the pages copied so far are unmapped and freed, and the child has the pages it had.\<close>

theorem uvmcopy_copies:
  assumes "forkable xs s old new nb"
  shows "\<exists>r t ys. uvmcopy old new nb s = (Ret r, t) \<and> kmem_inv ys t \<and> set ys \<subseteq> set xs \<and> pt_ok ys (mem t) new \<and>
    untouched xs new s t \<and> (\<forall>va. ent (mem t) old va = ent (mem s) old va) \<and>
    (\<forall>a. a < nb \<and> valid (mem s) old (PGROUNDDOWN a) \<longrightarrow> ubyte (mem t) old a = ubyte (mem s) old a) \<and>
    (r = 0 \<and>
       (\<forall>va. aligned va \<and> va < nb \<and> valid (mem s) old va \<longrightarrow> page_copy xs (mem s) old new ys (mem t) va) \<and>
       (\<forall>a. a < nb \<and> valid (mem s) old (PGROUNDDOWN a) \<longrightarrow> ubyte (mem t) new a = ubyte (mem s) old a) \<and>
       (\<forall>va. aligned va \<and> va < MAXVA \<and> \<not> (va < nb \<and> valid (mem s) old va) \<longrightarrow> ent (mem t) new va = ent (mem s) new va) \<and>
       inj_on (frame (mem t) new) {va. aligned va \<and> va < nb \<and> valid (mem s) old va} \<or>
     r = - 1 \<and> undone xs s old new nb ys t \<and>
       (\<forall>va. aligned va \<and> va < MAXVA \<longrightarrow> valid (mem t) new va = valid (mem s) new va))"
proof -
  define N where "N = (unat nb + 4095) div 4096"
  have N: "unat nb \<le> N * 4096" "N * 4096 < unat nb + 4096" using pages_needed [of "unat nb"] by (simp_all only: N_def)
  have u: "uvmcopy old new nb = uvmcopy_loop N old new (of_nat (0 * 4096)) nb" by (simp add: uvmcopy_def N_def)
  obtain r t ys where r: "uvmcopy old new nb s = (Ret r, t)" "r = 0 \<and> copied xs s old new N ys t \<or> r = - 1 \<and> undone xs s old new nb ys t"
    using copy_loop_ok [OF assms copied_0 [OF assms] add_0 N] unfolding u by blast
  have b: "kmem_inv ys t" "set ys \<subseteq> set xs" "pt_ok ys (mem t) new" "untouched xs new s t"
    using r(2) undone_facts(1-4) [OF assms, of ys t] copied_facts [of xs s old new N ys t] by blast+
  have o: "\<forall>va. ent (mem t) old va = ent (mem s) old va" using ent_same [OF old_same [OF assms b(4)]] by blast
  have p: "\<forall>a. a < nb \<and> valid (mem s) old (PGROUNDDOWN a) \<longrightarrow> ubyte (mem t) old a = ubyte (mem s) old a"
    using untouched_ubyte [OF assms b(4)] by blast
  show ?thesis using r(2)
  proof
    assume k: "r = 0 \<and> copied xs s old new N ys t"
    show ?thesis by (intro exI [of _ r] exI [of _ t] exI [of _ ys] conjI disjI1 r(1) b o p conjunct1 [OF k] copied_result [OF assms conjunct2 [OF k] N])
  next
    assume k: "r = - 1 \<and> undone xs s old new nb ys t"
    have v: "\<forall>va. aligned va \<and> va < MAXVA \<longrightarrow> valid (mem t) new va = valid (mem s) new va"
      using undone_facts(5) [OF assms conjunct2 [OF k]] by blast
    show ?thesis by (intro exI [of _ r] exI [of _ t] exI [of _ ys] conjI disjI2 r(1) b o p conjunct1 [OF k] conjunct2 [OF k] v)
  qed
qed

theorem uvmcopy_copies_witness:
  "\<exists>r t ys. uvmcopy ROOT CHILD 0x1000 fork_state = (Ret r, t) \<and> kmem_inv ys t \<and> ubyte (mem t) ROOT 0x20 = ubyte fork_mem ROOT 0x20 \<and>
    (r = 0 \<and> ubyte (mem t) CHILD 0x20 = ubyte fork_mem ROOT 0x20 \<or> r = - 1 \<and> undone free_pages fork_state ROOT CHILD 0x1000 ys t)"
proof -
  have n: "same_on (nodes demo ROOT) demo fork_mem" using demo_tables by (intro fork_same) auto
  have m: "mem fork_state = fork_mem" by (simp add: fork_state_def)
  have "PGROUNDDOWN 0x20 = 0" by (simp add: PGROUNDDOWN_def)
  then have v: "valid fork_mem ROOT (PGROUNDDOWN 0x20)" by (simp add: valid_def ent_same [OF n] demo_ent demo_entry)
  have lt: "(0x20 :: u64) < 0x1000" by simp
  from uvmcopy_copies [OF fork_ready, unfolded m] show ?thesis
  proof (elim exE conjE disjE, goal_cases)
    case (1 r t ys)
    have "ubyte (mem t) ROOT 0x20 = ubyte fork_mem ROOT 0x20" "ubyte (mem t) CHILD 0x20 = ubyte fork_mem ROOT 0x20"
      using 1(7,10) lt v by blast+
    then show ?case using 1(1,2,8) by blast
  next
    case (2 r t ys)
    have "ubyte (mem t) ROOT 0x20 = ubyte fork_mem ROOT 0x20" using 2(7) lt v by blast
    then show ?case using 2(1,2,8,9) by blast
  qed
qed

end
