(* ===== verification/Spec2Isabelle.thy ===== *)
theory Spec2Isabelle
  imports Transaction Start Mkfs Console_Input Libc Scheduling Strtol Timezone Mutex Uvmcopy
begin

text \<open>
  CINUX: a RISC-V kernel in the tradition of xv6 with an ext2 driver (\<open>src/kernel\<close>), the tool that
  makes its file-system image (\<open>src/mkfs\<close>), and a C library ported to it (\<open>src/mlibc\<close>).

  \<^bold>\<open>How the code is modelled.\<close>  A C function is a routine: a function from the state of the machine to
  an outcome and a new state (\<open>Kprelude\<close>).  The outcomes are \<open>Ret v\<close> (the function returns), \<open>Panic m\<close>
  (the kernel stops with a message), \<open>Swtch\<close> (the process gives up the processor; the code that runs when it
  is scheduled again is a definition of its own), \<open>Spin\<close> (it waits for a lock that another hart holds),
  \<open>Undef\<close> (the C code has no defined behaviour: a null pointer, an index out of range, a division by
  zero) and \<open>Loops\<close> (the code does not return).  The state is a record that grows from component to
  component, in the order of the theories: control state of the harts and the locks (\<open>ctl\<close>), serial
  line, memory and the list of free pages, process table, sleep-locks, page tables, disk and buffer cache,
  log, console, inodes, files and pipes, traps.  Memory is a function from 64-bit addresses to bytes;
  page tables, user memory and trapframes live in it.  Integers are words of the width they have in C, or
  integers that are reduced where C converts.  The C library's functions are HOL functions; a failing assertion is \<open>None\<close>.

  \<^bold>\<open>Which theory models what.\<close>
  \<^item> \<open>Kprelude\<close>: routines, their composition, loops and the rules for reasoning about them.  \<open>Riscv\<close>:
    \<open>riscv.h\<close>, \<open>memlayout.h\<close>, \<open>param.h\<close>; \<open>Kstring\<close>: \<open>string.c\<close>.
  \<^item> \<open>Spinlock\<close>: \<open>spinlock.c\<close>; \<open>Sleeplock\<close>: \<open>sleeplock.c\<close>; \<open>Printf\<close>: \<open>uart.c\<close>, \<open>printf.c\<close>; \<open>Console\<close>:
    \<open>console.c\<close> and the receiving side of \<open>uart.c\<close>.
  \<^item> \<open>Kalloc\<close>: \<open>kalloc.c\<close>; \<open>Vm\<close>: \<open>vm.c\<close>; \<open>Proc\<close>, \<open>Process\<close>: \<open>proc.c\<close>; \<open>Exec\<close>: \<open>exec.c\<close>.
  \<^item> \<open>Virtio\<close>: \<open>virtio_disk.c\<close>; \<open>Bio\<close>: \<open>bio.c\<close>; \<open>Log\<close>: \<open>log.c\<close>; \<open>Icache\<close>, \<open>Fs\<close>: \<open>fs.c\<close>; \<open>Ext2\<close>: \<open>ext2fs.c\<close>;
    \<open>File\<close>: \<open>file.c\<close>, \<open>pipe.c\<close>.
  \<^item> \<open>Sysproc\<close>, \<open>Sysfile\<close>, \<open>Syscall\<close>: \<open>sysproc.c\<close>, \<open>sysfile.c\<close>, \<open>syscall.c\<close>; \<open>Trap\<close>: \<open>trap.c\<close>, \<open>plic.c\<close>, \<open>main.c\<close>;
    \<open>Start\<close>: \<open>start.c\<close>; \<open>Asm\<close>: the assembly files; \<open>Mkfs\<close>: \<open>mkfs.c\<close>.
  \<^item> \<open>User\<close>: the system-call stubs of \<open>usys.pl\<close> and the glue between \<open>mlibc\<close> and the kernel
    (\<open>mlibc/sysdeps/cinux\<close>).
  \<^item> Parts of \<open>mlibc\<close> above its system dependencies: \<open>Charcode\<close> (\<open>charcode.cpp\<close>, \<open>charset.cpp\<close>, \<open>ctype.cpp\<close>), \<open>Strtol\<close>
    (\<open>strtol.hpp\<close>), \<open>Calendar\<close> and \<open>Timezone\<close> (\<open>time.cpp\<close>), \<open>Mutex\<close> (\<open>threads.cpp\<close>, \<open>lock.hpp\<close>).

  \<^bold>\<open>What is proved.\<close>
  \<^item> \<open>Spinlock\<close>: critical sections nest and restore the interrupt flag; the outcome of \<open>acquire\<close> and \<open>release\<close>
    on every path.
  \<^item> \<open>Kalloc\<close>: the invariant of the free list, and the interface \<open>page_allocator\<close> with its laws; \<open>kinit\<close>
    frees every page; no page is handed out twice.
  \<^item> \<open>Pagetable\<close>, \<open>Uvm\<close>, \<open>Userbuf\<close>: three-level page tables in byte memory as maps from pages to frames;
    \<open>mappages\<close>, \<open>copyout\<close>, \<open>copyin\<close> and \<open>vmfault\<close> against it.  \<open>Uvmcopy\<close>: unmapping, and the copy of an address
    space in \<open>fork\<close>, with what is undone when memory runs out.
  \<^item> \<open>Bio\<close>, \<open>Bcache\<close>: the buffer cache as a store of blocks (\<open>block_store\<close>), with pinned buffers.
    \<open>Boot\<close>, \<open>Recovery\<close>, \<open>Transaction\<close>: transactions of the log are atomic with respect to crashes between
    any two writes of the disk.
  \<^item> \<open>Ring\<close>, \<open>Console_Input\<close>, \<open>Pipe_Fifo\<close>: console input as a line editor and pipes as bounded queues, by
    refinement; both use the ring buffers of the interface \<open>ring_size\<close>.
  \<^item> \<open>Asm\<close>: the assembly code saves and restores registers where the C code expects them, through the page
    table that is in force.
  \<^item> \<open>User\<close>, \<open>Libc\<close>: a system call from the \<open>ecall\<close> in user mode to the instruction behind it, through the
    trampoline and the dispatcher, is a call of the handler; the library's wrappers on top of it.
  \<^item> \<open>Scheduling\<close>: the critical sections of several harts, interleaved in any order (an inductive step
    relation over one kernel state): a process runs on at most one hart, and one that is woken runs.
  \<^item> \<open>Kstring\<close>, \<open>Printf\<close>, \<open>Riscv\<close>: the string routines, number printing, page-table entries.
  \<^item> \<open>Charcode\<close>, \<open>Strtol\<close>, \<open>Calendar\<close>, \<open>Timezone\<close>: UTF-8 and back, numbers in text, days and dates; \<open>Mutex\<close>: mutual
    exclusion of threads that interleave between any two accesses to the lock word.
  \<open>Machine\<close> has the concrete states in which the theorems are exercised.

  \<^bold>\<open>Bounds and fuel.\<close>  \<open>walk\<close> descends three levels by recursion on the level.  \<open>mappages\<close> has one step for
  each page of the range, the number of times the C loop runs.  Loops over tables recurse over the list of
  indices.  Loops over memory that have no bound in C are partial functions with the value \<open>None\<close> where
  they do not end; the routines turn it into \<open>Loops\<close>.

  \<^bold>\<open>Not modelled.\<close>  The linker script, whose addresses are parts of the state; the instructions a C
  compiler generates; instruction fences and the TLB; the memory model of several harts (a routine runs
  without interference until it gives up the processor, which is what the locks guarantee).  Of \<open>mlibc\<close>, a
  vendored library, the parts that need nothing but the language; its formatter, its allocator and its string type
  come from a package that is not in the sources.
\<close>

end
